(* ===== verification/Kcm_Prelude.thy ===== *)
theory Kcm_Prelude
  imports Main "HOL-Library.Word"
begin

text \<open>
  Shared vocabulary of the development: Go's bytes, strings and fixed-width integers, its
  \<^verbatim>\<open>error\<close> values (with a run-time panic as one of them), slice expressions that check their
  bounds, big-endian integers (\<^verbatim>\<open>encoding/binary\<close>), and the number formats \<^verbatim>\<open>%d\<close>, \<^verbatim>\<open>%02x\<close>
  and \<^verbatim>\<open>%08x\<close> of \<^verbatim>\<open>fmt\<close>. The lemmas declared here carry the component proofs.
\<close>

unbundle bit_operations_syntax

named_theorems wire_simps \<open>computing encoders and decoders on encoded input\<close>
named_theorems no_panic \<open>a decoder never reaches an out-of-range slice\<close>

type_synonym byte = "8 word"
type_synonym u16 = "16 word"
type_synonym u32 = "32 word"
type_synonym i32 = "32 word" \<comment> \<open>an \<^verbatim>\<open>int32\<close> is the same 32 bits, read with \<^const>\<open>sint\<close>\<close>

section \<open>Go errors\<close>

text \<open>
  The values of Go's \<^verbatim>\<open>error\<close> interface the program creates: a \<^verbatim>\<open>krb5c.Error\<close> (code and
  message), the sentinel errors, network errors, \<^verbatim>\<open>errors.New\<close>/\<^verbatim>\<open>fmt.Errorf\<close> texts, and
  \<^verbatim>\<open>fmt.Errorf("...: %w", err)\<close>, which keeps the wrapped error. \<open>GoPanic\<close> stands for a
  run-time panic: it ends the process instead of reaching a caller.
\<close>

datatype goerror =
    KrbError i32 string
  | ErrTruncated
  | EOF
  | ErrUnexpectedEOF
  | ErrRenewBusy
  | PlainError string
  | WrapError string goerror
  | OpError string \<comment> \<open>a \<^verbatim>\<open>net.OpError\<close> with the text of its \<^verbatim>\<open>Err\<close>\<close>
  | GoPanic string

fun is_panic :: "goerror \<Rightarrow> bool" where
  "is_panic (GoPanic _) = True"
| "is_panic (WrapError _ err) = is_panic err"
| "is_panic _ = False"

text \<open>\<^verbatim>\<open>x, err := m; if err != nil { return err }; ...\<close>\<close>

definition and_then :: "goerror + 'a \<Rightarrow> ('a \<Rightarrow> goerror + 'b) \<Rightarrow> goerror + 'b" where
  "and_then m f = (case m of Inl err \<Rightarrow> Inl err | Inr x \<Rightarrow> f x)"

text \<open>\<^verbatim>\<open>if err != nil { return fmt.Errorf("text: %w", err) }\<close>\<close>

definition wrap :: "string \<Rightarrow> goerror + 'a \<Rightarrow> goerror + 'a" where
  "wrap text m = (case m of Inl err \<Rightarrow> Inl (WrapError text err) | Inr x \<Rightarrow> Inr x)"

lemma and_then_simps [simp]: "and_then (Inl e) f = Inl e" "and_then (Inr x) f = f x"
  by (simp_all add: and_then_def)

lemma wrap_simps [simp]: "wrap t (Inl e) = Inl (WrapError t e)" "wrap t (Inr x) = Inr x"
  by (simp_all add: wrap_def)

lemma and_then_Inr: "and_then m f = Inr y \<longleftrightarrow> (\<exists>x. m = Inr x \<and> f x = Inr y)"
  by (cases m) auto

lemma and_then_Inl: "and_then m f = Inl e \<longleftrightarrow> m = Inl e \<or> (\<exists>x. m = Inr x \<and> f x = Inl e)"
  by (cases m) auto

lemma wrap_Inr [simp]: "wrap t m = Inr y \<longleftrightarrow> m = Inr y"
  by (cases m) auto

lemma wrap_Inl: "wrap t m = Inl e \<longleftrightarrow> (\<exists>e'. m = Inl e' \<and> e = WrapError t e')"
  by (cases m) auto

section \<open>Bytes and strings\<close>

text \<open>A Go string is a sequence of bytes, as an HOL \<^typ>\<open>string\<close> is; the conversions
  \<^verbatim>\<open>string(b)\<close> and \<^verbatim>\<open>[]byte(s)\<close> copy the bytes.\<close>

definition byte_of_char :: "char \<Rightarrow> byte" where
  "byte_of_char c = word_of_nat (of_char c)"

definition char_of_byte :: "byte \<Rightarrow> char" where
  "char_of_byte b = char_of (unat b)"

definition bytes_of_string :: "string \<Rightarrow> byte list" where
  "bytes_of_string s = map byte_of_char s"

definition string_of_bytes :: "byte list \<Rightarrow> string" where
  "string_of_bytes bs = map char_of_byte bs"

lemma char_of_byte_of_char [simp]: "char_of_byte (byte_of_char c) = c"
proof -
  have "(of_char c :: nat) < 256"
    using range_nat_of_char by (metis atLeastLessThan_iff rangeI)
  then show ?thesis
    by (simp add: char_of_byte_def byte_of_char_def unat_of_nat)
qed

lemma byte_of_char_of_byte [simp]: "byte_of_char (char_of_byte b) = b"
proof -
  have "unat b < 256" using unsigned_less [of b] by simp
  then show ?thesis
    by (simp add: char_of_byte_def byte_of_char_def of_char_of)
qed

lemma string_of_bytes_of_string [simp]: "string_of_bytes (bytes_of_string s) = s"
  by (simp add: string_of_bytes_def bytes_of_string_def comp_def)

lemma bytes_of_string_of_bytes [simp]: "bytes_of_string (string_of_bytes bs) = bs"
  by (simp add: string_of_bytes_def bytes_of_string_def comp_def)

lemma length_bytes_of_string [simp]: "length (bytes_of_string s) = length s"
  by (simp add: bytes_of_string_def)

lemma length_string_of_bytes [simp]: "length (string_of_bytes bs) = length bs"
  by (simp add: string_of_bytes_def)

lemma bytes_of_string_inject [simp]: "bytes_of_string s = bytes_of_string t \<longleftrightarrow> s = t"
  by (metis string_of_bytes_of_string)

section \<open>Slices\<close>

text \<open>\<^verbatim>\<open>xs[:n]\<close> and \<^verbatim>\<open>xs[n:]\<close> panic when \<^verbatim>\<open>n\<close> exceeds the length.\<close>

definition slice_to :: "nat \<Rightarrow> 'a list \<Rightarrow> goerror + 'a list" where
  "slice_to n xs =
     (if n \<le> length xs then Inr (take n xs) else Inl (GoPanic ''slice bounds out of range''))"

definition slice_from :: "nat \<Rightarrow> 'a list \<Rightarrow> goerror + 'a list" where
  "slice_from n xs =
     (if n \<le> length xs then Inr (drop n xs) else Inl (GoPanic ''slice bounds out of range''))"

text \<open>The source's guard \<^verbatim>\<open>uint32(len(r)) < n\<close> compares a length truncated to 32 bits.
  Truncation only makes it smaller, so passing the guard puts the slices in range.\<close>

abbreviation len32 :: "'a list \<Rightarrow> u32" where
  "len32 xs \<equiv> word_of_nat (length xs)"

lemma unat_len32_le: "unat (len32 xs) \<le> length xs"
  by (simp add: unat_of_nat take_bit_nat_eq_self_iff flip: take_bit_eq_mod)

lemma len32_guard: "\<not> len32 xs < n \<Longrightarrow> unat n \<le> length xs"
  using unat_len32_le [of xs] by (simp add: not_less word_le_nat_alt)

lemma slice_to_guarded: "\<not> len32 xs < n \<Longrightarrow> slice_to (unat n) xs = Inr (take (unat n) xs)"
  by (simp add: slice_to_def len32_guard)

lemma slice_from_guarded: "\<not> len32 xs < n \<Longrightarrow> slice_from (unat n) xs = Inr (drop (unat n) xs)"
  by (simp add: slice_from_def len32_guard)

lemma slice_append [simp]:
  "n = length xs \<Longrightarrow> slice_to n (xs @ ys) = Inr xs"
  "n = length xs \<Longrightarrow> slice_from n (xs @ ys) = Inr ys"
  by (simp_all add: slice_to_def slice_from_def)

lemma unat_len32 [simp]: "length xs < 2 ^ 32 \<Longrightarrow> unat (len32 xs) = length xs"
  by (simp add: unat_of_nat)

lemma len32_not_less:
  assumes "length (xs @ ys) < 2 ^ 32"
  shows "\<not> len32 (xs @ ys) < len32 xs"
proof -
  from assms have "unat (len32 xs) = length xs" "unat (len32 (xs @ ys)) = length (xs @ ys)"
    by (simp, subst unat_len32) simp_all
  then show ?thesis by (simp add: word_less_nat_alt)
qed

lemma len32_not_less_add [simp]:
  assumes "m + n < 2 ^ 32"
  shows "\<not> (word_of_nat m + word_of_nat n :: u32) < word_of_nat m"
  using assms by (simp add: word_less_nat_alt unat_of_nat flip: of_nat_add)

section \<open>Big-endian integers\<close>

definition BigEndian_Uint16 :: "byte list \<Rightarrow> u16" where
  "BigEndian_Uint16 b = push_bit 8 (ucast (b ! 0)) OR ucast (b ! 1)"

definition BigEndian_Uint32 :: "byte list \<Rightarrow> u32" where
  "BigEndian_Uint32 b =
     push_bit 24 (ucast (b ! 0)) OR push_bit 16 (ucast (b ! 1)) OR push_bit 8 (ucast (b ! 2))
       OR ucast (b ! 3)"

definition BigEndian_PutUint16 :: "u16 \<Rightarrow> byte list" where
  "BigEndian_PutUint16 v = [ucast (drop_bit 8 v), ucast v]"

definition BigEndian_PutUint32 :: "u32 \<Rightarrow> byte list" where
  "BigEndian_PutUint32 v =
     [ucast (drop_bit 24 v), ucast (drop_bit 16 v), ucast (drop_bit 8 v), ucast v]"

lemma length_BigEndian_Put [simp]:
  "length (BigEndian_PutUint16 v) = 2" "length (BigEndian_PutUint32 x) = 4"
  by (simp_all add: BigEndian_PutUint16_def BigEndian_PutUint32_def)

lemma BigEndian_Uint16_Put [simp]: "BigEndian_Uint16 (BigEndian_PutUint16 v) = v"
  unfolding BigEndian_Uint16_def BigEndian_PutUint16_def
  by (rule bit_word_eqI) (auto simp: bit_simps)

lemma BigEndian_Uint32_Put [simp]: "BigEndian_Uint32 (BigEndian_PutUint32 v) = v"
proof (rule bit_word_eqI)
  fix n assume "n < LENGTH(32)"
  then consider "n < 8" | "8 \<le> n" "n < 16" | "16 \<le> n" "n < 24" | "24 \<le> n" "n < 32"
    by fastforce
  then show "bit (BigEndian_Uint32 (BigEndian_PutUint32 v)) n = bit v n"
    by cases (auto simp: BigEndian_Uint32_def BigEndian_PutUint32_def bit_simps)
qed

lemma bit_byte_high [simp]: "8 \<le> n \<Longrightarrow> \<not> bit (b :: byte) n"
  by (auto dest: bit_imp_le_length)

lemma BigEndian_Put_Uint16: "BigEndian_PutUint16 (BigEndian_Uint16 [a, b]) = [a, b]"
  unfolding BigEndian_Uint16_def BigEndian_PutUint16_def
  by (auto simp: bit_simps intro!: bit_word_eqI)

lemma BigEndian_Put_Uint32: "BigEndian_PutUint32 (BigEndian_Uint32 [a, b, c, d]) = [a, b, c, d]"
  unfolding BigEndian_Uint32_def BigEndian_PutUint32_def
  by (auto simp: bit_simps intro!: bit_word_eqI)

lemma BigEndian_Put_Uint32_take:
  assumes "4 \<le> length bs"
  shows "BigEndian_PutUint32 (BigEndian_Uint32 (take 4 bs)) = take 4 bs"
proof -
  from assms obtain a b c d r where "bs = a # b # c # d # r"
    by (auto simp: numeral_eq_Suc Suc_le_length_iff)
  then show ?thesis by (simp add: BigEndian_Put_Uint32)
qed

lemma BigEndian_PutUint32_inject [simp]:
  "BigEndian_PutUint32 v = BigEndian_PutUint32 w \<longleftrightarrow> v = w"
  by (metis BigEndian_Uint32_Put)

end
