(* ===== verification/Codec.thy ===== *)
theory Codec
  imports Kcm_Prelude
begin

text \<open>
  The interface every wire encoding of the program implements: an encoder, a decoder that
  returns what it leaves of the input, and the set of values the encoder can represent. The
  decoders compare lengths truncated to 32 bits, so the round trip is promised for inputs
  shorter than \<open>2 ^ 32\<close> bytes (the framing layer admits at most \<open>2 ^ 20\<close>). A canonical codec
  accepts nothing but encodings. What clients need (unique readability, rejection of truncated
  input) is proved here once.
\<close>

locale codec =
  fixes enc :: "'a \<Rightarrow> byte list"
    and dec :: "byte list \<Rightarrow> goerror + ('a \<times> byte list)"
    and encodable :: "'a \<Rightarrow> bool"
  assumes dec_enc:
    "encodable x \<Longrightarrow> length (enc x @ r) < 2 ^ 32 \<Longrightarrow> dec (enc x @ r) = Inr (x, r)"
begin

lemma dec_enc_Nil: "encodable x \<Longrightarrow> length (enc x) < 2 ^ 32 \<Longrightarrow> dec (enc x) = Inr (x, [])"
  using dec_enc [of x "[]"] by simp

lemma unique_reading:
  assumes "encodable x" "encodable y" "length (enc x @ r) < 2 ^ 32" "enc x @ r = enc y @ s"
  shows "x = y \<and> r = s"
proof -
  from assms(1,3) have "dec (enc x @ r) = Inr (x, r)" by (rule dec_enc)
  moreover have "dec (enc y @ s) = Inr (y, s)"
    using assms(3) unfolding assms(4) by (rule dec_enc [OF assms(2)])
  ultimately have "Inr (x, r) = (Inr (y, s) :: goerror + _)"
    unfolding assms(4) by (rule trans [OF sym])
  then show ?thesis by simp
qed

lemma enc_inject:
  assumes "encodable x" "encodable y" "length (enc x) < 2 ^ 32" "enc x = enc y"
  shows "x = y"
  using unique_reading [of x y "[]" "[]"] assms by simp

end

locale canonical_codec = codec +
  assumes dec_canonical: "dec b = Inr (x, r) \<Longrightarrow> encodable x \<and> b = enc x @ r"
begin

lemma dec_suffix: "dec b = Inr (x, r) \<Longrightarrow> \<exists>p. b = p @ r"
  by (blast dest: dec_canonical)

lemma dec_iff:
  "length b < 2 ^ 32 \<Longrightarrow> dec b = Inr (x, r) \<longleftrightarrow> encodable x \<and> b = enc x @ r"
  using dec_enc dec_canonical by blast

lemma truncated_rejected:
  assumes "encodable x" "length (enc x) < 2 ^ 32" "enc x = p @ q" "q \<noteq> []"
  shows "\<exists>e. dec p = Inl e"
proof (cases "dec p")
  case (Inr v)
  then obtain y s where y: "dec p = Inr (y, s)" by (cases v) auto
  then have "encodable y" "p = enc y @ s" using dec_canonical by blast+
  with assms have "enc x @ [] = enc y @ (s @ q)" by simp
  with assms(1,2) \<open>encodable y\<close> have "[] = s @ q"
    using unique_reading [of x y "[]" "s @ q"] by simp
  with \<open>q \<noteq> []\<close> show ?thesis by simp
qed simp

end

end
