(* ===== verification/Go_Fmt.thy ===== *)
theory Go_Fmt
  imports Kcm_Prelude
begin

text \<open>
  The verbs of Go's \<^verbatim>\<open>fmt\<close> package that the program prints numbers with: \<^verbatim>\<open>%d\<close>
  (\<open>fmt_nat\<close>, \<open>fmt_int\<close>), \<^verbatim>\<open>%08x\<close> (\<open>fmt_08x\<close>), \<^verbatim>\<open>%q\<close> (\<open>fmt_q\<close>) and \<^verbatim>\<open>hex.EncodeToString\<close>
  (\<open>hex_EncodeToString\<close>). Decimal and hexadecimal output determine the number printed.
\<close>

definition digit_char :: "nat \<Rightarrow> char" where
  "digit_char d = (''0123456789abcdef'' ! d)"

fun fmt_nat :: "nat \<Rightarrow> string" where
  "fmt_nat n = (if n < 10 then [digit_char n] else fmt_nat (n div 10) @ [digit_char (n mod 10)])"

declare fmt_nat.simps [simp del]

definition fmt_int :: "int \<Rightarrow> string" where
  "fmt_int i = (if i < 0 then ''-'' @ fmt_nat (nat (- i)) else fmt_nat (nat i))"

definition fmt_02x :: "byte \<Rightarrow> string" where
  "fmt_02x b = [digit_char (unat b div 16), digit_char (unat b mod 16)]"

definition hex_EncodeToString :: "byte list \<Rightarrow> string" where
  "hex_EncodeToString bs = concat (map fmt_02x bs)"

definition fmt_08x :: "u32 \<Rightarrow> string" where
  "fmt_08x v = hex_EncodeToString (BigEndian_PutUint32 v)"

definition fmt_bool :: "bool \<Rightarrow> string" where
  "fmt_bool b = (if b then ''true'' else ''false'')"

text \<open>\<^verbatim>\<open>%q\<close>: a double-quoted Go literal. Quotes, backslashes and control characters are escaped;
  bytes from 0x80 on are kept, as they are in a printable UTF-8 text.\<close>

definition quote_char :: "char \<Rightarrow> string" where
  "quote_char c =
     (let n = of_char c :: nat in
      if n = 0x22 \<or> n = 0x5c then [CHR 0x5c, c]
      else if n = 0x07 then CHR 0x5c # ''a'' else if n = 0x08 then CHR 0x5c # ''b''
      else if n = 0x0c then CHR 0x5c # ''f'' else if n = 0x0a then CHR 0x5c # ''n''
      else if n = 0x0d then CHR 0x5c # ''r'' else if n = 0x09 then CHR 0x5c # ''t''
      else if n = 0x0b then CHR 0x5c # ''v''
      else if n < 0x20 \<or> n = 0x7f then CHR 0x5c # ''x'' @ fmt_02x (byte_of_char c)
      else [c])"

definition fmt_q :: "string \<Rightarrow> string" where
  "fmt_q s = [CHR 0x22] @ concat (map quote_char s) @ [CHR 0x22]"

section \<open>Digits\<close>

lemma less_16_cases:
  fixes d :: nat
  assumes "d < 16"
  shows "d \<in> {0, 1, 2, 3, 4, 5, 6, 7, 8, 9, 10, 11, 12, 13, 14, 15}"
  using assms by (simp, presburger)

lemma digit_char_inject: "d < 16 \<Longrightarrow> e < 16 \<Longrightarrow> digit_char d = digit_char e \<longleftrightarrow> d = e"
  by (drule less_16_cases, drule less_16_cases) (auto simp: digit_char_def)

lemma digit_char_not_special:
  "d < 16 \<Longrightarrow> digit_char d \<noteq> CHR ''-'' \<and> digit_char d \<noteq> CHR 0x00"
  by (drule less_16_cases) (auto simp: digit_char_def)

section \<open>Decimal output is injective\<close>

lemma fmt_nat_snoc: "\<exists>ds d. fmt_nat n = ds @ [digit_char d] \<and> d < 10"
proof (cases "n < 10")
  case True
  then have "fmt_nat n = [] @ [digit_char n]" by (simp add: fmt_nat.simps [of n])
  with True show ?thesis by blast
next
  case False
  then have "fmt_nat n = fmt_nat (n div 10) @ [digit_char (n mod 10)]"
    by (simp add: fmt_nat.simps [of n])
  then show ?thesis by (meson mod_less_divisor zero_less_numeral)
qed

lemma fmt_nat_not_Nil [simp]: "fmt_nat n \<noteq> []"
  using fmt_nat_snoc [of n] by auto

lemma fmt_nat_chars: "c \<in> set (fmt_nat n) \<Longrightarrow> c \<noteq> CHR ''-'' \<and> c \<noteq> CHR 0x00"
proof (induction n rule: fmt_nat.induct)
  case (1 n)
  show ?case
  proof (cases "n < 10")
    case True
    with "1.prems" show ?thesis
      by (auto simp: fmt_nat.simps [of n] digit_char_not_special)
  next
    case False
    have "n mod 10 < 16" using mod_less_divisor [of 10 n] by linarith
    with False "1.prems" "1.IH" show ?thesis
      by (auto simp: fmt_nat.simps [of n] digit_char_not_special)
  qed
qed

lemma fmt_nat_inject [simp]: "fmt_nat m = fmt_nat n \<longleftrightarrow> m = n"
proof
  show "fmt_nat m = fmt_nat n \<Longrightarrow> m = n"
  proof (induction m arbitrary: n rule: less_induct)
    case (less m)
    have mod: "m mod 10 < 16" "n mod 10 < 16"
      using mod_less_divisor [of 10 m] mod_less_divisor [of 10 n] by linarith+
    show ?case
    proof (cases "m < 10"; cases "n < 10")
      assume "m < 10" "n < 10"
      with less.prems show ?thesis
        by (simp add: fmt_nat.simps [of m] fmt_nat.simps [of n] digit_char_inject)
    next
      assume "\<not> m < 10" "\<not> n < 10"
      with less.prems mod have "fmt_nat (m div 10) = fmt_nat (n div 10)" "m mod 10 = n mod 10"
        by (simp_all add: fmt_nat.simps [of m] fmt_nat.simps [of n] digit_char_inject)
      moreover from \<open>\<not> m < 10\<close> have "m div 10 < m" by simp
      ultimately have "m div 10 = n div 10" "m mod 10 = n mod 10"
        using less.IH by blast+
      then show ?thesis by (metis div_mult_mod_eq)
    qed (use less.prems in \<open>auto simp: fmt_nat.simps [of m] fmt_nat.simps [of n] dest: sym [of "[]"]\<close>)
  qed
qed simp

lemma fmt_int_inject [simp]: "fmt_int i = fmt_int j \<longleftrightarrow> i = j"
proof
  have minus: "fmt_nat m \<noteq> CHR ''-'' # s" for m s
    using fmt_nat_chars [of "CHR ''-''" m] by auto
  show "fmt_int i = fmt_int j \<Longrightarrow> i = j"
    using minus minus [symmetric] by (auto simp: fmt_int_def split: if_splits)
qed simp

lemma fmt_int_no_NUL: "CHR 0x00 \<notin> set (fmt_int i)"
  using fmt_nat_chars by (auto simp: fmt_int_def)

section \<open>Hexadecimal output is injective\<close>

lemma fmt_02x_inject [simp]: "fmt_02x a = fmt_02x b \<longleftrightarrow> a = b"
proof
  assume eq: "fmt_02x a = fmt_02x b"
  have "unat x div 16 < 16" "unat x mod 16 < 16" for x :: byte
    using unsigned_less [of x, where ?'a = nat] by auto
  with eq have "unat a div 16 = unat b div 16" "unat a mod 16 = unat b mod 16"
    by (simp_all add: fmt_02x_def digit_char_inject)
  then have "unat a = unat b" by (metis div_mult_mod_eq)
  then show "a = b" by (simp add: word_unat_eq_iff)
qed simp

lemma length_fmt_02x [simp]: "length (fmt_02x b) = 2"
  by (simp add: fmt_02x_def)

lemma length_hex [simp]: "length (hex_EncodeToString bs) = 2 * length bs"
  by (simp add: hex_EncodeToString_def length_concat comp_def sum_list_triv)

lemma hex_EncodeToString_inject [simp]:
  "hex_EncodeToString as = hex_EncodeToString bs \<longleftrightarrow> as = bs"
proof
  assume eq: "hex_EncodeToString as = hex_EncodeToString bs"
  then have "length as = length bs"
    by (metis length_hex mult_left_cancel zero_neq_numeral)
  then show "as = bs" using eq
    by (induction as bs rule: list_induct2) (auto simp: hex_EncodeToString_def)
qed simp

lemma fmt_08x_inject [simp]: "fmt_08x v = fmt_08x w \<longleftrightarrow> v = w"
  by (simp add: fmt_08x_def)

end
