(* ===== verification/Opcode.thy ===== *)
theory Opcode
  imports Kcm_Prelude
begin

text \<open>
  \<^verbatim>\<open>internal/kcmproto/opcode.go\<close>: the KCM operation codes, the flag bits of \<^verbatim>\<open>RETRIEVE\<close> and
  \<^verbatim>\<open>REMOVE_CRED\<close>, which opcodes carry a leading cache name, and which are implemented.
\<close>

type_synonym opcode = u16

definition OpNoop :: opcode where "OpNoop = 0"
definition OpGetName :: opcode where "OpGetName = 1"
definition OpResolve :: opcode where "OpResolve = 2"
definition OpGenNew :: opcode where "OpGenNew = 3"
definition OpInitialize :: opcode where "OpInitialize = 4"
definition OpDestroy :: opcode where "OpDestroy = 5"
definition OpStore :: opcode where "OpStore = 6"
definition OpRetrieve :: opcode where "OpRetrieve = 7"
definition OpGetPrincipal :: opcode where "OpGetPrincipal = 8"
definition OpGetCredUUIDList :: opcode where "OpGetCredUUIDList = 9"
definition OpGetCredByUUID :: opcode where "OpGetCredByUUID = 10"
definition OpRemoveCred :: opcode where "OpRemoveCred = 11"
definition OpSetFlags :: opcode where "OpSetFlags = 12"
definition OpChown :: opcode where "OpChown = 13"
definition OpChmod :: opcode where "OpChmod = 14"
definition OpGetInitialTicket :: opcode where "OpGetInitialTicket = 15"
definition OpGetTicket :: opcode where "OpGetTicket = 16"
definition OpMoveCache :: opcode where "OpMoveCache = 17"
definition OpGetCacheUUIDList :: opcode where "OpGetCacheUUIDList = 18"
definition OpGetCacheByUUID :: opcode where "OpGetCacheByUUID = 19"
definition OpGetDefaultCache :: opcode where "OpGetDefaultCache = 20"
definition OpSetDefaultCache :: opcode where "OpSetDefaultCache = 21"
definition OpGetKDCOffset :: opcode where "OpGetKDCOffset = 22"
definition OpSetKDCOffset :: opcode where "OpSetKDCOffset = 23"
definition OpAddNTLMCred :: opcode where "OpAddNTLMCred = 24"
definition OpHaveNTLMCred :: opcode where "OpHaveNTLMCred = 25"
definition OpDelNTLMCred :: opcode where "OpDelNTLMCred = 26"
definition OpDoNTLMAuth :: opcode where "OpDoNTLMAuth = 27"
definition OpGetNTLMUserList :: opcode where "OpGetNTLMUserList = 28"
definition OpMITExtensionBase :: opcode where "OpMITExtensionBase = 13000"
definition OpGetCredList :: opcode where "OpGetCredList = 13001"
definition OpReplace :: opcode where "OpReplace = 13002"

lemmas opcode_defs =
  OpNoop_def OpGetName_def OpResolve_def OpGenNew_def OpInitialize_def OpDestroy_def OpStore_def
  OpRetrieve_def OpGetPrincipal_def OpGetCredUUIDList_def OpGetCredByUUID_def OpRemoveCred_def
  OpSetFlags_def OpChown_def OpChmod_def OpGetInitialTicket_def OpGetTicket_def OpMoveCache_def
  OpGetCacheUUIDList_def OpGetCacheByUUID_def OpGetDefaultCache_def OpSetDefaultCache_def
  OpGetKDCOffset_def OpSetKDCOffset_def OpAddNTLMCred_def OpHaveNTLMCred_def OpDelNTLMCred_def
  OpDoNTLMAuth_def OpGetNTLMUserList_def OpMITExtensionBase_def OpGetCredList_def OpReplace_def

definition ProtocolVersionMajor :: byte where "ProtocolVersionMajor = 2"
definition ProtocolVersionMinor :: byte where "ProtocolVersionMinor = 0"

definition FlagGCCached :: u32 where "FlagGCCached = push_bit 0 1"
definition FlagTCDontMatchRealm :: u32 where "FlagTCDontMatchRealm = push_bit 31 1"
definition FlagTCMatchKeytype :: u32 where "FlagTCMatchKeytype = push_bit 30 1"
definition FlagTCMatchSrvNameonly :: u32 where "FlagTCMatchSrvNameonly = push_bit 29 1"
definition FlagTCMatchFlagsExact :: u32 where "FlagTCMatchFlagsExact = push_bit 28 1"
definition FlagTCMatchFlags :: u32 where "FlagTCMatchFlags = push_bit 27 1"
definition FlagTCMatchTimesExact :: u32 where "FlagTCMatchTimesExact = push_bit 26 1"
definition FlagTCMatchTimes :: u32 where "FlagTCMatchTimes = push_bit 25 1"
definition FlagTCMatchAuthdata :: u32 where "FlagTCMatchAuthdata = push_bit 24 1"
definition FlagTCMatch2ndTkt :: u32 where "FlagTCMatch2ndTkt = push_bit 23 1"
definition FlagTCMatchIsSkey :: u32 where "FlagTCMatchIsSkey = push_bit 22 1"

lemmas flag_defs =
  FlagGCCached_def FlagTCDontMatchRealm_def FlagTCMatchKeytype_def FlagTCMatchSrvNameonly_def
  FlagTCMatchFlagsExact_def FlagTCMatchFlags_def FlagTCMatchTimesExact_def FlagTCMatchTimes_def
  FlagTCMatchAuthdata_def FlagTCMatch2ndTkt_def FlagTCMatchIsSkey_def

definition opcodesWithName :: "opcode list" where
  "opcodesWithName =
    [OpInitialize, OpDestroy, OpStore, OpRetrieve, OpGetPrincipal, OpGetCredUUIDList,
     OpGetCredByUUID, OpRemoveCred, OpSetDefaultCache, OpGetKDCOffset, OpSetKDCOffset,
     OpGetCredList, OpReplace]"

definition HasLeadingName :: "opcode \<Rightarrow> bool" where
  "HasLeadingName op \<longleftrightarrow> op \<in> set opcodesWithName"

definition Supported :: "opcode \<Rightarrow> bool" where
  "Supported op \<longleftrightarrow> op \<in> set
    [OpNoop, OpGenNew, OpInitialize, OpDestroy, OpStore, OpRetrieve,
     OpGetPrincipal, OpGetCredUUIDList, OpGetCredByUUID, OpGetCredList,
     OpRemoveCred, OpGetCacheUUIDList, OpGetCacheByUUID,
     OpGetDefaultCache, OpSetDefaultCache, OpGetKDCOffset, OpSetKDCOffset]"

end
