(* ===== verification/Wire.thy ===== *)
theory Wire
  imports Codec Go_Fmt Opcode
begin

text \<open>
  \<^verbatim>\<open>internal/kcmproto/wire.go\<close>: message framing, the request header, the reply framing with its
  two status words, NUL-terminated cache names, 32-bit integers and UUID lists. A connection is
  read as the bytes the peer sends before it closes (\<^verbatim>\<open>io.ReadFull\<close> reports \<open>EOF\<close> when nothing
  is left and \<open>ErrUnexpectedEOF\<close> on a partial read), and written as the list of its \<^verbatim>\<open>Write\<close>
  calls, the first refused call ending it.
\<close>

section \<open>Reading\<close>

definition ReadFull :: "nat \<Rightarrow> byte list \<Rightarrow> goerror + byte list \<times> byte list" where
  "ReadFull n r =
     (if n \<le> length r then Inr (take n r, drop n r)
      else if r = [] then Inl EOF else Inl ErrUnexpectedEOF)"

definition maxMessage :: u32 where "maxMessage = push_bit 20 1"

definition ReadMessage :: "byte list \<Rightarrow> goerror + byte list \<times> byte list" where
  "ReadMessage r =
     (case ReadFull 4 r of
        Inl err \<Rightarrow> Inl err
      | Inr (lenBuf, r) \<Rightarrow>
          let n = BigEndian_Uint32 lenBuf in
          if n > maxMessage
          then Inl (PlainError (''kcmproto: message length '' @ fmt_nat (unat n) @ '' exceeds limit''))
          else ReadFull (unat n) r)"

section \<open>Writing\<close>

text \<open>\<open>sink\<close> is the peer's side of the socket: the bytes delivered so far, and how many further
  \<^verbatim>\<open>Write\<close> calls will be accepted (\<open>None\<close>: all of them).\<close>

record sink =
  sent :: "byte list"
  budget :: "nat option"

definition Write :: "byte list \<Rightarrow> sink \<Rightarrow> goerror option \<times> sink" where
  "Write b w =
     (case budget w of
        None \<Rightarrow> (None, w\<lparr>sent := sent w @ b\<rparr>)
      | Some 0 \<Rightarrow> (Some (PlainError ''write: broken pipe''), w)
      | Some (Suc n) \<Rightarrow> (None, w\<lparr>sent := sent w @ b, budget := Some n\<rparr>))"

definition WriteMessage :: "byte list \<Rightarrow> sink \<Rightarrow> goerror option \<times> sink" where
  "WriteMessage body w =
     (case Write (BigEndian_PutUint32 (len32 body)) w of
        (Some err, w) \<Rightarrow> (Some err, w)
      | (None, w) \<Rightarrow> Write body w)"

definition WriteReply :: "i32 \<Rightarrow> byte list \<Rightarrow> sink \<Rightarrow> goerror option \<times> sink" where
  "WriteReply code payload w =
     (case Write (BigEndian_PutUint32 (4 + len32 payload)) w of
        (Some err, w) \<Rightarrow> (Some err, w)
      | (None, w) \<Rightarrow>
     (case Write (BigEndian_PutUint32 0) w of
        (Some err, w) \<Rightarrow> (Some err, w)
      | (None, w) \<Rightarrow>
     (case Write (BigEndian_PutUint32 code) w of
        (Some err, w) \<Rightarrow> (Some err, w)
      | (None, w) \<Rightarrow> Write payload w)))"

section \<open>Request fields\<close>

definition ParseRequestHeader :: "byte list \<Rightarrow> goerror + opcode \<times> byte list" where
  "ParseRequestHeader body =
     (if length body < 4 then Inl ErrTruncated
      else Inr (BigEndian_Uint16 (take 2 (drop 2 body)), drop 4 body))"

fun IndexByte :: "byte list \<Rightarrow> byte \<Rightarrow> nat option" where
  "IndexByte [] c = None"
| "IndexByte (b # bs) c = (if b = c then Some 0 else map_option Suc (IndexByte bs c))"

definition SplitCName :: "byte list \<Rightarrow> goerror + string \<times> byte list" where
  "SplitCName body =
     (case IndexByte body 0 of
        None \<Rightarrow> Inl ErrTruncated
      | Some i \<Rightarrow> Inr (string_of_bytes (take i body), drop (i + 1) body))"

definition PutCName :: "string \<Rightarrow> byte list" where
  "PutCName s = bytes_of_string s @ [0]"

definition ReadUint32 :: "byte list \<Rightarrow> goerror + u32 \<times> byte list" where
  "ReadUint32 body =
     (if length body < 4 then Inl ErrTruncated
      else Inr (BigEndian_Uint32 (take 4 body), drop 4 body))"

definition PutUint32 :: "u32 \<Rightarrow> byte list" where
  "PutUint32 v = BigEndian_PutUint32 v"

section \<open>UUID lists\<close>

type_synonym uuid = "byte list" \<comment> \<open>a \<^verbatim>\<open>[16]byte\<close>\<close>

definition is_uuid :: "uuid \<Rightarrow> bool" where
  "is_uuid u \<longleftrightarrow> length u = 16"

text \<open>The loop \<^verbatim>\<open>for i := 0; i < len(body); i += 16\<close>, over what is left of the body.\<close>

fun uuid_chunks :: "byte list \<Rightarrow> uuid list" where
  "uuid_chunks [] = []"
| "uuid_chunks (b # bs) = take 16 (b # bs) # uuid_chunks (drop 16 (b # bs))"

definition ReadUUIDList :: "byte list \<Rightarrow> goerror + uuid list" where
  "ReadUUIDList body =
     (if length body mod 16 \<noteq> 0
      then Inl (PlainError (''kcmproto: UUID list length '' @ fmt_nat (length body)
                              @ '' not a multiple of 16''))
      else Inr (uuid_chunks body))"

definition PutUUIDList :: "uuid list \<Rightarrow> byte list" where
  "PutUUIDList uuids = concat uuids"

section \<open>Integers and names are codecs\<close>

lemma length_PutUint32 [simp]: "length (PutUint32 v) = 4"
  by (simp add: PutUint32_def)

lemma ReadUint32_Put [simp, wire_simps]: "ReadUint32 (PutUint32 v @ r) = Inr (v, r)"
  by (simp add: ReadUint32_def PutUint32_def)

lemma ReadUint32_Put_Nil [simp, wire_simps]: "ReadUint32 (PutUint32 v) = Inr (v, [])"
  using ReadUint32_Put [of v "[]"] by simp

lemma ReadUint32_canonical: "ReadUint32 b = Inr (v, r) \<Longrightarrow> b = PutUint32 v @ r"
  by (auto simp: ReadUint32_def PutUint32_def BigEndian_Put_Uint32_take split: if_splits)

lemma ReadUint32_length: "ReadUint32 b = Inr (v, r) \<Longrightarrow> length b = 4 + length r"
  by (drule ReadUint32_canonical) simp

lemma ReadUint32_error [no_panic]: "ReadUint32 b = Inl e \<Longrightarrow> e = ErrTruncated \<and> length b < 4"
  by (auto simp: ReadUint32_def split: if_splits)

interpretation u32_codec: canonical_codec PutUint32 ReadUint32 "\<lambda>_. True"
  by unfold_locales (auto dest: ReadUint32_canonical)

lemma IndexByte_append: "c \<notin> set p \<Longrightarrow> IndexByte (p @ c # r) c = Some (length p)"
  by (induction p) auto

lemma IndexByte_Some:
  "IndexByte b c = Some i \<Longrightarrow> i < length b \<and> b ! i = c \<and> c \<notin> set (take i b)"
  by (induction b arbitrary: i) (auto split: if_splits)

lemma bytes_of_string_NUL: "0 \<in> set (bytes_of_string s) \<longleftrightarrow> CHR 0x00 \<in> set s"
proof -
  have "byte_of_char c = 0 \<longleftrightarrow> c = CHR 0x00" for c
    using byte_of_char_of_byte [of 0] char_of_byte_of_char [of c]
    by (auto simp: char_of_byte_def char_of_def byte_of_char_def)
  then show ?thesis by (force simp: bytes_of_string_def)
qed

lemma SplitCName_Put: "CHR 0x00 \<notin> set s \<Longrightarrow> SplitCName (PutCName s @ r) = Inr (s, r)"
  by (simp add: SplitCName_def PutCName_def IndexByte_append bytes_of_string_NUL)

lemma SplitCName_canonical:
  assumes "SplitCName b = Inr (s, r)"
  shows "CHR 0x00 \<notin> set s \<and> b = PutCName s @ r"
proof -
  from assms obtain i where i: "IndexByte b 0 = Some i" "s = string_of_bytes (take i b)"
      "r = drop (i + 1) b"
    by (auto simp: SplitCName_def split: option.splits)
  note IndexByte_Some [OF i(1)]
  moreover from this have "b = take i b @ 0 # drop (i + 1) b"
    by (metis Suc_eq_plus1 id_take_nth_drop)
  ultimately show ?thesis
    using i bytes_of_string_NUL [of s] by (simp add: PutCName_def)
qed

interpretation cname_codec: canonical_codec PutCName SplitCName "\<lambda>s. CHR 0x00 \<notin> set s"
  by unfold_locales (auto simp: SplitCName_Put dest: SplitCName_canonical)

section \<open>Framing\<close>

definition message_bytes :: "byte list \<Rightarrow> byte list" where
  "message_bytes body = PutUint32 (len32 body) @ body"

text \<open>How the MIT client takes a reply apart, as the comment on \<^verbatim>\<open>WriteReply\<close> describes
  \<^verbatim>\<open>kcmio_unix_socket_read\<close> and \<^verbatim>\<open>kcmio_call\<close>: a length, a transport code (nonzero: stop), that
  many bytes of body, of which the first four are the status.\<close>

definition client_read_reply :: "byte list \<Rightarrow> (i32 \<times> byte list \<times> byte list) option" where
  "client_read_reply r =
     (case ReadUint32 r of
        Inl _ \<Rightarrow> None
      | Inr (n, r) \<Rightarrow>
     (case ReadUint32 r of
        Inl _ \<Rightarrow> None
      | Inr (transport, r) \<Rightarrow>
          if transport \<noteq> 0 \<or> length r < unat n then None
          else (case ReadUint32 (take (unat n) r) of
                  Inl _ \<Rightarrow> None
                | Inr (status, payload) \<Rightarrow> Some (status, payload, drop (unat n) r))))"

lemma unat_maxMessage [simp]: "unat maxMessage = 2 ^ 20"
  by (simp add: maxMessage_def)

lemma ReadFull_eq: "ReadFull n r = Inr (b, r') \<longleftrightarrow> length b = n \<and> r = b @ r'"
  by (auto simp: ReadFull_def split: if_splits)

lemma ReadFull_4: "ReadFull 4 r = Inr (b, r') \<Longrightarrow> r = PutUint32 (BigEndian_Uint32 b) @ r'"
  using BigEndian_Put_Uint32_take [of b] by (simp add: ReadFull_eq PutUint32_def)

lemma ReadFull_append [simp]: "length b = n \<Longrightarrow> ReadFull n (b @ r) = Inr (b, r)"
  by (simp add: ReadFull_def)

lemma ReadMessage_message_bytes:
  assumes "length body \<le> 2 ^ 20"
  shows "ReadMessage (message_bytes body @ r) = Inr (body, r)"
proof -
  from assms have "unat (len32 body) = length body" by simp
  moreover from this assms have "\<not> maxMessage < len32 body"
    by (simp add: word_less_nat_alt)
  ultimately show ?thesis
    by (simp add: ReadMessage_def message_bytes_def PutUint32_def)
qed

lemma ReadMessage_canonical:
  assumes "ReadMessage r = Inr (body, r')"
  shows "length body \<le> 2 ^ 20 \<and> r = message_bytes body @ r'"
proof -
  from assms obtain l r1 where l: "ReadFull 4 r = Inr (l, r1)"
    and n: "\<not> BigEndian_Uint32 l > maxMessage"
    and b: "ReadFull (unat (BigEndian_Uint32 l)) r1 = Inr (body, r')"
    by (auto simp: ReadMessage_def Let_def split: sum.splits if_splits)
  from n have "unat (BigEndian_Uint32 l) \<le> 2 ^ 20" by (simp add: not_less word_le_nat_alt)
  moreover from b have len: "length body = unat (BigEndian_Uint32 l)" "r1 = body @ r'"
    by (simp_all add: ReadFull_eq)
  moreover have "len32 body = BigEndian_Uint32 l" by (simp add: len)
  ultimately show ?thesis using ReadFull_4 [OF l] by (simp add: message_bytes_def)
qed

text \<open>C27: framing. \<^verbatim>\<open>ReadMessage\<close> succeeds on a byte stream exactly when the stream starts with
  the frame \<^verbatim>\<open>WriteMessage\<close> writes for a body of at most \<open>2 ^ 20\<close> bytes, and then returns that
  body and leaves the rest of the stream; no longer body is ever accepted or read.\<close>

theorem ReadMessage_iff:
  "ReadMessage r = Inr (body, r') \<longleftrightarrow>
     length body \<le> 2 ^ 20 \<and> (\<exists>w. WriteMessage body \<lparr>sent = [], budget = None\<rparr> = (None, w) \<and>
       r = sent w @ r')"
proof -
  have "WriteMessage body \<lparr>sent = [], budget = None\<rparr>
      = (None, \<lparr>sent = message_bytes body, budget = None\<rparr>)"
    by (simp add: WriteMessage_def Write_def message_bytes_def PutUint32_def)
  then show ?thesis
    using ReadMessage_message_bytes ReadMessage_canonical by auto
qed

definition reply_bytes :: "i32 \<Rightarrow> byte list \<Rightarrow> byte list" where
  "reply_bytes code payload =
     PutUint32 (4 + len32 payload) @ PutUint32 0 @ PutUint32 code @ payload"

lemma WriteReply_unlimited:
  "budget w = None \<Longrightarrow>
     WriteReply code payload w = (None, w\<lparr>sent := sent w @ reply_bytes code payload\<rparr>)"
  by (simp add: WriteReply_def Write_def reply_bytes_def PutUint32_def)

text \<open>Reply framing. For a payload that fits the 32-bit length, the bytes \<^verbatim>\<open>WriteReply\<close>
  sends are taken apart by the MIT client's reader into exactly the reply code, the payload and
  what follows the reply on the socket: the length covers the second status word.\<close>

lemma WriteReply_client_reads:
  assumes "length payload + 4 < 2 ^ 32"
  shows "\<exists>w. WriteReply code payload \<lparr>sent = [], budget = None\<rparr> = (None, w) \<and>
           client_read_reply (sent w @ r) = Some (code, payload, r)"
proof -
  have "(4 + len32 payload :: u32) = word_of_nat (4 + length payload)" by simp
  with assms have "unat (4 + len32 payload :: u32) = 4 + length payload"
    by (simp add: unat_of_nat del: of_nat_add)
  then show ?thesis
    by (simp add: WriteReply_unlimited reply_bytes_def client_read_reply_def)
qed

lemma uuid_chunks_concat: "list_all is_uuid us \<Longrightarrow> uuid_chunks (concat us) = us"
proof (induction us)
  case (Cons u us)
  then obtain b bs where u: "u = b # bs" "length bs = 15"
    by (cases u) (auto simp: is_uuid_def)
  with Cons show ?case by (simp add: is_uuid_def)
qed simp

lemma concat_uuid_chunks:
  "length b mod 16 = 0 \<Longrightarrow> concat (uuid_chunks b) = b \<and> list_all is_uuid (uuid_chunks b)"
proof (induction b rule: uuid_chunks.induct)
  case (2 b bs)
  from "2.prems" obtain k where "length (b # bs) = 16 * k" by auto
  then have "16 \<le> length (b # bs)" "length (drop 16 (b # bs)) mod 16 = 0"
    by (cases k; simp)+
  with 2 show ?case
    by (simp add: is_uuid_def del: take_Suc_Cons drop_Suc_Cons)
qed simp

text \<open>UUID lists. \<^verbatim>\<open>ReadUUIDList\<close> accepts exactly the concatenations of 16-byte UUIDs, and
  returns the UUIDs \<^verbatim>\<open>PutUUIDList\<close> would encode to the same bytes.\<close>

lemma ReadUUIDList_iff:
  "ReadUUIDList b = Inr us \<longleftrightarrow> list_all is_uuid us \<and> b = PutUUIDList us"
proof
  show "ReadUUIDList b = Inr us \<Longrightarrow> list_all is_uuid us \<and> b = PutUUIDList us"
    using concat_uuid_chunks [of b] by (auto simp: ReadUUIDList_def PutUUIDList_def split: if_splits)
  assume us: "list_all is_uuid us \<and> b = PutUUIDList us"
  then have "length b mod 16 = 0"
    by (induction us arbitrary: b) (auto simp: PutUUIDList_def is_uuid_def)
  with us show "ReadUUIDList b = Inr us"
    by (simp add: ReadUUIDList_def PutUUIDList_def uuid_chunks_concat)
qed

end
