(* ===== verification/Principal.thy ===== *)
theory Principal
  imports Wire
begin

text \<open>
  \<^verbatim>\<open>internal/kcmproto/principal.go\<close>: principals, their structural encoding and their quoted text
  form.
\<close>

record principal =
  Type :: i32
  Realm :: string
  Components :: "string list"

section \<open>Encoding\<close>

fun put_components :: "string list \<Rightarrow> byte list" where
  "put_components [] = []"
| "put_components (c # cs) = PutUint32 (len32 c) @ bytes_of_string c @ put_components cs"

definition MarshalPrincipal :: "principal \<Rightarrow> byte list" where
  "MarshalPrincipal p =
     PutUint32 (Type p) @ PutUint32 (len32 (Components p)) @ PutUint32 (len32 (Realm p))
       @ bytes_of_string (Realm p) @ put_components (Components p)"

section \<open>Decoding\<close>

text \<open>The loop \<^verbatim>\<open>for i := uint32(0); i < numComponents; i++\<close>.\<close>

function read_components ::
  "u32 \<Rightarrow> u32 \<Rightarrow> byte list \<Rightarrow> string list \<Rightarrow> goerror + string list \<times> byte list" where
  "read_components i numComponents rest comps =
     (if \<not> i < numComponents then Inr (comps, rest)
      else
     (case ReadUint32 rest of
        Inl err \<Rightarrow> Inl (WrapError (''principal component '' @ fmt_nat (unat i) @ '' length: '') err)
      | Inr (clen, rest) \<Rightarrow>
          if len32 rest < clen then Inl ErrTruncated
          else
     (case slice_to (unat clen) rest of
        Inl err \<Rightarrow> Inl err
      | Inr c \<Rightarrow>
     (case slice_from (unat clen) rest of
        Inl err \<Rightarrow> Inl err
      | Inr rest \<Rightarrow> read_components (i + 1) numComponents rest (comps @ [string_of_bytes c])))))"
  by pat_completeness auto
termination
proof (relation "measure (\<lambda>(i, n, _, _). unat n - unat i)", goal_cases)
  case (2 i n)
  then have "unat i < unat n" by (simp add: word_less_nat_alt)
  moreover from this have "unat (i + 1) = unat i + 1"
    using unsigned_less [of n, where ?'a = nat] by (simp add: unat_word_ariths)
  ultimately show ?case by simp
qed simp

declare read_components.simps [simp del]

text \<open>The result is the principal and the number of bytes consumed from the body.\<close>

definition UnmarshalPrincipal :: "byte list \<Rightarrow> goerror + principal \<times> nat" where
  "UnmarshalPrincipal body =
     (case ReadUint32 body of
        Inl err \<Rightarrow> Inl (WrapError ''principal name-type: '' err)
      | Inr (nameType, rest) \<Rightarrow>
     (case ReadUint32 rest of
        Inl err \<Rightarrow> Inl (WrapError ''principal component count: '' err)
      | Inr (numComponents, rest) \<Rightarrow>
     (case ReadUint32 rest of
        Inl err \<Rightarrow> Inl (WrapError ''principal realm length: '' err)
      | Inr (realmLen, rest) \<Rightarrow>
          if len32 rest < realmLen then Inl ErrTruncated
          else
     (case slice_to (unat realmLen) rest of
        Inl err \<Rightarrow> Inl err
      | Inr realm \<Rightarrow>
     (case slice_from (unat realmLen) rest of
        Inl err \<Rightarrow> Inl err
      | Inr rest \<Rightarrow>
     (case read_components 0 numComponents rest [] of
        Inl err \<Rightarrow> Inl err
      | Inr (comps, rest) \<Rightarrow>
          Inr (\<lparr>Type = nameType, Realm = string_of_bytes realm, Components = comps\<rparr>,
               length body - length rest)))))))"

text \<open>The capacity \<^verbatim>\<open>make([]string, 0, numComponents)\<close> asks the allocator for, once the realm
  has been read: \<open>None\<close> when the body is rejected before that.\<close>

definition UnmarshalPrincipal_make_cap :: "byte list \<Rightarrow> nat option" where
  "UnmarshalPrincipal_make_cap body =
     (case ReadUint32 body of
        Inl err \<Rightarrow> None
      | Inr (_, rest) \<Rightarrow>
     (case ReadUint32 rest of
        Inl err \<Rightarrow> None
      | Inr (numComponents, rest) \<Rightarrow>
     (case ReadUint32 rest of
        Inl err \<Rightarrow> None
      | Inr (realmLen, rest) \<Rightarrow>
          if len32 rest < realmLen then None else Some (unat numComponents))))"

section \<open>Text form\<close>

fun escapeComponent :: "string \<Rightarrow> string" where
  "escapeComponent [] = []"
| "escapeComponent (c # s) =
     (if c = CHR 0x5C \<or> c = CHR ''/'' \<or> c = CHR ''@'' then [CHR 0x5C, c]
      else if c = CHR 0x09 then [CHR 0x5C, CHR ''t'']
      else if c = CHR 0x0A then [CHR 0x5C, CHR ''n'']
      else if c = CHR 0x08 then [CHR 0x5C, CHR ''b'']
      else if c = CHR 0x00 then [CHR 0x5C, CHR ''0'']
      else [c]) @ escapeComponent s"

text \<open>The loop over the components writes \<^verbatim>\<open>"/"\<close> before every component but the first.\<close>

fun unparse_components :: "nat \<Rightarrow> string list \<Rightarrow> string" where
  "unparse_components i [] = []"
| "unparse_components i (c # cs) =
     (if 0 < i then ''/'' else []) @ escapeComponent c @ unparse_components (Suc i) cs"

definition UnparseName :: "principal \<Rightarrow> string" where
  "UnparseName p =
     unparse_components 0 (Components p)
       @ (if Realm p \<noteq> [] then ''@'' @ escapeComponent (Realm p) else [])"

section \<open>The encoding is a canonical codec\<close>

definition principal_encodable :: "principal \<Rightarrow> bool" where
  "principal_encodable p \<longleftrightarrow>
     length (Components p) < 2 ^ 32 \<and> length (Realm p) < 2 ^ 32 \<and>
     list_all (\<lambda>c. length c < 2 ^ 32) (Components p)"

text \<open>The decoder as the callers use it: \<^verbatim>\<open>rest = rest[n:]\<close>.\<close>

definition read_principal :: "byte list \<Rightarrow> goerror + principal \<times> byte list" where
  "read_principal body =
     (case UnmarshalPrincipal body of
        Inl err \<Rightarrow> Inl err
      | Inr (p, n) \<Rightarrow> Inr (p, drop n body))"

lemmas guarded_slices = slice_to_guarded slice_from_guarded

text \<open>A counted string, the shape of the realm and of every component.\<close>

lemma len32_take: "\<not> len32 (b :: byte list) < n \<Longrightarrow> len32 (take (unat n) b) = n"
  by (simp add: len32_guard)

lemma len32_bytes [simp]: "len32 (bytes_of_string s) = len32 s"
  by simp

lemma read_components_put:
  assumes "unat i + length cs < 2 ^ 32" "length (put_components cs @ r) < 2 ^ 32"
    "list_all (\<lambda>c. length c < 2 ^ 32) cs" "n = i + len32 cs"
  shows "read_components i n (put_components cs @ r) acc = Inr (acc @ cs, r)"
  using assms
proof (induction cs arbitrary: i acc)
  case Nil
  then show ?case by (simp add: read_components.simps)
next
  case (Cons c cs)
  let ?rest = "bytes_of_string c @ put_components cs @ r"
  have lt: "i < n"
    using Cons.prems(1,4) by (simp add: word_less_nat_alt unat_word_ariths unat_of_nat)
  have suc: "unat (i + 1) = unat i + 1"
    using Cons.prems(1) by (simp add: unat_word_ariths)
  have g: "\<not> len32 ?rest < len32 c"
    using len32_not_less [of "bytes_of_string c" "put_components cs @ r"] Cons.prems(2) by simp
  have c: "unat (len32 c) = length c" using Cons.prems(3) by simp
  have "read_components i n (put_components (c # cs) @ r) acc
      = read_components (i + 1) n (put_components cs @ r) (acc @ [c])"
    using lt g by (simp add: read_components.simps [of i] c)
  also have "\<dots> = Inr ((acc @ [c]) @ cs, r)"
    by (rule Cons.IH) (use Cons.prems suc in \<open>simp_all add: add_ac\<close>)
  finally show ?case by simp
qed

lemma read_components_canonical:
  "read_components i n rest acc = Inr (cs, r) \<Longrightarrow> i \<le> n \<Longrightarrow>
     \<exists>cs'. cs = acc @ cs' \<and> rest = put_components cs' @ r \<and> length cs' = unat n - unat i \<and>
       list_all (\<lambda>c. length c < 2 ^ 32) cs'"
proof (induction i n rest acc rule: read_components.induct)
  case (1 i n rest acc)
  show ?case
  proof (cases "i < n")
    case False
    with 1 have "i = n" by simp
    with "1.prems" show ?thesis by (simp add: read_components.simps)
  next
    case True
    with "1.prems"(1) obtain clen rest1 where rd: "ReadUint32 rest = Inr (clen, rest1)"
      and g: "\<not> len32 rest1 < clen"
      and rec: "read_components (i + 1) n (drop (unat clen) rest1)
          (acc @ [string_of_bytes (take (unat clen) rest1)]) = Inr (cs, r)"
      by (auto simp: read_components.simps [of i] guarded_slices split: sum.splits if_splits)
    have suc: "unat (i + 1) = unat i + 1"
      using True unsigned_less [of n, where ?'a = nat]
      by (simp add: unat_word_ariths word_less_nat_alt)
    then have "i + 1 \<le> n" using True by (simp add: word_le_nat_alt word_less_nat_alt)
    with "1.IH" [OF _ rd refl g] True rec g obtain cs' where cs':
      "cs = acc @ string_of_bytes (take (unat clen) rest1) # cs'"
      "drop (unat clen) rest1 = put_components cs' @ r"
      "length cs' = unat n - unat (i + 1)" "list_all (\<lambda>c. length c < 2 ^ 32) cs'"
      by (auto simp: guarded_slices)
    let ?c = "string_of_bytes (take (unat clen) rest1)"
    have "length ?c = unat clen" using len32_guard [OF g] by simp
    moreover have "rest1 = bytes_of_string ?c @ put_components cs' @ r"
      using cs'(2) by (metis append_take_drop_id bytes_of_string_of_bytes)
    ultimately have "rest = put_components (?c # cs') @ r"
      using ReadUint32_canonical [OF rd] len32_take [OF g] by simp
    with cs' suc True show ?thesis
      using \<open>length ?c = unat clen\<close> unsigned_less [of clen, where ?'a = nat]
      by (intro exI [of _ "?c # cs'"]) (simp add: word_less_nat_alt)
  qed
qed

lemma UnmarshalPrincipal_Marshal:
  assumes "principal_encodable p" "length (MarshalPrincipal p @ r) < 2 ^ 32"
  shows "UnmarshalPrincipal (MarshalPrincipal p @ r) = Inr (p, length (MarshalPrincipal p))"
proof -
  let ?rest = "bytes_of_string (Realm p) @ put_components (Components p) @ r"
  have g: "\<not> len32 ?rest < len32 (Realm p)"
    using len32_not_less [of "bytes_of_string (Realm p)" "put_components (Components p) @ r"]
      assms(2) by (simp add: MarshalPrincipal_def)
  have realm: "unat (len32 (Realm p)) = length (Realm p)"
    using assms(1) by (simp add: principal_encodable_def)
  have comps: "read_components 0 (len32 (Components p)) (put_components (Components p) @ r) []
      = Inr (Components p, r)"
    using read_components_put [of 0 "Components p" r "len32 (Components p)" "[]"] assms
    by (simp add: principal_encodable_def MarshalPrincipal_def)
  show ?thesis
    using g comps by (simp add: UnmarshalPrincipal_def MarshalPrincipal_def realm)
qed

lemma UnmarshalPrincipal_canonical:
  assumes "UnmarshalPrincipal body = Inr (p, n)"
  shows "principal_encodable p \<and> n = length (MarshalPrincipal p) \<and>
         body = MarshalPrincipal p @ drop n body"
proof -
  from assms obtain ty r1 nc r2 rl r3 comps r4 where
    rd: "ReadUint32 body = Inr (ty, r1)" "ReadUint32 r1 = Inr (nc, r2)" "ReadUint32 r2 = Inr (rl, r3)"
    and g: "\<not> len32 r3 < rl"
    and cs: "read_components 0 nc (drop (unat rl) r3) [] = Inr (comps, r4)"
    and p: "p = \<lparr>Type = ty, Realm = string_of_bytes (take (unat rl) r3), Components = comps\<rparr>"
    and n: "n = length body - length r4"
    by (auto simp: UnmarshalPrincipal_def guarded_slices split: sum.splits if_splits)
  from read_components_canonical [OF cs] have cs':
    "drop (unat rl) r3 = put_components comps @ r4" "length comps = unat nc"
    "list_all (\<lambda>c. length c < 2 ^ 32) comps"
    by (auto simp: word_le_nat_alt)
  have "r3 = bytes_of_string (Realm p) @ put_components comps @ r4"
    unfolding cs'(1) [symmetric] by (simp add: p)
  then have body: "body = MarshalPrincipal p @ r4"
    using rd [THEN ReadUint32_canonical] cs'(2) len32_guard [OF g]
    by (simp add: MarshalPrincipal_def p)
  moreover have "principal_encodable p"
    using cs' len32_guard [OF g] unsigned_less [of nc, where ?'a = nat]
      unsigned_less [of rl, where ?'a = nat]
    by (simp add: principal_encodable_def p)
  ultimately show ?thesis using n by simp
qed

interpretation principal_codec:
  canonical_codec MarshalPrincipal read_principal principal_encodable
proof
  fix p r
  assume "principal_encodable p" "length (MarshalPrincipal p @ r) < 2 ^ 32"
  then show "read_principal (MarshalPrincipal p @ r) = Inr (p, r)"
    by (simp add: read_principal_def UnmarshalPrincipal_Marshal)
next
  fix b p r
  assume "read_principal b = Inr (p, r)"
  then show "principal_encodable p \<and> b = MarshalPrincipal p @ r"
    using UnmarshalPrincipal_canonical by (auto simp: read_principal_def split: sum.splits)
qed

text \<open>C26: the principal encoding. On a body of less than \<open>2 ^ 32\<close> bytes, \<^verbatim>\<open>UnmarshalPrincipal\<close>
  returns \<open>(p, n)\<close> exactly when the first \<open>n\<close> bytes are \<^verbatim>\<open>MarshalPrincipal\<close> of \<open>p\<close> and \<open>p\<close>'s
  lengths fit 32 bits: every encodable principal reads back, with the right byte count, and
  nothing but encodings is accepted.\<close>

theorem UnmarshalPrincipal_iff:
  assumes "length body < 2 ^ 32"
  shows "UnmarshalPrincipal body = Inr (p, n) \<longleftrightarrow>
           principal_encodable p \<and> n = length (MarshalPrincipal p) \<and>
           take n body = MarshalPrincipal p"
proof
  assume "UnmarshalPrincipal body = Inr (p, n)"
  then show "principal_encodable p \<and> n = length (MarshalPrincipal p) \<and> take n body = MarshalPrincipal p"
    using UnmarshalPrincipal_canonical by (metis append_eq_conv_conj)
next
  assume a: "principal_encodable p \<and> n = length (MarshalPrincipal p) \<and> take n body = MarshalPrincipal p"
  then have body: "body = MarshalPrincipal p @ drop n body" by (metis append_take_drop_id)
  with a assms show "UnmarshalPrincipal body = Inr (p, n)"
    using UnmarshalPrincipal_Marshal [of p "drop n body"] by metis
qed

theorem UnmarshalPrincipal_iff_witness:
  "length [0, 0, 0, 1, 0, 0, 0, 1, 0, 0, 0, 1, 82, 0, 0, 0, 1, 97, 9 :: byte] < 2 ^ 32 \<and>
   UnmarshalPrincipal [0, 0, 0, 1, 0, 0, 0, 1, 0, 0, 0, 1, 82, 0, 0, 0, 1, 97, 9]
     = Inr (\<lparr>Type = 1, Realm = ''R'', Components = [''a'']\<rparr>, 18)"
  using UnmarshalPrincipal_iff [of "[0, 0, 0, 1, 0, 0, 0, 1, 0, 0, 0, 1, 82, 0, 0, 0, 1, 97, 9]"
      "\<lparr>Type = 1, Realm = ''R'', Components = [''a'']\<rparr>" 18]
  by (simp add: principal_encodable_def MarshalPrincipal_def PutUint32_def BigEndian_PutUint32_def
      bytes_of_string_def byte_of_char_def)

text \<open>Truncated principals. Cutting the encoding of a principal short anywhere makes
  \<^verbatim>\<open>UnmarshalPrincipal\<close> fail; it never reads a different principal out of the remaining bytes.\<close>

lemma UnmarshalPrincipal_truncated:
  assumes "principal_encodable p" "length (MarshalPrincipal p) < 2 ^ 32"
    and "k < length (MarshalPrincipal p)"
  shows "\<exists>err. UnmarshalPrincipal (take k (MarshalPrincipal p)) = Inl err"
proof -
  have "\<exists>err. read_principal (take k (MarshalPrincipal p)) = Inl err"
    using principal_codec.truncated_rejected [OF assms(1,2), of "take k (MarshalPrincipal p)"
        "drop k (MarshalPrincipal p)"] assms(3) by simp
  then show ?thesis by (auto simp: read_principal_def split: sum.splits)
qed

text \<open>C40: an unbounded allocation. A 12-byte body (which \<^verbatim>\<open>ReadMessage\<close> admits) makes
  \<^verbatim>\<open>UnmarshalPrincipal\<close> ask for a slice of \<open>2 ^ 32 - 1\<close> strings before it reads the first
  component; the capacity is bounded by nothing but the 32-bit count in the message.\<close>

theorem UnmarshalPrincipal_cap_unbounded:
  "\<exists>body. length body = 12 \<and> UnmarshalPrincipal_make_cap body = Some (2 ^ 32 - 1) \<and>
     (\<exists>err. UnmarshalPrincipal body = Inl err)"
proof -
  let ?body = "PutUint32 0 @ PutUint32 0xFFFFFFFF @ PutUint32 0"
  have "UnmarshalPrincipal_make_cap ?body = Some (2 ^ 32 - 1)"
    by (simp add: UnmarshalPrincipal_make_cap_def)
  moreover have "\<exists>err. UnmarshalPrincipal ?body = Inl err"
    by (simp add: UnmarshalPrincipal_def slice_to_def slice_from_def read_components.simps
        ReadUint32_def [of "[]"] word_less_nat_alt)
  ultimately show ?thesis by (intro exI [of _ ?body]) simp
qed

section \<open>The text form\<close>

text \<open>The principal quoting rules of MIT krb5 that \<^verbatim>\<open>UnparseName\<close> writes for, as a reader: a
  backslash quotes the next character (\<^verbatim>\<open>t\<close>, \<^verbatim>\<open>n\<close>, \<^verbatim>\<open>b\<close> and \<^verbatim>\<open>0\<close> stand for tab, newline,
  backspace and NUL), an unquoted slash separates components, an unquoted at sign starts the
  realm.\<close>

datatype name_token = Lit char | Slash | At

definition unquote :: "char \<Rightarrow> char" where
  "unquote c = (if c = CHR ''t'' then CHR 0x09 else if c = CHR ''n'' then CHR 0x0A
     else if c = CHR ''b'' then CHR 0x08 else if c = CHR ''0'' then CHR 0x00 else c)"

fun name_tokens :: "string \<Rightarrow> name_token list option" where
  "name_tokens [] = Some []"
| "name_tokens (c # s) =
     (if c = CHR 0x5C
      then (case s of [] \<Rightarrow> None | d # s' \<Rightarrow> map_option ((#) (Lit (unquote d))) (name_tokens s'))
      else map_option ((#) (if c = CHR ''/'' then Slash else if c = CHR ''@'' then At else Lit c))
             (name_tokens s))"

fun realm_of_tokens :: "name_token list \<Rightarrow> string option" where
  "realm_of_tokens [] = Some []"
| "realm_of_tokens (Lit c # ts) = map_option ((#) c) (realm_of_tokens ts)"
| "realm_of_tokens _ = None"

fun comps_of_tokens :: "string \<Rightarrow> name_token list \<Rightarrow> (string list \<times> string) option" where
  "comps_of_tokens cur [] = Some ([cur], [])"
| "comps_of_tokens cur (Lit c # ts) = comps_of_tokens (cur @ [c]) ts"
| "comps_of_tokens cur (Slash # ts) =
     map_option (\<lambda>(cs, r). (cur # cs, r)) (comps_of_tokens [] ts)"
| "comps_of_tokens cur (At # ts) = map_option (\<lambda>r. ([cur], r)) (realm_of_tokens ts)"

definition name_of_text :: "string \<Rightarrow> (string list \<times> string) option" where
  "name_of_text s = (case name_tokens s of None \<Rightarrow> None | Some ts \<Rightarrow> comps_of_tokens [] ts)"

lemma name_tokens_escape:
  "name_tokens (escapeComponent s @ t) = map_option (\<lambda>ts. map Lit s @ ts) (name_tokens t)"
  by (cases "name_tokens t"; induction s) (auto simp: unquote_def)

lemma comps_of_tokens_lits: "comps_of_tokens cur (map Lit s @ ts) = comps_of_tokens (cur @ s) ts"
  by (induction s arbitrary: cur) auto

lemma realm_of_tokens_lits: "realm_of_tokens (map Lit s) = Some s"
  by (induction s) auto

fun component_tokens :: "string list \<Rightarrow> name_token list" where
  "component_tokens [] = []"
| "component_tokens (c # cs) = Slash # map Lit c @ component_tokens cs"

lemma name_tokens_components:
  "name_tokens (unparse_components (Suc i) cs @ t)
     = map_option (\<lambda>ts. component_tokens cs @ ts) (name_tokens t)"
  by (cases "name_tokens t"; induction cs arbitrary: i) (auto simp: name_tokens_escape)

lemma comps_of_component_tokens:
  assumes "\<And>c. comps_of_tokens c ts = Some ([c], r)"
  shows "comps_of_tokens cur (component_tokens cs @ ts) = Some (cur # cs, r)"
  by (induction cs arbitrary: cur) (auto simp: comps_of_tokens_lits assms)

lemma name_of_text_UnparseName:
  assumes "Components p \<noteq> []"
  shows "name_of_text (UnparseName p) = Some (Components p, Realm p)"
proof -
  obtain c cs where p: "Components p = c # cs" using assms by (cases "Components p") auto
  let ?tail = "if Realm p \<noteq> [] then ''@'' @ escapeComponent (Realm p) else []"
  have "name_tokens ?tail = Some (if Realm p \<noteq> [] then At # map Lit (Realm p) else [])"
    using name_tokens_escape [of "Realm p" "[]"] by simp
  then have "name_tokens (UnparseName p) = Some (map Lit c @ component_tokens cs @
      (if Realm p \<noteq> [] then At # map Lit (Realm p) else []))"
    by (simp add: UnparseName_def p name_tokens_escape name_tokens_components)
  moreover have "comps_of_tokens d (if Realm p \<noteq> [] then At # map Lit (Realm p) else [])
      = Some ([d], Realm p)" for d
    by (simp add: realm_of_tokens_lits)
  ultimately show ?thesis
    by (simp only: name_of_text_def comps_of_tokens_lits comps_of_component_tokens option.case p
        append_Nil)
qed

lemma escapeComponent_no_NUL: "CHR 0x00 \<notin> set (escapeComponent s)"
  by (induction s) auto

lemma UnparseName_no_NUL: "CHR 0x00 \<notin> set (UnparseName p)"
proof -
  have "CHR 0x00 \<notin> set (unparse_components i cs)" for i cs
    by (induction cs arbitrary: i) (auto simp: escapeComponent_no_NUL)
  then show ?thesis by (simp add: UnparseName_def escapeComponent_no_NUL)
qed

text \<open>C36: the text form. A principal with at least one component is determined, up to its name
  type, by the text \<^verbatim>\<open>UnparseName\<close> writes: reading the text back under MIT's quoting rules gives
  its components and its realm, whatever bytes they contain. The text has no NUL byte, so it
  survives the conversion to a C string that \<^verbatim>\<open>parseName\<close> makes of it.\<close>

theorem UnparseName_reads_back:
  assumes "Components p \<noteq> []"
  shows "name_of_text (UnparseName p) = Some (Components p, Realm p) \<and> CHR 0x00 \<notin> set (UnparseName p)"
  by (simp add: name_of_text_UnparseName [OF assms] UnparseName_no_NUL)

theorem UnparseName_reads_back_witness:
  "name_of_text (UnparseName \<lparr>Type = 1, Realm = ''R@X'', Components = [''a/b'', []]\<rparr>)
     = Some ([''a/b'', []], ''R@X'')"
  using UnparseName_reads_back [of "\<lparr>Type = 1, Realm = ''R@X'', Components = [''a/b'', []]\<rparr>"]
  by simp

section \<open>No panics\<close>

lemma read_components_no_panic: "read_components i n r acc = Inl e \<Longrightarrow> \<not> is_panic e"
proof (induction i n r acc rule: read_components.induct)
  case (1 i n r acc)
  then show ?case
    by (auto simp: read_components.simps [of i n r acc] guarded_slices
        split: if_splits sum.splits dest: ReadUint32_error) metis
qed

lemma UnmarshalPrincipal_no_panic [no_panic]: "UnmarshalPrincipal b = Inl e \<Longrightarrow> \<not> is_panic e"
  by (auto simp: UnmarshalPrincipal_def guarded_slices split: sum.splits if_splits
      dest!: ReadUint32_error read_components_no_panic)

end
