(* ===== verification/Match_Cred.thy ===== *)
theory Match_Cred
  imports Principal
begin

text \<open>
  \<^verbatim>\<open>internal/kcmproto/match.go\<close>: the sparse match-credential of \<^verbatim>\<open>RETRIEVE\<close> and
  \<^verbatim>\<open>REMOVE_CRED\<close>. \<^verbatim>\<open>UnmarshalMatchCredential\<close> is modelled stage by stage, each stage taking the
  credential built so far and the unread bytes, as the statements of the Go function do.
\<close>

definition scClientPrincipal :: u32 where "scClientPrincipal = 0x0001"
definition scServerPrincipal :: u32 where "scServerPrincipal = 0x0002"
definition scSessionKey :: u32 where "scSessionKey = 0x0004"
definition scTicket :: u32 where "scTicket = 0x0008"
definition scSecondTicket :: u32 where "scSecondTicket = 0x0010"
definition scAuthdata :: u32 where "scAuthdata = 0x0020"
definition scAddresses :: u32 where "scAddresses = 0x0040"

lemmas sc_defs = scClientPrincipal_def scServerPrincipal_def scSessionKey_def scTicket_def
  scSecondTicket_def scAuthdata_def scAddresses_def

record match_credential =
  HasClient :: bool
  Client :: principal
  HasServer :: bool
  Server :: principal
  HasSessionKey :: bool
  KeyType :: i32
  KeyData :: "byte list"
  AuthTime :: i32
  StartTime :: i32
  EndTime :: i32
  RenewTill :: i32
  IsSKey :: bool
  TicketFlags :: u32
  HasTicket :: bool
  Ticket :: "byte list"
  HasSecondTicket :: bool
  SecondTicket :: "byte list"

definition no_principal :: principal where
  "no_principal = \<lparr>Type = 0, Realm = [], Components = []\<rparr>"

definition empty_mc :: match_credential where
  "empty_mc =
    \<lparr>HasClient = False, Client = no_principal, HasServer = False, Server = no_principal,
     HasSessionKey = False, KeyType = 0, KeyData = [],
     AuthTime = 0, StartTime = 0, EndTime = 0, RenewTill = 0, IsSKey = False, TicketFlags = 0,
     HasTicket = False, Ticket = [], HasSecondTicket = False, SecondTicket = []\<rparr>"

section \<open>Decoding\<close>

definition readUint16 :: "byte list \<Rightarrow> goerror + u16 \<times> byte list" where
  "readUint16 body =
     (if length body < 2 then Inl ErrTruncated
      else Inr (push_bit 8 (ucast (body ! 0)) OR ucast (body ! 1), drop 2 body))"

text \<open>The recurring \<^verbatim>\<open>if uint32(len(r)) < n { return ErrTruncated }\<close> with \<^verbatim>\<open>r[:n]\<close> and
  \<^verbatim>\<open>r[n:]\<close>.\<close>

definition cut_data :: "u32 \<Rightarrow> byte list \<Rightarrow> goerror + byte list \<times> byte list" where
  "cut_data n r =
     (if len32 r < n then Inl ErrTruncated
      else and_then (slice_to (unat n) r) (\<lambda>d.
           and_then (slice_from (unat n) r) (\<lambda>rest. Inr (d, rest))))"

text \<open>The loop \<^verbatim>\<open>for i := uint32(0); i < count; i++\<close> of \<^verbatim>\<open>skipAddressOrAuthdataList\<close>.\<close>

function skip_entries :: "u32 \<Rightarrow> u32 \<Rightarrow> byte list \<Rightarrow> goerror + byte list" where
  "skip_entries i count rest =
     (if \<not> i < count then Inr rest
      else
     (case readUint16 rest of
        Inl err \<Rightarrow> Inl err
      | Inr (_, r) \<Rightarrow>
     (case ReadUint32 r of
        Inl err \<Rightarrow> Inl err
      | Inr (n, r2) \<Rightarrow>
     (case cut_data n r2 of
        Inl err \<Rightarrow> Inl err
      | Inr (_, rest) \<Rightarrow> skip_entries (i + 1) count rest))))"
  by pat_completeness auto
termination
proof (relation "measure (\<lambda>(i, n, _). unat n - unat i)", goal_cases)
  case (2 i n)
  then have "unat i < unat n" by (simp add: word_less_nat_alt)
  moreover from this have "unat (i + 1) = unat i + 1"
    using unsigned_less [of n, where ?'a = nat] by (simp add: unat_word_ariths)
  ultimately show ?case by simp
qed simp

declare skip_entries.simps [simp del]

definition skipAddressOrAuthdataList :: "byte list \<Rightarrow> goerror + byte list" where
  "skipAddressOrAuthdataList body =
     (case ReadUint32 body of
        Inl err \<Rightarrow> Inl err
      | Inr (count, rest) \<Rightarrow> skip_entries 0 count rest)"

type_synonym mc_stage = "match_credential \<times> byte list \<Rightarrow> goerror + match_credential \<times> byte list"

definition mc_client :: "u32 \<Rightarrow> mc_stage" where
  "mc_client header = (\<lambda>(mc, rest).
     if header AND scClientPrincipal \<noteq> 0
     then and_then (wrap ''match-credential client principal: '' (UnmarshalPrincipal rest)) (\<lambda>(p, n).
          and_then (slice_from n rest) (\<lambda>rest.
          Inr (mc\<lparr>HasClient := True, Client := p\<rparr>, rest)))
     else Inr (mc, rest))"

definition mc_server :: "u32 \<Rightarrow> mc_stage" where
  "mc_server header = (\<lambda>(mc, rest).
     if header AND scServerPrincipal \<noteq> 0
     then and_then (wrap ''match-credential server principal: '' (UnmarshalPrincipal rest)) (\<lambda>(p, n).
          and_then (slice_from n rest) (\<lambda>rest.
          Inr (mc\<lparr>HasServer := True, Server := p\<rparr>, rest)))
     else Inr (mc, rest))"

definition mc_session_key :: "u32 \<Rightarrow> mc_stage" where
  "mc_session_key header = (\<lambda>(mc, rest).
     if header AND scSessionKey \<noteq> 0
     then and_then (wrap ''match-credential key enctype: '' (readUint16 rest)) (\<lambda>(enctype, rest).
          and_then (wrap ''match-credential key length: '' (ReadUint32 rest)) (\<lambda>(keylen, r).
          and_then (cut_data keylen r) (\<lambda>(key, rest).
          Inr (mc\<lparr>HasSessionKey := True, KeyType := ucast enctype, KeyData := key\<rparr>, rest))))
     else Inr (mc, rest))"

definition mc_times :: mc_stage where
  "mc_times = (\<lambda>(mc, rest).
     and_then (wrap ''match-credential times: '' (ReadUint32 rest)) (\<lambda>(authtime, rest).
     and_then (wrap ''match-credential times: '' (ReadUint32 rest)) (\<lambda>(starttime, rest).
     and_then (wrap ''match-credential times: '' (ReadUint32 rest)) (\<lambda>(endtime, rest).
     and_then (wrap ''match-credential times: '' (ReadUint32 rest)) (\<lambda>(renewTill, rest).
     Inr (mc\<lparr>AuthTime := authtime, StartTime := starttime, EndTime := endtime,
            RenewTill := renewTill\<rparr>, rest))))))"

definition mc_skey_flags :: mc_stage where
  "mc_skey_flags = (\<lambda>(mc, rest).
     if length rest < 1 then Inl ErrTruncated
     else and_then (wrap ''match-credential ticket flags: '' (ReadUint32 (drop 1 rest))) (\<lambda>(flags, rest').
          Inr (mc\<lparr>IsSKey := (rest ! 0 \<noteq> 0), TicketFlags := flags\<rparr>, rest')))"

definition mc_skip :: "string \<Rightarrow> u32 \<Rightarrow> u32 \<Rightarrow> mc_stage" where
  "mc_skip text sc header = (\<lambda>(mc, rest).
     if header AND sc \<noteq> 0
     then and_then (wrap text (skipAddressOrAuthdataList rest)) (\<lambda>rest. Inr (mc, rest))
     else Inr (mc, rest))"

definition mc_ticket :: "u32 \<Rightarrow> mc_stage" where
  "mc_ticket header = (\<lambda>(mc, rest).
     if header AND scTicket \<noteq> 0
     then and_then (wrap ''match-credential ticket length: '' (ReadUint32 rest)) (\<lambda>(n, r).
          and_then (cut_data n r) (\<lambda>(d, rest).
          Inr (mc\<lparr>HasTicket := True, Ticket := d\<rparr>, rest)))
     else Inr (mc, rest))"

definition mc_second_ticket :: "u32 \<Rightarrow> mc_stage" where
  "mc_second_ticket header = (\<lambda>(mc, rest).
     if header AND scSecondTicket \<noteq> 0
     then and_then (wrap ''match-credential second ticket length: '' (ReadUint32 rest)) (\<lambda>(n, r).
          and_then (cut_data n r) (\<lambda>(d, rest).
          Inr (mc\<lparr>HasSecondTicket := True, SecondTicket := d\<rparr>, rest)))
     else Inr (mc, rest))"

text \<open>All stages in the order of the source, also returning the bytes left unread, which
  \<^verbatim>\<open>UnmarshalMatchCredential\<close> drops.\<close>

definition read_match_credential :: "byte list \<Rightarrow> goerror + match_credential \<times> byte list" where
  "read_match_credential body =
     and_then (wrap ''match-credential header: '' (ReadUint32 body)) (\<lambda>(header, rest).
     and_then (mc_client header (empty_mc, rest)) (\<lambda>s.
     and_then (mc_server header s) (\<lambda>s.
     and_then (mc_session_key header s) (\<lambda>s.
     and_then (mc_times s) (\<lambda>s.
     and_then (mc_skey_flags s) (\<lambda>s.
     and_then (mc_skip ''match-credential addresses: '' scAddresses header s) (\<lambda>s.
     and_then (mc_skip ''match-credential authdata: '' scAuthdata header s) (\<lambda>s.
     and_then (mc_ticket header s) (\<lambda>s.
     mc_second_ticket header s)))))))))"

definition UnmarshalMatchCredential :: "byte list \<Rightarrow> goerror + match_credential" where
  "UnmarshalMatchCredential body =
     (case read_match_credential body of Inl err \<Rightarrow> Inl err | Inr (mc, _) \<Rightarrow> Inr mc)"

section \<open>The layout as an encoder\<close>

text \<open>The layout the comments of \<^verbatim>\<open>match.go\<close> describe (\<^verbatim>\<open>k5_marshal_mcred\<close>), as an encoder of a
  match-credential with its address and authdata lists, which the decoder only skips.\<close>

type_synonym typed_data = "(u16 \<times> byte list) list"

definition put_data :: "byte list \<Rightarrow> byte list" where
  "put_data d = PutUint32 (len32 d) @ d"

fun put_entries :: "typed_data \<Rightarrow> byte list" where
  "put_entries [] = []"
| "put_entries ((t, d) # es) = BigEndian_PutUint16 t @ put_data d @ put_entries es"

definition put_list :: "typed_data \<Rightarrow> byte list" where
  "put_list es = PutUint32 (len32 es) @ put_entries es"

definition mcred_header :: "match_credential \<Rightarrow> bool \<Rightarrow> bool \<Rightarrow> u32" where
  "mcred_header mc addrs authdata =
     of_bool (HasClient mc) OR push_bit 1 (of_bool (HasServer mc))
     OR push_bit 2 (of_bool (HasSessionKey mc)) OR push_bit 3 (of_bool (HasTicket mc))
     OR push_bit 4 (of_bool (HasSecondTicket mc)) OR push_bit 5 (of_bool authdata)
     OR push_bit 6 (of_bool addrs)"

definition put_if :: "bool \<Rightarrow> byte list \<Rightarrow> byte list" where
  "put_if b d = (if b then d else [])"

definition put_key :: "match_credential \<Rightarrow> byte list" where
  "put_key mc = BigEndian_PutUint16 (ucast (KeyType mc)) @ put_data (KeyData mc)"

definition put_fixed :: "match_credential \<Rightarrow> byte list" where
  "put_fixed mc = PutUint32 (AuthTime mc) @ PutUint32 (StartTime mc) @ PutUint32 (EndTime mc)
     @ PutUint32 (RenewTill mc) @ [of_bool (IsSKey mc)] @ PutUint32 (TicketFlags mc)"

type_synonym mcred_msg = "match_credential \<times> typed_data option \<times> typed_data option"

fun marshal_mcred :: "mcred_msg \<Rightarrow> byte list" where
  "marshal_mcred (mc, addrs, authdata) =
     PutUint32 (mcred_header mc (addrs \<noteq> None) (authdata \<noteq> None))
     @ put_if (HasClient mc) (MarshalPrincipal (Client mc))
     @ put_if (HasServer mc) (MarshalPrincipal (Server mc))
     @ put_if (HasSessionKey mc) (put_key mc)
     @ put_fixed mc
     @ put_if (addrs \<noteq> None) (put_list (the addrs))
     @ put_if (authdata \<noteq> None) (put_list (the authdata))
     @ put_if (HasTicket mc) (put_data (Ticket mc))
     @ put_if (HasSecondTicket mc) (put_data (SecondTicket mc))"

definition list_encodable :: "typed_data option \<Rightarrow> bool" where
  "list_encodable l \<longleftrightarrow>
     (case l of None \<Rightarrow> True
      | Some es \<Rightarrow> length es < 2 ^ 32 \<and> list_all (\<lambda>(t, d). length d < 2 ^ 32) es)"

text \<open>What the format can carry: absent fields are zero, a present principal and every length
  fit 32 bits, the enctype fits 16.\<close>

definition mc_encodable :: "match_credential \<Rightarrow> bool" where
  "mc_encodable mc \<longleftrightarrow>
     (if HasClient mc then principal_encodable (Client mc) else Client mc = no_principal) \<and>
     (if HasServer mc then principal_encodable (Server mc) else Server mc = no_principal) \<and>
     (if HasSessionKey mc then ucast (ucast (KeyType mc) :: u16) = KeyType mc \<and> length (KeyData mc) < 2 ^ 32
      else KeyType mc = 0 \<and> KeyData mc = []) \<and>
     (if HasTicket mc then length (Ticket mc) < 2 ^ 32 else Ticket mc = []) \<and>
     (if HasSecondTicket mc then length (SecondTicket mc) < 2 ^ 32 else SecondTicket mc = [])"

lemma readUint16_Put [simp]: "readUint16 (BigEndian_PutUint16 v @ r) = Inr (v, r)"
proof -
  have "readUint16 (BigEndian_PutUint16 v @ r) = Inr (BigEndian_Uint16 (BigEndian_PutUint16 v), r)"
    by (simp add: readUint16_def BigEndian_Uint16_def nth_append numeral_2_eq_2)
  then show ?thesis by simp
qed

lemma cut_data_append:
  assumes "length (d @ r) < 2 ^ 32"
  shows "cut_data (len32 d) (d @ r) = Inr (d, r)"
proof -
  have "unat (len32 d) = length d" using assms by simp
  with len32_not_less [OF assms] show ?thesis by (simp add: cut_data_def)
qed

lemma header_bits:
  "mcred_header mc a b AND scClientPrincipal \<noteq> 0 \<longleftrightarrow> HasClient mc"
  "mcred_header mc a b AND scServerPrincipal \<noteq> 0 \<longleftrightarrow> HasServer mc"
  "mcred_header mc a b AND scSessionKey \<noteq> 0 \<longleftrightarrow> HasSessionKey mc"
  "mcred_header mc a b AND scTicket \<noteq> 0 \<longleftrightarrow> HasTicket mc"
  "mcred_header mc a b AND scSecondTicket \<noteq> 0 \<longleftrightarrow> HasSecondTicket mc"
  "mcred_header mc a b AND scAuthdata \<noteq> 0 \<longleftrightarrow> b"
  "mcred_header mc a b AND scAddresses \<noteq> 0 \<longleftrightarrow> a"
proof -
  have test: "h AND 2 ^ k \<noteq> 0 \<longleftrightarrow> bit h k" for h :: u32 and k
    by (simp add: and_exp_eq_0_iff_not_bit)
  note t = test [of "mcred_header mc a b"]
  note h = mcred_header_def sc_defs bit_simps
  show "mcred_header mc a b AND scClientPrincipal \<noteq> 0 \<longleftrightarrow> HasClient mc"
    using t [of 0] by (simp add: h)
  show "mcred_header mc a b AND scServerPrincipal \<noteq> 0 \<longleftrightarrow> HasServer mc"
    using t [of 1] by (simp add: h)
  show "mcred_header mc a b AND scSessionKey \<noteq> 0 \<longleftrightarrow> HasSessionKey mc"
    using t [of 2] by (simp add: h)
  show "mcred_header mc a b AND scTicket \<noteq> 0 \<longleftrightarrow> HasTicket mc"
    using t [of 3] by (simp add: h)
  show "mcred_header mc a b AND scSecondTicket \<noteq> 0 \<longleftrightarrow> HasSecondTicket mc"
    using t [of 4] by (simp add: h)
  show "mcred_header mc a b AND scAuthdata \<noteq> 0 \<longleftrightarrow> b"
    using t [of 5] by (simp add: h)
  show "mcred_header mc a b AND scAddresses \<noteq> 0 \<longleftrightarrow> a"
    using t [of 6] by (simp add: h)
qed

section \<open>Each stage reads its field back\<close>

lemma skip_entries_put:
  assumes "unat i + length es < 2 ^ 32" "length (put_entries es @ r) < 2 ^ 32"
    "list_all (\<lambda>(t, d). length d < 2 ^ 32) es" "n = i + len32 es"
  shows "skip_entries i n (put_entries es @ r) = Inr r"
  using assms
proof (induction es arbitrary: i)
  case Nil
  then show ?case by (simp add: skip_entries.simps)
next
  case (Cons e es)
  obtain t d where e: "e = (t, d)" by (cases e)
  have lt: "i < n"
    using Cons.prems(1,4) by (simp add: word_less_nat_alt unat_word_ariths unat_of_nat)
  have suc: "unat (i + 1) = unat i + 1"
    using Cons.prems(1) by (simp add: unat_word_ariths)
  have "cut_data (len32 d) (d @ put_entries es @ r) = Inr (d, put_entries es @ r)"
    using Cons.prems(2) by (intro cut_data_append) (simp add: e put_data_def)
  then have "skip_entries i n (put_entries (e # es) @ r) = skip_entries (i + 1) n (put_entries es @ r)"
    using lt by (simp add: skip_entries.simps [of i] e put_data_def)
  also have "\<dots> = Inr r"
    by (rule Cons.IH) (use Cons.prems suc in \<open>simp_all add: add_ac e put_data_def\<close>)
  finally show ?case .
qed

lemma skip_put_list:
  assumes "list_encodable (Some es)" "length (put_list es @ r) < 2 ^ 32"
  shows "skipAddressOrAuthdataList (put_list es @ r) = Inr r"
  using skip_entries_put [of 0 es r "len32 es"] assms
  by (simp add: skipAddressOrAuthdataList_def put_list_def list_encodable_def)

lemma mc_skip_put:
  assumes "header AND sc \<noteq> 0 \<longleftrightarrow> l \<noteq> None" "list_encodable l"
    "length (put_if (l \<noteq> None) (put_list (the l)) @ r) < 2 ^ 32"
  shows "mc_skip t sc header (mc, put_if (l \<noteq> None) (put_list (the l)) @ r) = Inr (mc, r)"
  using assms by (cases l) (simp_all add: mc_skip_def put_if_def skip_put_list)

lemma mc_client_put:
  assumes "header AND scClientPrincipal \<noteq> 0 \<longleftrightarrow> b" "b \<Longrightarrow> principal_encodable p"
    "length (put_if b (MarshalPrincipal p) @ r) < 2 ^ 32"
  shows "mc_client header (mc, put_if b (MarshalPrincipal p) @ r)
           = Inr (if b then mc\<lparr>HasClient := True, Client := p\<rparr> else mc, r)"
  using assms by (cases b) (simp_all add: mc_client_def put_if_def UnmarshalPrincipal_Marshal)

lemma mc_server_put:
  assumes "header AND scServerPrincipal \<noteq> 0 \<longleftrightarrow> b" "b \<Longrightarrow> principal_encodable p"
    "length (put_if b (MarshalPrincipal p) @ r) < 2 ^ 32"
  shows "mc_server header (mc, put_if b (MarshalPrincipal p) @ r)
           = Inr (if b then mc\<lparr>HasServer := True, Server := p\<rparr> else mc, r)"
  using assms by (cases b) (simp_all add: mc_server_def put_if_def UnmarshalPrincipal_Marshal)

lemma mc_session_key_put:
  assumes "header AND scSessionKey \<noteq> 0 \<longleftrightarrow> b" "b \<Longrightarrow> ucast (ucast (KeyType m) :: u16) = KeyType m"
    "length (put_if b (put_key m) @ r) < 2 ^ 32"
  shows "mc_session_key header (mc, put_if b (put_key m) @ r)
           = Inr (if b then mc\<lparr>HasSessionKey := True, KeyType := KeyType m, KeyData := KeyData m\<rparr>
                  else mc, r)"
  using assms by (cases b) (simp_all add: mc_session_key_def put_if_def put_key_def put_data_def cut_data_append)

lemma mc_fixed_put:
  "and_then (mc_times (mc, put_fixed m @ r)) mc_skey_flags
     = Inr (mc\<lparr>AuthTime := AuthTime m, StartTime := StartTime m, EndTime := EndTime m,
              RenewTill := RenewTill m, IsSKey := IsSKey m, TicketFlags := TicketFlags m\<rparr>, r)"
  by (simp add: mc_times_def mc_skey_flags_def put_fixed_def)

lemma mc_ticket_put:
  assumes "header AND scTicket \<noteq> 0 \<longleftrightarrow> b" "length (put_if b (put_data d) @ r) < 2 ^ 32"
  shows "mc_ticket header (mc, put_if b (put_data d) @ r)
           = Inr (if b then mc\<lparr>HasTicket := True, Ticket := d\<rparr> else mc, r)"
  using assms by (cases b) (simp_all add: mc_ticket_def put_if_def put_data_def cut_data_append)

lemma mc_second_ticket_put:
  assumes "header AND scSecondTicket \<noteq> 0 \<longleftrightarrow> b" "length (put_if b (put_data d) @ r) < 2 ^ 32"
  shows "mc_second_ticket header (mc, put_if b (put_data d) @ r)
           = Inr (if b then mc\<lparr>HasSecondTicket := True, SecondTicket := d\<rparr> else mc, r)"
  using assms by (cases b) (simp_all add: mc_second_ticket_def put_if_def put_data_def cut_data_append)

lemma read_match_credential_marshal:
  assumes "mc_encodable mc" "list_encodable addrs" "list_encodable authdata"
    and "length (marshal_mcred (mc, addrs, authdata) @ r) < 2 ^ 32"
  shows "read_match_credential (marshal_mcred (mc, addrs, authdata) @ r) = Inr (mc, r)"
proof -
  let ?h = "mcred_header mc (addrs \<noteq> None) (authdata \<noteq> None)"
  note hb = header_bits [of mc "addrs \<noteq> None" "authdata \<noteq> None"]
  note len = assms(4) [unfolded marshal_mcred.simps, simplified]
  note enc = assms(1) [unfolded mc_encodable_def]
  have fixed: "and_then (mc_times (m, put_fixed mc @ s)) (\<lambda>s. and_then (mc_skey_flags s) f)
      = f (m\<lparr>AuthTime := AuthTime mc, StartTime := StartTime mc, EndTime := EndTime mc,
             RenewTill := RenewTill mc, IsSKey := IsSKey mc, TicketFlags := TicketFlags mc\<rparr>, s)" for m s f
    by (simp add: mc_times_def mc_skey_flags_def put_fixed_def)
  have "read_match_credential (marshal_mcred (mc, addrs, authdata) @ r) =
    Inr (let mc1 = (if HasClient mc then empty_mc\<lparr>HasClient := True, Client := Client mc\<rparr> else empty_mc);
      mc2 = (if HasServer mc then mc1\<lparr>HasServer := True, Server := Server mc\<rparr> else mc1);
      mc3 = (if HasSessionKey mc then mc2\<lparr>HasSessionKey := True, KeyType := KeyType mc, KeyData := KeyData mc\<rparr>
             else mc2);
      mc4 = mc3\<lparr>AuthTime := AuthTime mc, StartTime := StartTime mc, EndTime := EndTime mc,
             RenewTill := RenewTill mc, IsSKey := IsSKey mc, TicketFlags := TicketFlags mc\<rparr>;
      mc5 = (if HasTicket mc then mc4\<lparr>HasTicket := True, Ticket := Ticket mc\<rparr> else mc4)
      in if HasSecondTicket mc then mc5\<lparr>HasSecondTicket := True, SecondTicket := SecondTicket mc\<rparr> else mc5, r)"
    unfolding read_match_credential_def marshal_mcred.simps append_assoc ReadUint32_Put wrap_simps
      and_then_simps prod.case Let_def
    apply (subst mc_client_put [OF hb(1)], use enc len in simp, use len in simp)
    unfolding and_then_simps
    apply (subst mc_server_put [OF hb(2)], use enc len in simp, use len in simp)
    unfolding and_then_simps
    apply (subst mc_session_key_put [OF hb(3)], use enc len in simp, use len in simp)
    unfolding and_then_simps fixed
    apply (subst mc_skip_put [OF hb(7) assms(2)], use len in simp)
    unfolding and_then_simps
    apply (subst mc_skip_put [OF hb(6) assms(3)], use len in simp)
    unfolding and_then_simps
    apply (subst mc_ticket_put [OF hb(4)], use len in simp)
    unfolding and_then_simps
    apply (subst mc_second_ticket_put [OF hb(5)], use len in simp)
    by (rule refl)
  also have "\<dots> = Inr (mc, r)"
    using enc by (simp add: Let_def empty_mc_def split: if_splits)
  finally show ?thesis .
qed

interpretation mcred_codec: codec "\<lambda>mc. marshal_mcred (mc, addrs, authdata)" read_match_credential
    "\<lambda>mc. mc_encodable mc \<and> list_encodable addrs \<and> list_encodable authdata" for addrs authdata
  by unfold_locales (blast intro: read_match_credential_marshal)

text \<open>C25: match-credentials. Whatever fields are present, and whatever addresses and authdata come
  with it, a match-credential marshalled in MIT's layout (shorter than \<open>2 ^ 32\<close> bytes) is decoded
  by \<^verbatim>\<open>UnmarshalMatchCredential\<close> to exactly the same fields; trailing bytes are ignored.\<close>

theorem UnmarshalMatchCredential_marshal:
  assumes "mc_encodable mc" "list_encodable addrs" "list_encodable authdata"
    and "length (marshal_mcred (mc, addrs, authdata) @ r) < 2 ^ 32"
  shows "UnmarshalMatchCredential (marshal_mcred (mc, addrs, authdata) @ r) = Inr mc"
  using mcred_codec.dec_enc [of mc addrs authdata r] assms
  by (simp add: UnmarshalMatchCredential_def del: marshal_mcred.simps)

definition mc_example :: match_credential where
  "mc_example = empty_mc\<lparr>HasServer := True,
     Server := \<lparr>Type = 1, Realm = ''R'', Components = [''h'', ''x'']\<rparr>,
     HasSessionKey := True, KeyType := 18, EndTime := 77\<rparr>"

lemmas encoding_defs = principal_encodable_def MarshalPrincipal_def put_if_def put_key_def
  put_fixed_def put_data_def put_list_def list_encodable_def mc_encodable_def

theorem UnmarshalMatchCredential_marshal_witness:
  "UnmarshalMatchCredential (marshal_mcred (mc_example, Some [(2, [1, 2])], None) @ [5]) = Inr mc_example"
  by (rule UnmarshalMatchCredential_marshal)
    (simp_all add: mc_example_def empty_mc_def encoding_defs)

section \<open>No panics\<close>

lemma readUint16_error [no_panic]: "readUint16 b = Inl e \<Longrightarrow> \<not> is_panic e"
  by (auto simp: readUint16_def split: if_splits)

lemma cut_data_error [no_panic]: "cut_data n r = Inl e \<Longrightarrow> \<not> is_panic e"
  by (auto simp: cut_data_def guarded_slices split: if_splits)

lemma slice_from_consumed:
  "UnmarshalPrincipal b = Inr (p, n) \<Longrightarrow> slice_from n b = Inr (drop n b)"
  using UnmarshalPrincipal_canonical [of b p n] by (auto simp: slice_from_def) (metis le_add1 length_append)

lemma skip_entries_error: "skip_entries i n b = Inl e \<Longrightarrow> \<not> is_panic e"
proof (induction i n b rule: skip_entries.induct)
  case (1 i n b)
  from "1.prems" consider "readUint16 b = Inl e"
    | t r where "readUint16 b = Inr (t, r)" "ReadUint32 r = Inl e"
    | t r m r2 where "readUint16 b = Inr (t, r)" "ReadUint32 r = Inr (m, r2)" "cut_data m r2 = Inl e"
    | t r m r2 d r3 where "i < n" "readUint16 b = Inr (t, r)" "ReadUint32 r = Inr (m, r2)"
        "cut_data m r2 = Inr (d, r3)" "skip_entries (i + 1) n r3 = Inl e"
    by (auto simp: skip_entries.simps [of i n b] split: if_splits sum.splits)
  then show ?case
    by cases (use "1.IH" in \<open>auto dest: readUint16_error cut_data_error ReadUint32_error\<close>)
qed

lemma skipAddressOrAuthdataList_error: "skipAddressOrAuthdataList b = Inl e \<Longrightarrow> \<not> is_panic e"
  by (auto simp: skipAddressOrAuthdataList_def split: sum.splits dest!: ReadUint32_error skip_entries_error)

lemma mc_stage_errors [no_panic]:
  "mc_client h s = Inl e \<Longrightarrow> \<not> is_panic e"
  "mc_server h s = Inl e \<Longrightarrow> \<not> is_panic e"
  "mc_session_key h s = Inl e \<Longrightarrow> \<not> is_panic e"
  "mc_times s = Inl e \<Longrightarrow> \<not> is_panic e"
  "mc_skey_flags s = Inl e \<Longrightarrow> \<not> is_panic e"
  "mc_skip t sc h s = Inl e \<Longrightarrow> \<not> is_panic e"
  "mc_ticket h s = Inl e \<Longrightarrow> \<not> is_panic e"
  "mc_second_ticket h s = Inl e \<Longrightarrow> \<not> is_panic e"
  by (auto simp: mc_client_def mc_server_def mc_session_key_def mc_times_def mc_skey_flags_def
      mc_skip_def mc_ticket_def mc_second_ticket_def and_then_Inl wrap_Inl slice_from_consumed
      split: if_splits prod.splits dest!: no_panic skipAddressOrAuthdataList_error)

lemma UnmarshalMatchCredential_no_panic [no_panic]: "UnmarshalMatchCredential b = Inl e \<Longrightarrow> \<not> is_panic e"
proof -
  have "\<not> is_panic e" if "read_match_credential b = Inl e" for e
    using that unfolding read_match_credential_def
    by (auto simp: and_then_Inl wrap_Inl dest: mc_stage_errors ReadUint32_error)
  then show "UnmarshalMatchCredential b = Inl e \<Longrightarrow> \<not> is_panic e"
    by (auto simp: UnmarshalMatchCredential_def split: sum.splits)
qed


end
