(* ===== verification/Names.thy ===== *)
theory Names
  imports Match_Cred
begin

text \<open>
  \<^verbatim>\<open>internal/kcmproto/names.go\<close>: the renderings of opcodes, flag words, UUIDs, timestamps and
  match-credentials that go into log records.
\<close>

definition opcodeNames :: "(opcode \<times> string) list" where
  "opcodeNames =
    [(OpNoop, ''NOOP''), (OpGetName, ''GET_NAME''), (OpResolve, ''RESOLVE''), (OpGenNew, ''GEN_NEW''),
     (OpInitialize, ''INITIALIZE''), (OpDestroy, ''DESTROY''), (OpStore, ''STORE''),
     (OpRetrieve, ''RETRIEVE''), (OpGetPrincipal, ''GET_PRINCIPAL''),
     (OpGetCredUUIDList, ''GET_CRED_UUID_LIST''), (OpGetCredByUUID, ''GET_CRED_BY_UUID''),
     (OpRemoveCred, ''REMOVE_CRED''), (OpSetFlags, ''SET_FLAGS''), (OpChown, ''CHOWN''),
     (OpChmod, ''CHMOD''), (OpGetInitialTicket, ''GET_INITIAL_TICKET''), (OpGetTicket, ''GET_TICKET''),
     (OpMoveCache, ''MOVE_CACHE''), (OpGetCacheUUIDList, ''GET_CACHE_UUID_LIST''),
     (OpGetCacheByUUID, ''GET_CACHE_BY_UUID''), (OpGetDefaultCache, ''GET_DEFAULT_CACHE''),
     (OpSetDefaultCache, ''SET_DEFAULT_CACHE''), (OpGetKDCOffset, ''GET_KDC_OFFSET''),
     (OpSetKDCOffset, ''SET_KDC_OFFSET''), (OpAddNTLMCred, ''ADD_NTLM_CRED''),
     (OpHaveNTLMCred, ''HAVE_NTLM_CRED''), (OpDelNTLMCred, ''DEL_NTLM_CRED''),
     (OpDoNTLMAuth, ''DO_NTLM_AUTH''), (OpGetNTLMUserList, ''GET_NTLM_USER_LIST''),
     (OpGetCredList, ''GET_CRED_LIST''), (OpReplace, ''REPLACE'')]"

definition Opcode_String :: "opcode \<Rightarrow> string" where
  "Opcode_String op =
     (case map_of opcodeNames op of
        Some name \<Rightarrow> name
      | None \<Rightarrow> ''OPCODE('' @ fmt_nat (unat op) @ '')'')"

definition matchFlagNames :: "(u32 \<times> string) list" where
  "matchFlagNames =
    [(FlagTCDontMatchRealm, ''TC_DONT_MATCH_REALM''), (FlagTCMatchKeytype, ''TC_MATCH_KEYTYPE''),
     (FlagTCMatchSrvNameonly, ''TC_MATCH_SRV_NAMEONLY''), (FlagTCMatchFlagsExact, ''TC_MATCH_FLAGS_EXACT''),
     (FlagTCMatchFlags, ''TC_MATCH_FLAGS''), (FlagTCMatchTimesExact, ''TC_MATCH_TIMES_EXACT''),
     (FlagTCMatchTimes, ''TC_MATCH_TIMES''), (FlagTCMatchAuthdata, ''TC_MATCH_AUTHDATA''),
     (FlagTCMatch2ndTkt, ''TC_MATCH_2ND_TKT''), (FlagTCMatchIsSkey, ''TC_MATCH_IS_SKEY''),
     (FlagGCCached, ''GC_CACHED'')]"

text \<open>The loop over \<^verbatim>\<open>matchFlagNames\<close>: the parts collected and the bits not yet named.\<close>

fun flag_parts :: "(u32 \<times> string) list \<Rightarrow> u32 \<Rightarrow> string list \<times> u32" where
  "flag_parts [] flags = ([], flags)"
| "flag_parts ((b, name) # fs) flags =
     (if flags AND b \<noteq> 0
      then (case flag_parts fs (flags AND NOT b) of (parts, rest) \<Rightarrow> (name # parts, rest))
      else flag_parts fs flags)"

fun strings_Join :: "string list \<Rightarrow> string \<Rightarrow> string" where
  "strings_Join [] sep = []"
| "strings_Join [s] sep = s"
| "strings_Join (s # t # ss) sep = s @ sep @ strings_Join (t # ss) sep"

definition MatchFlagsString :: "u32 \<Rightarrow> string" where
  "MatchFlagsString flags =
     (if flags = 0 then ''0''
      else (case flag_parts matchFlagNames flags of (parts, rest) \<Rightarrow>
              strings_Join (if rest \<noteq> 0 then parts @ [''0x'' @ fmt_08x rest] else parts) ''|''))"

definition UUID_String :: "uuid \<Rightarrow> string" where
  "UUID_String u = hex_EncodeToString u"

definition Principal_String :: "principal \<Rightarrow> string" where
  "Principal_String p = UnparseName p"

section \<open>Timestamps\<close>

text \<open>\<^verbatim>\<open>time.Unix(s, 0).UTC().Format(time.RFC3339)\<close> in the proleptic Gregorian calendar.\<close>

definition leap_year :: "nat \<Rightarrow> bool" where
  "leap_year y \<longleftrightarrow> y mod 4 = 0 \<and> (y mod 100 \<noteq> 0 \<or> y mod 400 = 0)"

definition year_days :: "nat \<Rightarrow> nat" where
  "year_days y = (if leap_year y then 366 else 365)"

function split_year :: "nat \<Rightarrow> nat \<Rightarrow> nat \<times> nat" where
  "split_year y d = (if d < year_days y then (y, d) else split_year (Suc y) (d - year_days y))"
  by pat_completeness auto
termination
  by (relation "measure snd") (auto simp: year_days_def split: if_splits)

declare split_year.simps [simp del]

definition month_lengths :: "nat \<Rightarrow> nat list" where
  "month_lengths y = [31, if leap_year y then 29 else 28, 31, 30, 31, 30, 31, 31, 30, 31, 30, 31]"

fun split_month :: "nat \<Rightarrow> nat list \<Rightarrow> nat \<Rightarrow> nat \<times> nat" where
  "split_month m [] d = (m, d)"
| "split_month m (l # ls) d = (if d < l then (m, d) else split_month (Suc m) ls (d - l))"

definition pad :: "nat \<Rightarrow> nat \<Rightarrow> string" where
  "pad w n = (let s = fmt_nat n in replicate (w - length s) (CHR ''0'') @ s)"

definition rfc3339 :: "nat \<Rightarrow> string" where
  "rfc3339 secs =
     (case split_year 1970 (secs div 86400) of (y, yd) \<Rightarrow>
      (case split_month 1 (month_lengths y) yd of (m, d) \<Rightarrow>
         pad 4 y @ ''-'' @ pad 2 m @ ''-'' @ pad 2 (Suc d) @ ''T''
         @ pad 2 (secs mod 86400 div 3600) @ '':'' @ pad 2 (secs mod 3600 div 60) @ '':''
         @ pad 2 (secs mod 60) @ ''Z''))"

definition FormatTimestamp :: "i32 \<Rightarrow> string" where
  "FormatTimestamp ts = (if ts = 0 then ''0'' else rfc3339 (unat ts))"

section \<open>Match-credentials\<close>

definition TrimSuffix :: "string \<Rightarrow> string \<Rightarrow> string" where
  "TrimSuffix s suffix =
     (if length suffix \<le> length s \<and> drop (length s - length suffix) s = suffix
      then take (length s - length suffix) s else s)"

definition opt :: "bool \<Rightarrow> string \<Rightarrow> string" where
  "opt b s = (if b then s else [])"

definition MatchCredential_String :: "match_credential \<Rightarrow> string" where
  "MatchCredential_String mc =
     (let b = opt (HasClient mc) (''client='' @ UnparseName (Client mc) @ '' '')
        @ opt (HasServer mc) (''server='' @ UnparseName (Server mc) @ '' '')
        @ opt (HasSessionKey mc)
            (''enctype='' @ fmt_int (sint (KeyType mc)) @ '' key_len='' @ fmt_nat (length (KeyData mc)) @ '' '')
        @ opt (AuthTime mc \<noteq> 0) (''authtime='' @ FormatTimestamp (AuthTime mc) @ '' '')
        @ opt (StartTime mc \<noteq> 0) (''starttime='' @ FormatTimestamp (StartTime mc) @ '' '')
        @ opt (EndTime mc \<noteq> 0) (''endtime='' @ FormatTimestamp (EndTime mc) @ '' '')
        @ opt (RenewTill mc \<noteq> 0) (''renew_till='' @ FormatTimestamp (RenewTill mc) @ '' '')
        @ opt (IsSKey mc) ''is_skey=true ''
        @ opt (TicketFlags mc \<noteq> 0) (''ticket_flags=0x'' @ fmt_08x (TicketFlags mc) @ '' '')
        @ opt (HasTicket mc) (''ticket_len='' @ fmt_nat (length (Ticket mc)) @ '' '')
        @ opt (HasSecondTicket mc) (''second_ticket_len='' @ fmt_nat (length (SecondTicket mc)) @ '' '')
      in if b = [] then ''(empty)'' else TrimSuffix b '' '')"

section \<open>What the renderings show and hide\<close>

lemma flag_parts_rest:
  "snd (flag_parts fs flags) = flags AND NOT (foldr (\<lambda>(b, _) m. b OR m) fs 0)"
proof (induction fs arbitrary: flags)
  case (Cons f fs)
  obtain b name where f: "f = (b, name)" by (cases f)
  show ?case
  proof (cases "flags AND b = 0")
    case True
    have "flags AND NOT (b OR m) = flags AND NOT m" for m
      using True by (simp add: bit_eq_iff bit_simps) metis
    with True show ?thesis by (simp add: f Cons.IH)
  next
    case False
    then show ?thesis by (simp add: f Cons.IH split_def and.assoc)
  qed
qed simp

text \<open>The named bits are disjoint, so a bit is listed exactly when the flags word has it.\<close>

lemma flag_parts_named:
  assumes "distinct (map fst fs)" "set (map fst fs) \<subseteq> range (\<lambda>k. 2 ^ k)"
  shows "fst (flag_parts fs flags) = map snd (filter (\<lambda>(b, n). flags AND b \<noteq> 0) fs)"
  using assms
proof (induction fs arbitrary: flags)
  case (Cons f fs)
  obtain b name where f: "f = (b, name)" by (cases f)
  obtain k where k: "b = 2 ^ k" using Cons.prems(2) f by auto
  have "(flags AND NOT b) AND c \<noteq> 0 \<longleftrightarrow> flags AND c \<noteq> 0" if cn: "(c, n) \<in> set fs" for c n
  proof -
    obtain j where j: "c = 2 ^ j" using Cons.prems(2) cn by force
    have "c \<noteq> b" using Cons.prems(1) cn f by force
    then have "j \<noteq> k" using j k by blast
    show ?thesis using \<open>j \<noteq> k\<close>
      by (auto simp: j k and_exp_eq_0_iff_not_bit bit_simps dest: bit_imp_le_length)
  qed
  then have "filter (\<lambda>(c, n). (flags AND NOT b) AND c \<noteq> 0) fs = filter (\<lambda>(c, n). flags AND c \<noteq> 0) fs"
    by (intro filter_cong) auto
  with Cons show ?case by (simp add: f split_def)
qed simp

definition definedFlags :: u32 where
  "definedFlags = foldr (\<lambda>(b, _) m. b OR m) matchFlagNames 0"

text \<open>Flag words in the log. \<^verbatim>\<open>MatchFlagsString\<close> names exactly the bits of the word that
  \<^verbatim>\<open>kcm.h\<close> defines, in the order of the table, and shows every other bit in the hexadecimal part,
  which is absent when there is none: no bit is lost and none is invented.\<close>

lemma MatchFlagsString_shows_all:
  "MatchFlagsString flags =
     (if flags = 0 then ''0''
      else strings_Join
        (map snd (filter (\<lambda>(b, name). flags AND b \<noteq> 0) matchFlagNames)
         @ (if flags AND NOT definedFlags \<noteq> 0 then [''0x'' @ fmt_08x (flags AND NOT definedFlags)] else []))
        ''|'')"
proof -
  have "fst (flag_parts matchFlagNames flags)
      = map snd (filter (\<lambda>(b, n). flags AND b \<noteq> 0) matchFlagNames)"
  proof (rule flag_parts_named)
    show "distinct (map fst matchFlagNames)" by (simp add: matchFlagNames_def flag_defs)
    have "map fst matchFlagNames = map (\<lambda>k. 2 ^ k) [31, 30, 29, 28, 27, 26, 25, 24, 23, 22, 0]"
      by (simp add: matchFlagNames_def flag_defs)
    then show "set (map fst matchFlagNames) \<subseteq> range (\<lambda>k. 2 ^ k)"
      by (simp only: set_map) blast
  qed
  moreover have "snd (flag_parts matchFlagNames flags) = flags AND NOT definedFlags"
    by (simp add: flag_parts_rest definedFlags_def)
  ultimately show ?thesis by (simp add: MatchFlagsString_def split_def)
qed

text \<open>Log hygiene. What \<^verbatim>\<open>MatchCredential.String\<close> writes into a log record depends on the session
  key, the ticket and the second ticket through their lengths alone: replacing their contents by
  others of the same lengths leaves the text unchanged.\<close>

lemma MatchCredential_String_hides_contents:
  assumes "length key = length (KeyData mc)" "length t = length (Ticket mc)"
    "length t2 = length (SecondTicket mc)"
  shows "MatchCredential_String (mc\<lparr>KeyData := key, Ticket := t, SecondTicket := t2\<rparr>)
           = MatchCredential_String mc"
  using assms by (simp add: MatchCredential_String_def)

end
