(* ===== verification/Sha1.thy ===== *)
theory Sha1
  imports Wire
begin

text \<open>
  Go's \<^verbatim>\<open>crypto/sha1\<close> as the program uses it (\<^verbatim>\<open>sha1.Sum\<close>, FIPS 180-4), and the two places that
  turn a digest into a KCM UUID: \<^verbatim>\<open>uuidOf\<close> of \<^verbatim>\<open>internal/krb5c/krb5c.go\<close> and \<^verbatim>\<open>uuidOfString\<close> of
  \<^verbatim>\<open>internal/server/server.go\<close>.
\<close>

type_synonym sha_state = "u32 \<times> u32 \<times> u32 \<times> u32 \<times> u32"

definition rotl32 :: "nat \<Rightarrow> u32 \<Rightarrow> u32" where
  "rotl32 n x = push_bit n x OR drop_bit (32 - n) x"

definition sha1_f :: "nat \<Rightarrow> u32 \<Rightarrow> u32 \<Rightarrow> u32 \<Rightarrow> u32" where
  "sha1_f t b c d =
     (if t < 20 then (b AND c) OR (NOT b AND d)
      else if t < 40 then b XOR c XOR d
      else if t < 60 then (b AND c) OR (b AND d) OR (c AND d)
      else b XOR c XOR d)"

definition sha1_k :: "nat \<Rightarrow> u32" where
  "sha1_k t =
     (if t < 20 then 0x5A827999 else if t < 40 then 0x6ED9EBA1
      else if t < 60 then 0x8F1BBCDC else 0xCA62C1D6)"

text \<open>The message schedule, latest word first: each new word looks 3, 8, 14 and 16 words back.\<close>

fun sha1_schedule :: "nat \<Rightarrow> u32 list \<Rightarrow> u32 list" where
  "sha1_schedule 0 ws = ws"
| "sha1_schedule (Suc n) ws =
     sha1_schedule n (rotl32 1 (ws ! 2 XOR ws ! 7 XOR ws ! 13 XOR ws ! 15) # ws)"

fun sha1_rounds :: "nat \<Rightarrow> u32 list \<Rightarrow> sha_state \<Rightarrow> sha_state" where
  "sha1_rounds t [] s = s"
| "sha1_rounds t (w # ws) (a, b, c, d, e) =
     sha1_rounds (Suc t) ws
       (rotl32 5 a + sha1_f t b c d + e + sha1_k t + w, a, rotl32 30 b, c, d)"

fun be_words :: "byte list \<Rightarrow> u32 list" where
  "be_words (a # b # c # d # r) = BigEndian_Uint32 [a, b, c, d] # be_words r"
| "be_words _ = []"

definition sha1_block :: "sha_state \<Rightarrow> byte list \<Rightarrow> sha_state" where
  "sha1_block s block =
     (case s of (a, b, c, d, e) \<Rightarrow>
      (case sha1_rounds 0 (rev (sha1_schedule 64 (rev (be_words block)))) s of
         (a', b', c', d', e') \<Rightarrow> (a + a', b + b', c + c', d + d', e + e')))"

fun sha1_blocks :: "byte list \<Rightarrow> sha_state \<Rightarrow> sha_state" where
  "sha1_blocks [] s = s"
| "sha1_blocks (b # bs) s = sha1_blocks (drop 64 (b # bs)) (sha1_block s (take 64 (b # bs)))"

definition sha1_pad :: "byte list \<Rightarrow> byte list" where
  "sha1_pad m =
     (let bits = word_of_nat (8 * length m) :: 64 word
      in m @ 0x80 # replicate ((55 + 64 - length m mod 64) mod 64) 0
           @ BigEndian_PutUint32 (ucast (drop_bit 32 bits)) @ BigEndian_PutUint32 (ucast bits))"

definition sha1_Sum :: "byte list \<Rightarrow> byte list" where
  "sha1_Sum m =
     (case sha1_blocks (sha1_pad m) (0x67452301, 0xEFCDAB89, 0x98BADCFE, 0x10325476, 0xC3D2E1F0) of
        (a, b, c, d, e) \<Rightarrow> concat (map BigEndian_PutUint32 [a, b, c, d, e]))"

definition uuidOf :: "byte list \<Rightarrow> uuid" where
  "uuidOf wire = take 16 (sha1_Sum wire)"

definition uuidOfString :: "string \<Rightarrow> uuid" where
  "uuidOfString s = take 16 (sha1_Sum (bytes_of_string (''kcmex-cache:'' @ s)))"

lemma length_sha1_Sum [simp]: "length (sha1_Sum m) = 20"
  by (simp add: sha1_Sum_def split: prod.splits)

lemma is_uuid_uuidOf [simp]: "is_uuid (uuidOf wire)"
  by (simp add: is_uuid_def uuidOf_def)

lemma is_uuid_uuidOfString [simp]: "is_uuid (uuidOfString s)"
  by (simp add: is_uuid_def uuidOfString_def)

end
