(* ===== verification/Transitions.thy ===== *)
theory Transitions
  imports Main
begin

text \<open>
  Invariants and termination of transition systems. The concurrent parts of the daemon (the coalescing of requests,
  the pool of contexts, renewals beside requests) are step relations over an explicit state, one step
  per critical section or channel operation; what each theory shows of its system holds in every state
  that any interleaving of steps reaches. The inductions are done here once.
\<close>

locale invariant_system =
  fixes init :: "'s \<Rightarrow> bool"
    and step :: "'s \<Rightarrow> 's \<Rightarrow> bool"
    and inv :: "'s \<Rightarrow> bool"
  assumes init_inv: "init s \<Longrightarrow> inv s"
    and step_inv: "inv s \<Longrightarrow> step s s' \<Longrightarrow> inv s'"
begin

lemma steps_inv: "step\<^sup>*\<^sup>* s s' \<Longrightarrow> inv s \<Longrightarrow> inv s'"
  by (induction rule: rtranclp_induct) (auto dest: step_inv)

lemma reachable_inv: "init s \<Longrightarrow> step\<^sup>*\<^sup>* s s' \<Longrightarrow> inv s'"
  by (blast intro: steps_inv init_inv)

end

text \<open>Systems that come to rest: every step uses up some of the \<open>effort\<close> left, and a state that is not \<open>final\<close>
  can move on. Then no run is longer than the effort at its start, and wherever a run stops, it is at rest.\<close>

locale terminating_system = invariant_system +
  fixes effort :: "'a \<Rightarrow> nat"
    and final :: "'a \<Rightarrow> bool"
  assumes step_effort: "inv s \<Longrightarrow> step s s' \<Longrightarrow> effort s' < effort s"
    and progress: "inv s \<Longrightarrow> \<not> final s \<Longrightarrow> \<exists>s'. step s s'"
begin

lemma run_effort: "(step ^^ k) s s' \<Longrightarrow> inv s \<Longrightarrow> inv s' \<and> k + effort s' \<le> effort s"
proof (induction k arbitrary: s')
  case (Suc k)
  then obtain m where "(step ^^ k) s m" "step m s'" by auto
  with Suc show ?case by (fastforce dest: step_inv step_effort)
qed simp

lemma run_stops: "(step ^^ k) s s' \<Longrightarrow> inv s \<Longrightarrow> k \<le> effort s \<and> (final s' \<or> (\<exists>s''. step s' s''))"
  using run_effort progress by (metis add_leD1)

lemma reaches_final: "inv s \<Longrightarrow> \<exists>s'. step\<^sup>*\<^sup>* s s' \<and> final s'"
proof (induction "effort s" arbitrary: s rule: less_induct)
  case less
  then show ?case by (metis step_inv step_effort progress rtranclp.rtrancl_refl converse_rtranclp_into_rtranclp)
qed

end

end
