(* ===== verification/Go_Time.thy ===== *)
theory Go_Time
  imports Kcm_Prelude
begin

text \<open>
  Go's \<^verbatim>\<open>time\<close> package as the program uses it. An instant is a number of nanoseconds since the
  Unix epoch; the zero \<^verbatim>\<open>time.Time\<close> is January 1 of year 1. A \<^verbatim>\<open>Duration\<close> is a 64-bit number of
  nanoseconds, so \<^verbatim>\<open>Sub\<close> saturates. Wall and monotonic readings are one clock here.
\<close>

datatype gotime = GoTime (nanos: int)

instantiation gotime :: linorder
begin

definition less_eq_gotime :: "gotime \<Rightarrow> gotime \<Rightarrow> bool" where
  "t \<le> u \<longleftrightarrow> nanos t \<le> nanos u"

definition less_gotime :: "gotime \<Rightarrow> gotime \<Rightarrow> bool" where
  "t < u \<longleftrightarrow> nanos t < nanos u"

instance
  by standard (auto simp: less_eq_gotime_def less_gotime_def gotime.expand)

end

lemmas gotime_order = less_eq_gotime_def less_gotime_def

type_synonym duration = int

definition Second :: duration where "Second = 10 ^ 9"
definition Minute :: duration where "Minute = 60 * Second"
definition minDuration :: duration where "minDuration = - (2 ^ 63)"
definition maxDuration :: duration where "maxDuration = 2 ^ 63 - 1"

definition zeroTime :: gotime where "zeroTime = GoTime (- 62135596800 * Second)"

definition IsZero :: "gotime \<Rightarrow> bool" where "IsZero t \<longleftrightarrow> t = zeroTime"

definition Before :: "gotime \<Rightarrow> gotime \<Rightarrow> bool" where "Before t u \<longleftrightarrow> t < u"

definition After :: "gotime \<Rightarrow> gotime \<Rightarrow> bool" where "After t u \<longleftrightarrow> u < t"

definition Add :: "gotime \<Rightarrow> duration \<Rightarrow> gotime" where "Add t d = GoTime (nanos t + d)"

definition Sub :: "gotime \<Rightarrow> gotime \<Rightarrow> duration" where
  "Sub t u = max minDuration (min maxDuration (nanos t - nanos u))"

text \<open>Integer division by two truncates towards zero.\<close>

definition half :: "duration \<Rightarrow> duration" where
  "half d = sgn d * (\<bar>d\<bar> div 2)"

text \<open>\<^verbatim>\<open>krbTime\<close> of \<^verbatim>\<open>krb5c.go\<close>: a Kerberos timestamp is an unsigned 32-bit number of seconds; zero
  means unset.\<close>

definition krbTime :: "i32 \<Rightarrow> gotime" where
  "krbTime ts = (if ts = 0 then zeroTime else GoTime (uint ts * Second))"

lemmas time_defs = Second_def Minute_def minDuration_def maxDuration_def zeroTime_def
  IsZero_def Before_def After_def Add_def

lemma nanos_Add [simp]: "nanos (Add t d) = nanos t + d"
  by (simp add: Add_def)

lemma gotime_eqI: "nanos t = nanos u \<Longrightarrow> t = u"
  by (simp add: gotime.expand)

lemma half_nonneg: "0 \<le> d \<Longrightarrow> half d = d div 2"
  by (simp add: half_def sgn_if)

lemma nanos_krbTime_less: "nanos (krbTime ts) < 2 ^ 32 * Second"
  using unsigned_less [of ts, where ?'a = int] by (simp add: krbTime_def time_defs)

lemma nanos_krbTime_nonneg: "ts \<noteq> 0 \<Longrightarrow> 0 \<le> nanos (krbTime ts)"
  by (simp add: krbTime_def time_defs)

lemma Sub_exact:
  "minDuration \<le> nanos t - nanos u \<Longrightarrow> nanos t - nanos u \<le> maxDuration \<Longrightarrow>
     Sub t u = nanos t - nanos u"
  by (simp add: Sub_def)

text \<open>Differences of two set Kerberos times never saturate.\<close>

lemma Sub_krbTime:
  "a \<noteq> 0 \<Longrightarrow> b \<noteq> 0 \<Longrightarrow> Sub (krbTime a) (krbTime b) = nanos (krbTime a) - nanos (krbTime b)"
  using nanos_krbTime_less [of a] nanos_krbTime_less [of b] nanos_krbTime_nonneg [of a]
    nanos_krbTime_nonneg [of b]
  by (intro Sub_exact) (simp_all add: time_defs)

lemma krbTime_inject: "krbTime a = krbTime b \<longleftrightarrow> a = b"
proof
  assume eq: "krbTime a = krbTime b"
  show "a = b"
  proof (cases "a = 0 \<or> b = 0")
    case True
    have "krbTime x \<noteq> zeroTime" if "x \<noteq> 0" for x
      using nanos_krbTime_nonneg [OF that] by (auto simp: time_defs)
    with eq True show ?thesis by (metis krbTime_def)
  next
    case False
    with eq show ?thesis by (simp add: krbTime_def time_defs word_uint_eq_iff)
  qed
qed simp

text \<open>The sign of a saturating difference is the order of the instants.\<close>

lemma Sub_le_0: "Sub t u \<le> 0 \<longleftrightarrow> t \<le> u"
  by (auto simp: Sub_def time_defs gotime_order)

lemma Sub_less: "0 \<le> d \<Longrightarrow> d \<le> maxDuration \<Longrightarrow> Sub t u < d \<longleftrightarrow> nanos t - nanos u < d"
  by (auto simp: Sub_def time_defs)

end
