(* ===== verification/Policy.thy ===== *)
theory Policy
  imports Go_Time Principal
begin

text \<open>
  \<^verbatim>\<open>internal/krb5c/policy.go\<close>: what the daemon remembers about its ticket-granting ticket, when it
  renews it, how it backs off, when the maintenance loop wakes, and what counts as the local TGT.
  The Go \<^verbatim>\<open>Client\<close> fields these functions read and write are the record \<open>client\<close>.
\<close>

definition tktFlgRenewable :: i32 where "tktFlgRenewable = 0x00800000"

definition maxSleep :: duration where "maxSleep = 10 * Minute"
definition minBackoff :: duration where "minBackoff = 30 * Second"
definition maxBackoff :: duration where "maxBackoff = 10 * Minute"
definition fileCheckInterval :: duration where "fileCheckInterval = 5 * Second"

lemmas policy_consts = maxSleep_def minBackoff_def maxBackoff_def fileCheckInterval_def

record tgtInfo =
  ti_wire :: "byte list"
  ti_client :: principal
  ti_server :: principal
  ti_flags :: i32
  ti_authTime :: gotime
  ti_startTime :: gotime
  ti_endTime :: gotime
  ti_renewTill :: gotime

text \<open>
  The state a \<^verbatim>\<open>Client\<close> keeps outside libkrb5. \<^verbatim>\<open>c.tgt\<close> is a pointer that the renewal code
  compares for identity, so the field holds an address with the record it points to; \<open>next_tgt\<close> is
  the next address to hand out. \<open>cap_sem\<close> is the capacity of the channels \<^verbatim>\<open>sem\<close> and \<^verbatim>\<open>free\<close>, and
  \<open>idle\<close> counts the contexts in the \<^verbatim>\<open>free\<close> channel. The logger is not modelled; \<^verbatim>\<open>closeOnce\<close>,
  \<^verbatim>\<open>mu\<close> and \<^verbatim>\<open>flights\<close> are the subject of the theories on concurrency.
\<close>

record client =
  cap_sem :: nat
  minLife :: duration
  srcPath :: string
  ownerUID :: int
  lastFileCheck :: gotime
  tgt :: "(nat \<times> tgtInfo) option"
  renewRetryAt :: gotime
  renewBackoff :: duration
  renewing :: bool
  idle :: nat
  next_tgt :: nat

definition renewable :: "tgtInfo \<Rightarrow> bool" where
  "renewable t \<longleftrightarrow> ti_flags t AND tktFlgRenewable \<noteq> 0 \<and> After (ti_renewTill t) (ti_endTime t)"

definition expired :: "tgtInfo \<Rightarrow> gotime \<Rightarrow> bool" where
  "expired t now \<longleftrightarrow> \<not> Before now (ti_endTime t)"

definition remaining :: "tgtInfo \<Rightarrow> gotime \<Rightarrow> duration" where
  "remaining t now = Sub (ti_endTime t) now"

definition canRenew :: "tgtInfo \<Rightarrow> gotime \<Rightarrow> bool" where
  "canRenew t now \<longleftrightarrow> renewable t \<and> \<not> expired t now"

definition renewPoint :: "tgtInfo \<Rightarrow> gotime" where
  "renewPoint t =
     (let start = (if IsZero (ti_startTime t) then ti_authTime t else ti_startTime t)
      in Add start (half (Sub (ti_endTime t) start)))"

definition renewDue :: "tgtInfo \<Rightarrow> gotime \<Rightarrow> bool" where
  "renewDue t now \<longleftrightarrow> canRenew t now \<and> \<not> Before now (renewPoint t)"

definition nextWake :: "client \<Rightarrow> gotime \<Rightarrow> gotime" where
  "nextWake c now =
     (let at1 = Add now maxSleep;
          at2 = (case tgt c of
                   None \<Rightarrow> at1
                 | Some (_, t) \<Rightarrow>
                     if canRenew t now
                     then let p = renewPoint t in if \<not> After p now then renewRetryAt c else p
                     else at1);
          at3 = (if After at2 (Add now maxSleep) then Add now maxSleep else at2)
      in if \<not> After at3 now then Add now Second else at3)"

definition noteRenewFailure :: "gotime \<Rightarrow> client \<Rightarrow> client" where
  "noteRenewFailure now c =
     (let b = (if renewBackoff c = 0 then minBackoff
               else let d = renewBackoff c * 2 in if d > maxBackoff then maxBackoff else d)
      in c\<lparr>renewBackoff := b, renewRetryAt := Add now b\<rparr>)"

definition resetRenewBackoff :: "client \<Rightarrow> client" where
  "resetRenewBackoff c = c\<lparr>renewBackoff := 0, renewRetryAt := zeroTime\<rparr>"

text \<open>\<^verbatim>\<open>os.Stat\<close> of a path: an error, or the owning uid when the platform reports one.\<close>

type_synonym stat_result = "goerror + int option"

definition fileOwner :: "stat_result \<Rightarrow> goerror + int" where
  "fileOwner st = (case st of Inl err \<Rightarrow> Inl err | Inr None \<Rightarrow> Inr (- 1) | Inr (Some uid) \<Rightarrow> Inr uid)"

definition isTGTServer :: "principal \<Rightarrow> bool" where
  "isTGTServer server \<longleftrightarrow> length (Components server) = 2 \<and> Components server ! 0 = ''krbtgt''"

definition isLocalTGT :: "principal \<Rightarrow> principal \<Rightarrow> bool" where
  "isLocalTGT client server \<longleftrightarrow>
     isTGTServer server \<and> Components server ! 1 = Realm server \<and> Realm server = Realm client"

section \<open>Renewal timing\<close>

text \<open>When the effective start and the end are within 292 years of each other (always, for two set
  Kerberos times), the renewal point is the middle of the lifetime.\<close>

definition effectiveStart :: "tgtInfo \<Rightarrow> gotime" where
  "effectiveStart t = (if IsZero (ti_startTime t) then ti_authTime t else ti_startTime t)"

lemma renewPoint_midpoint:
  assumes "effectiveStart t \<le> ti_endTime t"
    and "nanos (ti_endTime t) - nanos (effectiveStart t) \<le> maxDuration"
  shows "nanos (renewPoint t)
           = nanos (effectiveStart t) + (nanos (ti_endTime t) - nanos (effectiveStart t)) div 2"
proof -
  have "Sub (ti_endTime t) (effectiveStart t) = nanos (ti_endTime t) - nanos (effectiveStart t)"
    using assms by (intro Sub_exact) (simp_all add: gotime_order time_defs)
  with assms show ?thesis
    by (simp add: renewPoint_def effectiveStart_def [symmetric] half_nonneg gotime_order Let_def)
qed

text \<open>When a TGT is renewed. A renewable TGT whose lifetime is at most 292 years is due for
  renewal exactly from the middle of its lifetime (start time, or authentication time when the
  start is unset) until it expires; a TGT the KDC did not mark renewable, or whose renewable
  lifetime does not outlast it, never is.\<close>

lemma renewDue_iff:
  assumes "effectiveStart t \<le> ti_endTime t"
    and "nanos (ti_endTime t) - nanos (effectiveStart t) \<le> maxDuration"
  shows "renewDue t now \<longleftrightarrow>
           ti_flags t AND tktFlgRenewable \<noteq> 0 \<and> ti_endTime t < ti_renewTill t \<and>
           nanos (effectiveStart t) + (nanos (ti_endTime t) - nanos (effectiveStart t)) div 2 \<le> nanos now \<and>
           now < ti_endTime t"
  using renewPoint_midpoint [OF assms]
  by (auto simp: renewDue_def canRenew_def renewable_def expired_def time_defs gotime_order)

definition tgt_example :: tgtInfo where
  "tgt_example =
     \<lparr>ti_wire = [], ti_client = \<lparr>Type = 1, Realm = ''R'', Components = [''alice'']\<rparr>,
      ti_server = \<lparr>Type = 2, Realm = ''R'', Components = [''krbtgt'', ''R'']\<rparr>,
      ti_flags = 0x00800000, ti_authTime = GoTime 0, ti_startTime = GoTime 0,
      ti_endTime = GoTime (36000 * Second), ti_renewTill = GoTime (86400 * Second)\<rparr>"

lemmas policy_defs = nextWake_def canRenew_def renewable_def expired_def renewPoint_def Let_def

text \<open>The maintenance loop always sleeps, and never for more than ten minutes: whatever the
  client's state, the next wake-up lies strictly after now and at most \<^verbatim>\<open>maxSleep\<close> later.\<close>

lemma nextWake_bounds: "now < nextWake c now \<and> nextWake c now \<le> Add now maxSleep"
  by (auto simp: nextWake_def Let_def gotime_order time_defs maxSleep_def split: option.splits)

lemma nextWake_healthy:
  assumes "tgt c = Some (a, t)" "renewable t" "now < renewPoint t" "renewPoint t < ti_endTime t"
  shows "nextWake c now = (if nanos (renewPoint t) \<le> nanos now + maxSleep then renewPoint t
                           else Add now maxSleep)"
  using assms
  by (auto simp: nextWake_def canRenew_def expired_def Let_def gotime_order time_defs maxSleep_def
      intro: gotime_eqI)

text \<open>C34: no renewal window is slept over. With a healthy renewable TGT, repeatedly sleeping until
  \<^verbatim>\<open>nextWake\<close> reaches a wake-up at exactly the renewal point, where the renewal is due.\<close>

theorem nextWake_reaches_renewal:
  assumes "tgt c = Some (a, t)" "renewable t" "now < renewPoint t" "renewPoint t < ti_endTime t"
  shows "\<exists>n. (nextWake c ^^ n) now = renewPoint t \<and> renewDue t ((nextWake c ^^ n) now)"
proof -
  define k where "k = nat ((nanos (renewPoint t) - nanos now) div maxSleep)"
  have due: "renewDue t (renewPoint t)"
    using assms by (simp add: renewDue_def canRenew_def expired_def time_defs gotime_order)
  have "\<exists>n. (nextWake c ^^ n) now = renewPoint t"
    using assms(3) k_def
  proof (induction k arbitrary: now)
    case 0
    then have "nanos (renewPoint t) \<le> nanos now + maxSleep"
      by (auto simp: maxSleep_def time_defs gotime_order)
    with 0 assms have "(nextWake c ^^ 1) now = renewPoint t"
      by (simp add: nextWake_healthy)
    then show ?case by blast
  next
    case (Suc k)
    show ?case
    proof (cases "nanos (renewPoint t) \<le> nanos now + maxSleep")
      case True
      with Suc.prems assms have "(nextWake c ^^ 1) now = renewPoint t"
        by (simp add: nextWake_healthy)
      then show ?thesis by blast
    next
      case False
      then have "Add now maxSleep < renewPoint t" by (simp add: gotime_order)
      moreover have "k = nat ((nanos (renewPoint t) - nanos (Add now maxSleep)) div maxSleep)"
        using Suc.prems False by (simp add: maxSleep_def time_defs)
      ultimately obtain n where "(nextWake c ^^ n) (Add now maxSleep) = renewPoint t"
        using Suc.IH by blast
      moreover have "nextWake c now = Add now maxSleep"
        using False Suc.prems assms by (simp add: nextWake_healthy)
      ultimately have "(nextWake c ^^ Suc n) now = renewPoint t"
        by (simp only: funpow_Suc_right comp_apply)
      then show ?thesis by blast
    qed
  qed
  with due show ?thesis by metis
qed

definition client_example :: client where
  "client_example =
     \<lparr>cap_sem = 16, minLife = 5 * Minute, srcPath = ''/tmp/krb5cc_1000'', ownerUID = 1000, lastFileCheck = zeroTime,
      tgt = Some (0, tgt_example), renewRetryAt = zeroTime, renewBackoff = 0, renewing = False,
      idle = 1, next_tgt = 1\<rparr>"

theorem nextWake_reaches_renewal_witness:
  "\<exists>n. (nextWake client_example ^^ n) (GoTime 0) = renewPoint tgt_example \<and>
       renewDue tgt_example ((nextWake client_example ^^ n) (GoTime 0))"
  by (rule nextWake_reaches_renewal [where a = 0])
    (simp_all add: client_example_def tgt_example_def renewable_def renewPoint_def Sub_def half_def
      time_defs gotime_order tktFlgRenewable_def Let_def)

section \<open>Backoff\<close>

lemma noteRenewFailure_fields [simp]:
  "tgt (noteRenewFailure now c) = tgt c" "renewing (noteRenewFailure now c) = renewing c"
  "minLife (noteRenewFailure now c) = minLife c" "lastFileCheck (noteRenewFailure now c) = lastFileCheck c"
  "next_tgt (noteRenewFailure now c) = next_tgt c" "idle (noteRenewFailure now c) = idle c"
  "srcPath (noteRenewFailure now c) = srcPath c" "ownerUID (noteRenewFailure now c) = ownerUID c"
  "cap_sem (noteRenewFailure now c) = cap_sem c"
  by (simp_all add: noteRenewFailure_def Let_def)

lemma resetRenewBackoff_fields [simp]:
  "tgt (resetRenewBackoff c) = tgt c" "renewing (resetRenewBackoff c) = renewing c"
  "minLife (resetRenewBackoff c) = minLife c" "lastFileCheck (resetRenewBackoff c) = lastFileCheck c"
  "next_tgt (resetRenewBackoff c) = next_tgt c" "idle (resetRenewBackoff c) = idle c"
  "srcPath (resetRenewBackoff c) = srcPath c" "ownerUID (resetRenewBackoff c) = ownerUID c"
  "cap_sem (resetRenewBackoff c) = cap_sem c"
  by (simp_all add: resetRenewBackoff_def)

lemma backoff_step:
  assumes "renewBackoff c = min maxBackoff (minBackoff * 2 ^ n)"
  shows "renewBackoff (noteRenewFailure now c) = min maxBackoff (minBackoff * 2 ^ Suc n)"
proof -
  have "(1::int) \<le> 2 ^ n" by simp
  then have "0 < renewBackoff c"
    using assms by (simp add: policy_consts time_defs)
  then show ?thesis
    using assms by (auto simp: noteRenewFailure_def Let_def policy_consts time_defs min_def)
qed

text \<open>Exponential backoff. After any number of consecutive renewal failures since the last
  reset, the delay is 30 seconds doubled for each failure after the first, capped at ten minutes,
  and the next attempt is allowed that long after the last failure.\<close>

lemma noteRenewFailure_backoff:
  assumes "nows \<noteq> []"
  shows "renewBackoff (fold noteRenewFailure nows (resetRenewBackoff c))
           = min (10 * Minute) (30 * Second * 2 ^ (length nows - 1)) \<and>
         renewRetryAt (fold noteRenewFailure nows (resetRenewBackoff c))
           = Add (last nows) (renewBackoff (fold noteRenewFailure nows (resetRenewBackoff c)))"
  using assms
proof (induction nows rule: rev_nonempty_induct)
  case (single now)
  then show ?case
    by (simp add: noteRenewFailure_def resetRenewBackoff_def Let_def policy_consts time_defs)
next
  case (snoc now nows)
  let ?c = "fold noteRenewFailure nows (resetRenewBackoff c)"
  have "renewBackoff ?c = min maxBackoff (minBackoff * 2 ^ (length nows - 1))"
    using snoc by (simp add: policy_consts)
  then have "renewBackoff (noteRenewFailure now ?c)
      = min maxBackoff (minBackoff * 2 ^ Suc (length nows - 1))"
    by (rule backoff_step)
  then have "renewBackoff (noteRenewFailure now ?c) = min maxBackoff (minBackoff * 2 ^ length nows)"
    using snoc by (cases nows) simp_all
  moreover have "renewRetryAt (noteRenewFailure now ?c) = Add now (renewBackoff (noteRenewFailure now ?c))"
    by (simp add: noteRenewFailure_def Let_def)
  ultimately show ?case by (simp add: policy_consts)
qed

end
