(* ===== verification/Krb5_Lib.thy ===== *)
theory Krb5_Lib
  imports Policy Match_Cred
begin

text \<open>
  The MIT library libkrb5 is not part of the repository: it is the parameter \<open>L\<close> of the model, a
  record with one function per C entry point the program calls, over an arbitrary state \<open>'w\<close> that
  holds every credential cache of the process, the files and the KDC. A call that returns a nonzero
  code and no result is \<open>Inl code\<close>; a call that changes the state returns its code (0 on success)
  and the new state. A \<^verbatim>\<open>krb5_ccache\<close> handle is the name it was resolved from. The cursor calls
  \<^verbatim>\<open>krb5_cc_start_seq_get\<close>, \<^verbatim>\<open>krb5_cc_next_cred\<close> and \<^verbatim>\<open>krb5_cc_end_seq_get\<close> are one function, which
  gives the credentials the cursor yields in order, the code that ends the sequence, and the code of
  closing it.

  The theory also holds the thin wrappers of \<^verbatim>\<open>internal/krb5c/krb5c.go\<close> around these calls.
\<close>

record krb5_principal =
  kp_type :: i32
  kp_realm :: string
  kp_data :: "string list"

record krb5_creds =
  cr_client :: "krb5_principal option"
  cr_server :: "krb5_principal option"
  cr_enctype :: i32
  cr_key :: "byte list"
  cr_authtime :: i32
  cr_starttime :: i32
  cr_endtime :: i32
  cr_renew_till :: i32
  cr_is_skey :: bool
  cr_ticket_flags :: i32
  cr_addresses :: typed_data
  cr_authdata :: typed_data
  cr_ticket :: "byte list"
  cr_second_ticket :: "byte list"

record 'w krb5_lib =
  krb5_init_context :: "'w \<Rightarrow> i32"
  krb5_get_error_message :: "i32 \<Rightarrow> string"
  krb5_parse_name :: "string \<Rightarrow> i32 + krb5_principal"
  krb5_is_config_principal :: "krb5_principal option \<Rightarrow> bool"
  krb5_marshal_credentials :: "krb5_creds \<Rightarrow> i32 + byte list"
  krb5_unmarshal_credentials :: "byte list \<Rightarrow> i32 + krb5_creds"
  krb5_cc_resolve :: "string \<Rightarrow> 'w \<Rightarrow> i32"
  krb5_cc_get_principal :: "string \<Rightarrow> 'w \<Rightarrow> i32 + krb5_principal"
  krb5_cc_initialize :: "string \<Rightarrow> krb5_principal option \<Rightarrow> 'w \<Rightarrow> i32 \<times> 'w"
  krb5_cc_destroy :: "string \<Rightarrow> 'w \<Rightarrow> 'w"
  krb5_cc_store_cred :: "string \<Rightarrow> krb5_creds \<Rightarrow> 'w \<Rightarrow> i32 \<times> 'w"
  krb5_cc_remove_cred :: "string \<Rightarrow> i32 \<Rightarrow> krb5_creds \<Rightarrow> 'w \<Rightarrow> i32 \<times> 'w"
  krb5_cc_seq_get :: "string \<Rightarrow> 'w \<Rightarrow> i32 + krb5_creds list \<times> i32 \<times> i32"
  krb5_get_credentials :: "i32 \<Rightarrow> string \<Rightarrow> krb5_creds \<Rightarrow> 'w \<Rightarrow> (i32 + krb5_creds) \<times> 'w"
  krb5_get_renewed_creds :: "krb5_principal option \<Rightarrow> string \<Rightarrow> 'w \<Rightarrow> (i32 + krb5_creds) \<times> 'w"
  KRB5_TC_MATCH_TIMES_EXACT :: i32
  os_Stat :: "string \<Rightarrow> 'w \<Rightarrow> stat_result"

section \<open>Reply codes and errors\<close>

definition CCNotFound :: i32 where "CCNotFound = word_of_int (- 1765328243)"
definition CCEnd :: i32 where "CCEnd = word_of_int (- 1765328242)"
definition FCCPerm :: i32 where "FCCPerm = word_of_int (- 1765328190)"
definition CCNoSupp :: i32 where "CCNoSupp = word_of_int (- 1765328137)"
definition TktExpired :: i32 where "TktExpired = word_of_int (- 1765328352)"

lemmas code_defs = CCNotFound_def CCEnd_def FCCPerm_def CCNoSupp_def TktExpired_def

lemma codes_distinct [simp]:
  "CCNotFound \<noteq> 0" "CCEnd \<noteq> 0" "FCCPerm \<noteq> 0" "CCNoSupp \<noteq> 0" "TktExpired \<noteq> 0"
  "CCNotFound \<noteq> CCEnd" "FCCPerm \<noteq> CCNoSupp" "TktExpired \<noteq> CCNoSupp" "CCNotFound \<noteq> CCNoSupp"
  by (simp_all add: code_defs)

definition workingCacheName :: string where "workingCacheName = ''MEMORY:kcmex''"
definition renewCacheName :: string where "renewCacheName = ''MEMORY:kcmex-renew''"

definition krbErr :: "'w krb5_lib \<Rightarrow> i32 \<Rightarrow> goerror" where
  "krbErr L code = KrbError code (krb5_get_error_message L code)"

definition newError :: "'w krb5_lib \<Rightarrow> i32 \<Rightarrow> goerror option" where
  "newError L code = (if code = 0 then None else Some (krbErr L code))"

section \<open>Contexts\<close>

text \<open>\<^verbatim>\<open>newKctx\<close> (\<open>None\<close>: success), and the context pool as one operation sees it once the semaphore
  has granted it a slot: an idle context is reused, or a new one made.\<close>

definition newKctx :: "'w krb5_lib \<Rightarrow> 'w \<Rightarrow> goerror option" where
  "newKctx L w =
     (let code = krb5_init_context L w in
      if code \<noteq> 0
      then Some (PlainError (''krb5_init_context failed (code '' @ fmt_int (sint code) @ '')''))
      else let code = krb5_cc_resolve L workingCacheName w in
           if code \<noteq> 0 then Some (WrapError ''resolving working cache: '' (krbErr L code))
           else None)"

definition acquire :: "'w krb5_lib \<Rightarrow> client \<Rightarrow> 'w \<Rightarrow> goerror + client" where
  "acquire L c w =
     (if 0 < idle c then Inr (c\<lparr>idle := idle c - 1\<rparr>)
      else (case newKctx L w of Some err \<Rightarrow> Inl err | None \<Rightarrow> Inr c))"

definition release :: "client \<Rightarrow> client" where
  "release c = c\<lparr>idle := Suc (idle c)\<rparr>"

section \<open>Principals and credentials across the C boundary\<close>

definition readPrincipal :: "krb5_principal option \<Rightarrow> principal" where
  "readPrincipal princ =
     (case princ of
        None \<Rightarrow> no_principal
      | Some p \<Rightarrow> \<lparr>Type = kp_type p, Realm = kp_realm p, Components = kp_data p\<rparr>)"

text \<open>What C reads of \<^verbatim>\<open>C.CString(s)\<close>: the bytes before the first NUL.\<close>

definition CString :: "string \<Rightarrow> string" where
  "CString s = takeWhile (\<lambda>c. c \<noteq> CHR 0x00) s"

definition parseName :: "'w krb5_lib \<Rightarrow> string \<Rightarrow> goerror + krb5_principal" where
  "parseName L name =
     (case krb5_parse_name L (CString name) of
        Inl code \<Rightarrow> Inl (krbErr L code)
      | Inr princ \<Rightarrow> Inr princ)"

definition buildPrincipal :: "'w krb5_lib \<Rightarrow> principal \<Rightarrow> goerror + krb5_principal" where
  "buildPrincipal L p = parseName L (UnparseName p)"

definition marshalCreds :: "'w krb5_lib \<Rightarrow> krb5_creds \<Rightarrow> goerror + byte list" where
  "marshalCreds L creds =
     (case krb5_marshal_credentials L creds of
        Inl code \<Rightarrow> Inl (krbErr L code)
      | Inr data \<Rightarrow> Inr data)"

definition unmarshalCreds :: "'w krb5_lib \<Rightarrow> byte list \<Rightarrow> goerror + krb5_creds" where
  "unmarshalCreds L wire =
     (case krb5_unmarshal_credentials L wire of
        Inl code \<Rightarrow> Inl (krbErr L code)
      | Inr creds \<Rightarrow> Inr creds)"

text \<open>Is this credential the local TGT of its own client? The test \<^verbatim>\<open>isLocalTGT\<close> on the two
  principals, as every caller makes it.\<close>

definition local_tgt :: "krb5_creds \<Rightarrow> bool" where
  "local_tgt cred = isLocalTGT (readPrincipal (cr_client cred)) (readPrincipal (cr_server cred))"

definition marshalTGTForListing :: "'w krb5_lib \<Rightarrow> client \<Rightarrow> krb5_creds \<Rightarrow> goerror + byte list" where
  "marshalTGTForListing L c creds =
     (let creds = creds\<lparr>cr_key := []\<rparr>;
          creds = (case tgt c of
                     Some (_, t) \<Rightarrow>
                       if local_tgt creds then creds\<lparr>cr_ticket_flags := ti_flags t\<rparr> else creds
                   | None \<Rightarrow> creds)
      in marshalCreds L creds)"

definition tgtInfoFrom :: "'w krb5_lib \<Rightarrow> krb5_creds \<Rightarrow> goerror + tgtInfo" where
  "tgtInfoFrom L cred =
     (case marshalCreds L cred of
        Inl err \<Rightarrow> Inl err
      | Inr wire \<Rightarrow>
          Inr \<lparr>ti_wire = wire,
               ti_client = readPrincipal (cr_client cred), ti_server = readPrincipal (cr_server cred),
               ti_flags = cr_ticket_flags cred,
               ti_authTime = krbTime (cr_authtime cred), ti_startTime = krbTime (cr_starttime cred),
               ti_endTime = krbTime (cr_endtime cred), ti_renewTill = krbTime (cr_renew_till cred)\<rparr>)"

text \<open>The copy of the TGT that goes into the working cache.\<close>

definition clear_renewable :: "krb5_creds \<Rightarrow> krb5_creds" where
  "clear_renewable cred = cred\<lparr>cr_ticket_flags := cr_ticket_flags cred AND NOT tktFlgRenewable\<rparr>"

definition storeTGT :: "'w krb5_lib \<Rightarrow> krb5_creds \<Rightarrow> 'w \<Rightarrow> goerror option \<times> 'w" where
  "storeTGT L cred w =
     (case krb5_cc_store_cred L workingCacheName (clear_renewable cred) w of
        (code, w) \<Rightarrow> (newError L code, w))"

definition removeCredExact :: "'w krb5_lib \<Rightarrow> byte list \<Rightarrow> 'w \<Rightarrow> goerror option \<times> 'w" where
  "removeCredExact L wire w =
     (case unmarshalCreds L wire of
        Inl err \<Rightarrow> (Some err, w)
      | Inr creds \<Rightarrow>
     (case krb5_cc_remove_cred L workingCacheName (KRB5_TC_MATCH_TIMES_EXACT L) creds w of
        (code, w) \<Rightarrow> if code = CCNotFound then (None, w) else (newError L code, w)))"

lemma CString_UnparseName [simp]: "CString (UnparseName p) = UnparseName p"
  using UnparseName_no_NUL [of p] by (auto simp: CString_def takeWhile_eq_all_conv)

lemma clear_renewable_flag [simp]: "cr_ticket_flags (clear_renewable cred) AND tktFlgRenewable = 0"
  by (simp add: clear_renewable_def and.assoc)

lemma clear_renewable_fields [simp]:
  "cr_client (clear_renewable cr) = cr_client cr" "cr_server (clear_renewable cr) = cr_server cr"
  "cr_authtime (clear_renewable cr) = cr_authtime cr" "cr_starttime (clear_renewable cr) = cr_starttime cr"
  "cr_endtime (clear_renewable cr) = cr_endtime cr" "cr_renew_till (clear_renewable cr) = cr_renew_till cr"
  "local_tgt (clear_renewable cr) = local_tgt cr"
  by (simp_all add: clear_renewable_def local_tgt_def)

lemma tgtInfoFrom_Inr:
  assumes "tgtInfoFrom L cred = Inr info"
  shows "marshalCreds L cred = Inr (ti_wire info)" "ti_client info = readPrincipal (cr_client cred)"
    "ti_server info = readPrincipal (cr_server cred)" "ti_flags info = cr_ticket_flags cred"
    "ti_endTime info = krbTime (cr_endtime cred)" "ti_renewTill info = krbTime (cr_renew_till cred)"
    "ti_authTime info = krbTime (cr_authtime cred)" "ti_startTime info = krbTime (cr_starttime cred)"
  using assms by (auto simp: tgtInfoFrom_def split: sum.splits)

end
