(* ===== verification/Ccache.thy ===== *)
theory Ccache
  imports Krb5_Lib
begin

text \<open>
  What the program relies on of libkrb5's MEMORY caches, as the locale \<open>mem_ccache\<close>: the documented
  effect of each call on the list of credentials and on the default principal of the working cache.
  Memory exhaustion inside a cursor is outside the contract; every other call may fail. The
  wrappers of \<^verbatim>\<open>krb5c.go\<close> and \<^verbatim>\<open>tgt.go\<close> are then characterised once, for every library that keeps it.
\<close>

text \<open>\<^verbatim>\<open>krb5_principal_compare\<close>: the realm and the components; the name type is ignored.\<close>

definition same_principal :: "krb5_principal option \<Rightarrow> krb5_principal option \<Rightarrow> bool" where
  "same_principal p q \<longleftrightarrow>
     Realm (readPrincipal p) = Realm (readPrincipal q) \<and>
     Components (readPrincipal p) = Components (readPrincipal q)"

definition same_times :: "krb5_creds \<Rightarrow> krb5_creds \<Rightarrow> bool" where
  "same_times a b \<longleftrightarrow>
     cr_authtime a = cr_authtime b \<and> cr_starttime a = cr_starttime b \<and>
     cr_endtime a = cr_endtime b \<and> cr_renew_till a = cr_renew_till b"

text \<open>Which entries \<^verbatim>\<open>krb5_cc_remove_cred\<close> removes with the two flag words the program passes.\<close>

definition cred_matches :: "'w krb5_lib \<Rightarrow> i32 \<Rightarrow> krb5_creds \<Rightarrow> krb5_creds \<Rightarrow> bool" where
  "cred_matches L flags m e \<longleftrightarrow>
     same_principal (cr_client m) (cr_client e) \<and> same_principal (cr_server m) (cr_server e) \<and>
     (flags = KRB5_TC_MATCH_TIMES_EXACT L \<longrightarrow> same_times m e)"

abbreviation exact_match :: "'w krb5_lib \<Rightarrow> krb5_creds \<Rightarrow> krb5_creds \<Rightarrow> bool" where
  "exact_match L \<equiv> cred_matches L (KRB5_TC_MATCH_TIMES_EXACT L)"

text \<open>
  The guard on the TGT's cached copy: a local TGT of the cache's own principal is only kept with
  \<^verbatim>\<open>TKT_FLG_RENEWABLE\<close> cleared, so that no service ticket is requested renewable.
\<close>

definition tgt_guarded :: "krb5_principal option \<Rightarrow> krb5_creds \<Rightarrow> bool" where
  "tgt_guarded own e \<longleftrightarrow>
     (local_tgt e \<and> same_principal (cr_client e) own \<longrightarrow> cr_ticket_flags e AND tktFlgRenewable = 0)"

locale mem_ccache =
  fixes L :: "'w krb5_lib"
    and entries :: "'w \<Rightarrow> krb5_creds list"
    and owner :: "'w \<Rightarrow> krb5_principal option"
  assumes seq_get: "krb5_cc_seq_get L workingCacheName w = Inr (entries w, CCEnd, 0)"
    and get_principal: "krb5_cc_get_principal L workingCacheName w = Inr me \<Longrightarrow> owner w = Some me"
    and store_cred:
      "krb5_cc_store_cred L workingCacheName cr w = (code, w') \<Longrightarrow>
         owner w' = owner w \<and> entries w' = (if code = 0 then entries w @ [cr] else entries w)"
    and remove_cred:
      "krb5_cc_remove_cred L workingCacheName flags m w = (code, w') \<Longrightarrow>
         flags = 0 \<or> flags = KRB5_TC_MATCH_TIMES_EXACT L \<Longrightarrow>
         owner w' = owner w \<and> code \<in> {0, CCNotFound} \<and>
         entries w' = filter (\<lambda>e. \<not> cred_matches L flags m e) (entries w)"
    and initialize:
      "krb5_cc_initialize L workingCacheName p w = (code, w') \<Longrightarrow>
         (if code = 0 then owner w' = p \<and> entries w' = []
          else owner w' = owner w \<and> entries w' = entries w)"
    and get_credentials:
      "krb5_get_credentials L flags workingCacheName m w = (r, w') \<Longrightarrow>
         owner w' = owner w \<and>
         (\<exists>new. entries w' = entries w @ new \<and> (\<forall>cr\<in>set new. \<not> local_tgt cr))"
    and scratch_initialize:
      "krb5_cc_initialize L renewCacheName p w = (code, w') \<Longrightarrow>
         owner w' = owner w \<and> entries w' = entries w"
    and scratch_store:
      "krb5_cc_store_cred L renewCacheName cr w = (code, w') \<Longrightarrow>
         owner w' = owner w \<and> entries w' = entries w"
    and scratch_destroy:
      "owner (krb5_cc_destroy L renewCacheName w) = owner w \<and>
       entries (krb5_cc_destroy L renewCacheName w) = entries w"
    and scratch_renew:
      "krb5_get_renewed_creds L p renewCacheName w = (r, w') \<Longrightarrow>
         owner w' = owner w \<and> entries w' = entries w"
    and unmarshal_marshal:
      "krb5_marshal_credentials L cr = Inr wire \<Longrightarrow>
         \<exists>e. krb5_unmarshal_credentials L wire = Inr (cr\<lparr>cr_enctype := e\<rparr>)"
    and config_names:
      "same_principal p q \<Longrightarrow> krb5_is_config_principal L p = krb5_is_config_principal L q"

text \<open>The invariant, over what the cache holds.\<close>

definition cache_guarded ::
  "('w \<Rightarrow> krb5_creds list) \<Rightarrow> ('w \<Rightarrow> krb5_principal option) \<Rightarrow> 'w \<Rightarrow> bool" where
  "cache_guarded entries owner w \<longleftrightarrow> (\<forall>e\<in>set (entries w). tgt_guarded (owner w) e)"

section \<open>Matching\<close>

lemma same_principal_refl [simp]: "same_principal p p"
  by (simp add: same_principal_def)

lemma same_principal_sym: "same_principal p q \<Longrightarrow> same_principal q p"
  by (simp add: same_principal_def)

lemma same_principal_UnparseName:
  "same_principal p q \<Longrightarrow> UnparseName (readPrincipal p) = UnparseName (readPrincipal q)"
  by (simp add: same_principal_def UnparseName_def)

lemma isTGTServer_same:
  "same_principal p q \<Longrightarrow> isTGTServer (readPrincipal p) = isTGTServer (readPrincipal q)"
  by (simp add: same_principal_def isTGTServer_def)

lemma local_tgt_same:
  assumes "same_principal (cr_client a) (cr_client b)" "same_principal (cr_server a) (cr_server b)"
  shows "local_tgt a = local_tgt b"
  using assms by (simp add: local_tgt_def isLocalTGT_def isTGTServer_def same_principal_def)

lemma cred_matches_local_tgt: "cred_matches L flags m e \<Longrightarrow> local_tgt m = local_tgt e"
  by (simp add: cred_matches_def local_tgt_same)

lemma exact_match_refl [simp]: "exact_match L cr cr"
  by (simp add: cred_matches_def same_times_def)

lemma cred_matches_enctype [simp]:
  "cred_matches L flags (m\<lparr>cr_enctype := e\<rparr>) = cred_matches L flags m"
  by (simp add: cred_matches_def same_times_def fun_eq_iff)

lemma local_tgt_enctype [simp]: "local_tgt (cr\<lparr>cr_enctype := e\<rparr>) = local_tgt cr"
  by (simp add: local_tgt_def)

lemma tgt_guarded_clear_renewable [simp]: "tgt_guarded own (clear_renewable cr)"
  by (simp add: tgt_guarded_def)

lemma tgt_guarded_not_local [simp]: "\<not> local_tgt cr \<Longrightarrow> tgt_guarded own cr"
  by (simp add: tgt_guarded_def)

section \<open>The wrappers under the contract\<close>

context mem_ccache
begin

abbreviation guarded :: "'w \<Rightarrow> bool" where
  "guarded \<equiv> cache_guarded entries owner"

lemma unmarshalCreds_marshalCreds:
  "marshalCreds L cr = Inr wire \<Longrightarrow> \<exists>e. unmarshalCreds L wire = Inr (cr\<lparr>cr_enctype := e\<rparr>)"
  using unmarshal_marshal [of cr wire]
  by (auto simp: marshalCreds_def unmarshalCreds_def split: sum.splits)

lemma storeTGT_effect:
  assumes "storeTGT L cr w = (err, w')"
  shows "owner w' = owner w"
    "entries w' = (if err = None then entries w @ [clear_renewable cr] else entries w)"
  using assms store_cred [of "clear_renewable cr" w]
  by (auto simp: storeTGT_def newError_def split: prod.splits if_splits)

lemma removeCredExact_effect:
  assumes "removeCredExact L wire w = (err, w')" "marshalCreds L cr = Inr wire"
  shows "err = None" "owner w' = owner w"
    "entries w' = filter (\<lambda>e. \<not> exact_match L cr e) (entries w)"
proof -
  from assms(2) obtain e where "unmarshalCreds L wire = Inr (cr\<lparr>cr_enctype := e\<rparr>)"
    using unmarshalCreds_marshalCreds by blast
  then show "err = None" "owner w' = owner w"
    "entries w' = filter (\<lambda>e. \<not> exact_match L cr e) (entries w)"
    using assms(1) remove_cred [of "KRB5_TC_MATCH_TIMES_EXACT L" "cr\<lparr>cr_enctype := e\<rparr>" w]
    by (auto simp: removeCredExact_def newError_def split: prod.splits if_splits)
qed

lemma removeCredExact_subset:
  assumes "removeCredExact L wire w = (err, w')"
  shows "owner w' = owner w" "set (entries w') \<subseteq> set (entries w)"
  using assms remove_cred [of "KRB5_TC_MATCH_TIMES_EXACT L" _ w]
  by (fastforce simp: removeCredExact_def split: sum.splits prod.splits if_splits)+

lemma guarded_subset:
  "guarded w \<Longrightarrow> owner w' = owner w \<Longrightarrow> set (entries w') \<subseteq> set (entries w) \<Longrightarrow> guarded w'"
  by (auto simp: cache_guarded_def)

lemma guarded_removeCredExact: "guarded w \<Longrightarrow> removeCredExact L wire w = (err, w') \<Longrightarrow> guarded w'"
  using guarded_subset removeCredExact_subset by blast

lemma guarded_storeTGT: "guarded w \<Longrightarrow> storeTGT L cr w = (err, w') \<Longrightarrow> guarded w'"
  using storeTGT_effect [of cr w err w'] by (auto simp: cache_guarded_def)

lemma guarded_store_cred:
  "guarded w \<Longrightarrow> krb5_cc_store_cred L workingCacheName cr w = (code, w') \<Longrightarrow>
     tgt_guarded (owner w) cr \<Longrightarrow> guarded w'"
  using store_cred [of cr w code w'] by (auto simp: cache_guarded_def)

lemma guarded_remove_cred:
  "guarded w \<Longrightarrow> krb5_cc_remove_cred L workingCacheName 0 m w = (code, w') \<Longrightarrow> guarded w'"
  using remove_cred [of 0 m w code w'] by (auto simp: cache_guarded_def)

lemma guarded_initialize:
  "guarded w \<Longrightarrow> krb5_cc_initialize L workingCacheName p w = (code, w') \<Longrightarrow> guarded w'"
  using initialize [of p w code w'] by (auto simp: cache_guarded_def split: if_splits)

lemma guarded_get_credentials:
  "guarded w \<Longrightarrow> krb5_get_credentials L flags workingCacheName m w = (r, w') \<Longrightarrow> guarded w'"
  using get_credentials [of flags m w r w'] by (auto simp: cache_guarded_def)

end

end
