(* ===== verification/Client.thy ===== *)
theory Client
  imports Ccache
begin

text \<open>
  The Kerberos engine's own state changes: opening the client from a FILE ccache
  (\<^verbatim>\<open>internal/krb5c/krb5c.go\<close>) and the lifetime management of \<^verbatim>\<open>internal/krb5c/tgt.go\<close> (swapping the
  TGT, renewing it, adopting a newer one from the file, evicting stale tickets, the background loop).

  An operation takes and returns the client \<open>c\<close> and the library state \<open>w\<close>; \<^verbatim>\<open>time.Now()\<close> is the
  argument \<open>now\<close>. Every critical section of the source (what runs under one acquisition of \<^verbatim>\<open>c.mu\<close>)
  is a definition of its own. Log records are not modelled, but a log call that would dereference a
  nil pointer is (a \<open>GoPanic\<close>).
\<close>

section \<open>Loading a cache\<close>

text \<open>\<^verbatim>\<open>c.tgt = info\<close>: the new record has an address of its own.\<close>

definition install_tgt :: "tgtInfo \<Rightarrow> client \<Rightarrow> client" where
  "install_tgt info c = c\<lparr>tgt := Some (next_tgt c, info), next_tgt := Suc (next_tgt c)\<rparr>"

definition loadOne ::
  "'w krb5_lib \<Rightarrow> gotime \<Rightarrow> krb5_creds \<Rightarrow> tgtInfo option \<Rightarrow> 'w \<Rightarrow> (goerror + tgtInfo option) \<times> 'w" where
  "loadOne L now cred found w =
     (if krb5_is_config_principal L (cr_server cred) then (Inr found, w)
      else if isLocalTGT (readPrincipal (cr_client cred)) (readPrincipal (cr_server cred)) then
        (case found of
           Some _ \<Rightarrow> (Inr found, w)
         | None \<Rightarrow>
             (case tgtInfoFrom L cred of
                Inl err \<Rightarrow> (Inl err, w)
              | Inr info \<Rightarrow>
                  (case storeTGT L cred w of
                     (Some err, w) \<Rightarrow> (Inl err, w)
                   | (None, w) \<Rightarrow> (Inr (Some info), w))))
      else if \<not> After (krbTime (cr_endtime cred)) now then (Inr found, w)
      else (case krb5_cc_store_cred L workingCacheName cred w of
              (code, w) \<Rightarrow>
                (case newError L code of Some err \<Rightarrow> (Inl err, w) | None \<Rightarrow> (Inr found, w))))"

text \<open>The loop of \<^verbatim>\<open>loadFrom\<close>, over the credentials the cursor yields and the code that ends them.\<close>

fun load_creds ::
  "'w krb5_lib \<Rightarrow> gotime \<Rightarrow> krb5_creds list \<Rightarrow> i32 \<Rightarrow> tgtInfo option \<Rightarrow> 'w \<Rightarrow>
     (goerror + tgtInfo option) \<times> 'w" where
  "load_creds L now [] code found w =
     (if code = CCEnd then (Inr found, w) else (Inl (krbErr L code), w))"
| "load_creds L now (cred # creds) code found w =
     (case loadOne L now cred found w of
        (Inl err, w) \<Rightarrow> (Inl err, w)
      | (Inr found, w) \<Rightarrow> load_creds L now creds code found w)"

definition loadFrom ::
  "'w krb5_lib \<Rightarrow> string \<Rightarrow> gotime \<Rightarrow> 'w \<Rightarrow> (goerror + tgtInfo option) \<times> 'w" where
  "loadFrom L src now w =
     (case krb5_cc_seq_get L src w of
        Inl code \<Rightarrow> (Inl (krbErr L code), w)
      | Inr (creds, code, endcode) \<Rightarrow>
          (case load_creds L now creds code None w of
             (Inl err, w) \<Rightarrow> (Inl err, w)
           | (Inr found, w) \<Rightarrow>
               (case newError L endcode of Some err \<Rightarrow> (Inl err, w) | None \<Rightarrow> (Inr found, w))))"

record options =
  MinTicketLife :: duration
  OwnerUID :: int
  MaxConcurrent :: int

definition FILE_name :: "string \<Rightarrow> string" where
  "FILE_name path = CString (''FILE:'' @ path)"

definition open_defaults :: "options \<Rightarrow> options" where
  "open_defaults opts =
     \<lparr>MinTicketLife = (if MinTicketLife opts \<le> 0 then 5 * Minute else MinTicketLife opts),
      OwnerUID = OwnerUID opts,
      MaxConcurrent = (if MaxConcurrent opts \<le> 0 then 16 else MaxConcurrent opts)\<rparr>"

definition new_client :: "string \<Rightarrow> options \<Rightarrow> client" where
  "new_client path opts =
     \<lparr>cap_sem = nat (MaxConcurrent opts), minLife = MinTicketLife opts, srcPath = path,
      ownerUID = OwnerUID opts, lastFileCheck = zeroTime, tgt = None, renewRetryAt = zeroTime,
      renewBackoff = 0, renewing = False, idle = 0, next_tgt = 0\<rparr>"

definition Open ::
  "'w krb5_lib \<Rightarrow> string \<Rightarrow> options \<Rightarrow> gotime \<Rightarrow> 'w \<Rightarrow> (goerror + client) \<times> 'w" where
  "Open L sourcePath opts0 now w =
     (let opts = open_defaults opts0; src = FILE_name sourcePath in
      case fileOwner (os_Stat L sourcePath w) of
        Inl err \<Rightarrow> (Inl err, w)
      | Inr uid \<Rightarrow>
     (if 0 \<le> OwnerUID opts \<and> 0 \<le> uid \<and> uid \<noteq> OwnerUID opts
      then (Inl (PlainError (''ccache '' @ fmt_q sourcePath @ '' is owned by uid '' @ fmt_int uid @
              '', not '' @ fmt_int (OwnerUID opts))), w)
      else
     (case newKctx L w of
        Some err \<Rightarrow> (Inl err, w)
      | None \<Rightarrow>
     (let code = krb5_cc_resolve L src w in
      if code \<noteq> 0
      then (Inl (WrapError (''resolving source ccache '' @ fmt_q sourcePath @ '': '') (krbErr L code)), w)
      else
     (case krb5_cc_get_principal L src w of
        Inl code \<Rightarrow>
          (Inl (WrapError (''reading default principal from '' @ fmt_q sourcePath @ '': '') (krbErr L code)), w)
      | Inr princ \<Rightarrow>
     (case krb5_cc_initialize L workingCacheName (Some princ) w of
        (code, w) \<Rightarrow>
     (if code \<noteq> 0 then (Inl (WrapError ''initializing working cache: '' (krbErr L code)), w)
      else
     (case loadFrom L src now w of
        (Inl err, w) \<Rightarrow>
          (Inl (WrapError (''copying credentials from '' @ fmt_q sourcePath @ '': '') err), w)
      | (Inr found, w) \<Rightarrow>
          (let c = new_client sourcePath opts;
               c = (case found of None \<Rightarrow> c | Some info \<Rightarrow> install_tgt info c)
           in (Inr (c\<lparr>idle := Suc (idle c)\<rparr>), w)))))))))) "

lemma Open_idle: "Open L path opts now w0 = (Inr c, w) \<Longrightarrow> idle c = 1"
  by (auto simp: Open_def Let_def new_client_def install_tgt_def split: if_splits option.splits sum.splits prod.splits)

record tgt_status =
  OK :: bool
  Expires :: gotime
  RenewUntil :: gotime

definition TGT :: "client \<Rightarrow> tgt_status" where
  "TGT c =
     (case tgt c of
        None \<Rightarrow> \<lparr>OK = False, Expires = zeroTime, RenewUntil = zeroTime\<rparr>
      | Some (_, t) \<Rightarrow>
          \<lparr>OK = True, Expires = ti_endTime t,
           RenewUntil = (if renewable t then ti_renewTill t else zeroTime)\<rparr>)"

section \<open>Swapping the TGT\<close>

definition setTGT ::
  "'w krb5_lib \<Rightarrow> tgtInfo \<Rightarrow> client \<Rightarrow> 'w \<Rightarrow> goerror option \<times> client \<times> 'w" where
  "setTGT L info c w =
     (case unmarshalCreds L (ti_wire info) of
        Inl err \<Rightarrow> (Some err, c, w)
      | Inr creds \<Rightarrow>
     (case (case tgt c of None \<Rightarrow> (None, w) | Some (_, t) \<Rightarrow> removeCredExact L (ti_wire t) w) of
        (Some err, w) \<Rightarrow> (Some (WrapError ''removing previous TGT: '' err), c, w)
      | (None, w) \<Rightarrow>
     (case storeTGT L creds w of
        (Some err, w) \<Rightarrow> (Some err, c, w)
      | (None, w) \<Rightarrow> (None, resetRenewBackoff (install_tgt info c), w))))"

definition tgtError :: "client \<Rightarrow> gotime \<Rightarrow> goerror option" where
  "tgtError c now =
     (case tgt c of
        None \<Rightarrow>
          Some (KrbError TktExpired ''no ticket-granting ticket is available; run kinit'')
      | Some (_, t) \<Rightarrow>
          if expired t now
          then Some (KrbError TktExpired ''the ticket-granting ticket has expired; run kinit'')
          else None)"

definition tgtNeedsAttention :: "client \<Rightarrow> gotime \<Rightarrow> bool" where
  "tgtNeedsAttention c now =
     (case tgt c of
        None \<Rightarrow> True
      | Some (_, t) \<Rightarrow> renewDue t now \<or> remaining t now < minLife c)"

definition renewWanted :: "client \<Rightarrow> gotime \<Rightarrow> bool" where
  "renewWanted c now =
     (case tgt c of
        None \<Rightarrow> False
      | Some (_, t) \<Rightarrow> renewDue t now \<and> \<not> Before now (renewRetryAt c) \<and> \<not> renewing c)"

section \<open>Renewal\<close>

text \<open>\<^verbatim>\<open>renewTGT\<close> has two critical sections with the KDC exchange between them, outside the lock.\<close>

definition renew_start :: "client \<Rightarrow> (goerror + nat \<times> tgtInfo) \<times> client" where
  "renew_start c =
     (if renewing c then (Inl ErrRenewBusy, c)
      else (case tgt c of
              None \<Rightarrow> (Inl (PlainError ''no ticket-granting ticket to renew''), c)
            | Some started \<Rightarrow> (Inr started, c\<lparr>renewing := True\<rparr>)))"

definition renewExchange :: "'w krb5_lib \<Rightarrow> byte list \<Rightarrow> 'w \<Rightarrow> (goerror + tgtInfo) \<times> 'w" where
  "renewExchange L wire w =
     (case unmarshalCreds L wire of
        Inl err \<Rightarrow> (Inl err, w)
      | Inr tgtCreds \<Rightarrow>
     (let code = krb5_cc_resolve L renewCacheName w in
      if code \<noteq> 0 then (Inl (krbErr L code), w)
      else
     (case (case krb5_cc_initialize L renewCacheName (cr_client tgtCreds) w of
              (code, w) \<Rightarrow>
                if code \<noteq> 0 then (Inl (krbErr L code), w)
                else (case krb5_cc_store_cred L renewCacheName tgtCreds w of
                        (code, w) \<Rightarrow>
                          if code \<noteq> 0 then (Inl (krbErr L code), w)
                          else (case krb5_get_renewed_creds L (cr_client tgtCreds) renewCacheName w of
                                  (Inl code, w) \<Rightarrow> (Inl (krbErr L code), w)
                                | (Inr renewed, w) \<Rightarrow> (tgtInfoFrom L renewed, w)))) of
        (res, w) \<Rightarrow> (res, krb5_cc_destroy L renewCacheName w))))"

definition renew_finish ::
  "'w krb5_lib \<Rightarrow> nat \<times> tgtInfo \<Rightarrow> gotime \<Rightarrow> goerror + tgtInfo \<Rightarrow> client \<Rightarrow> 'w \<Rightarrow>
     goerror option \<times> client \<times> 'w" where
  "renew_finish L started now res c0 w =
     (let c = c0\<lparr>renewing := False\<rparr> in
      if map_option fst (tgt c) \<noteq> Some (fst started) then (None, c, w)
      else
     (case res of
        Inl err \<Rightarrow> (Some err, noteRenewFailure now c, w)
      | Inr info \<Rightarrow>
     (case setTGT L info c w of
        (Some err, c, w) \<Rightarrow> (Some err, noteRenewFailure now c, w)
      | (None, c, w) \<Rightarrow> (None, c, w))))"

definition renewTGT ::
  "'w krb5_lib \<Rightarrow> gotime \<Rightarrow> client \<Rightarrow> 'w \<Rightarrow> goerror option \<times> client \<times> 'w" where
  "renewTGT L now c w =
     (case renew_start c of
        (Inl err, c) \<Rightarrow> (Some err, c, w)
      | (Inr started, c) \<Rightarrow>
          (case renewExchange L (ti_wire (snd started)) w of
             (res, w) \<Rightarrow> renew_finish L started now res c w))"

section \<open>Adopting a newer TGT from the file\<close>

fun peek_creds :: "'w krb5_lib \<Rightarrow> krb5_creds list \<Rightarrow> i32 \<Rightarrow> goerror + tgtInfo option" where
  "peek_creds L [] code = (if code = CCEnd then Inr None else Inl (krbErr L code))"
| "peek_creds L (cred # creds) code =
     (if \<not> krb5_is_config_principal L (cr_server cred) \<and>
         isLocalTGT (readPrincipal (cr_client cred)) (readPrincipal (cr_server cred))
      then (case tgtInfoFrom L cred of Inl err \<Rightarrow> Inl err | Inr info \<Rightarrow> Inr (Some info))
      else peek_creds L creds code)"

definition peekTGT :: "'w krb5_lib \<Rightarrow> string \<Rightarrow> 'w \<Rightarrow> goerror + tgtInfo option" where
  "peekTGT L src w =
     (case krb5_cc_seq_get L src w of
        Inl code \<Rightarrow> Inl (krbErr L code)
      | Inr (creds, code, endcode) \<Rightarrow>
          (case peek_creds L creds code of
             Inl err \<Rightarrow> Inl err
           | Inr found \<Rightarrow>
               (case newError L endcode of Some err \<Rightarrow> Inl err | None \<Rightarrow> Inr found)))"

text \<open>The owner check of \<^verbatim>\<open>loadNewerTGT\<close>: may the file be read?\<close>

definition owner_ok :: "'w krb5_lib \<Rightarrow> client \<Rightarrow> 'w \<Rightarrow> bool" where
  "owner_ok L c w =
     (if 0 \<le> ownerUID c
      then (case fileOwner (os_Stat L (srcPath c) w) of
              Inl err \<Rightarrow> False
            | Inr uid \<Rightarrow> \<not> (0 \<le> uid \<and> uid \<noteq> ownerUID c))
      else True)"

text \<open>The tail of \<^verbatim>\<open>loadNewerTGT\<close>, from \<^verbatim>\<open>krb5_cc_initialize\<close> on. Its last log call reads the
  fields of the loaded TGT record.\<close>

definition adopt_file ::
  "'w krb5_lib \<Rightarrow> string \<Rightarrow> krb5_principal \<Rightarrow> gotime \<Rightarrow> client \<Rightarrow> 'w \<Rightarrow>
     goerror option \<times> client \<times> 'w" where
  "adopt_file L src princ now c0 w =
     (case krb5_cc_initialize L workingCacheName (Some princ) w of
        (code, w) \<Rightarrow>
          if code \<noteq> 0 then (None, c0, w)
          else let c = c0\<lparr>tgt := None\<rparr> in
               (case loadFrom L src now w of
                  (Inl err, w) \<Rightarrow> (None, c, w)
                | (Inr None, w) \<Rightarrow>
                    (Some (GoPanic ''invalid memory address or nil pointer dereference''),
                     resetRenewBackoff c, w)
                | (Inr (Some info), w) \<Rightarrow> (None, resetRenewBackoff (install_tgt info c), w)))"

definition loadNewerTGT ::
  "'w krb5_lib \<Rightarrow> gotime \<Rightarrow> client \<Rightarrow> 'w \<Rightarrow> goerror option \<times> client \<times> 'w" where
  "loadNewerTGT L now c0 w =
     (if Sub now (lastFileCheck c0) < fileCheckInterval then (None, c0, w)
      else
        let c = c0\<lparr>lastFileCheck := now\<rparr>; src = FILE_name (srcPath c) in
        if \<not> owner_ok L c w then (None, c, w)
        else if krb5_cc_resolve L src w \<noteq> 0 then (None, c, w)
        else
          (case krb5_cc_get_principal L src w of
             Inl code \<Rightarrow> (None, c, w)
           | Inr princ \<Rightarrow>
               (case peekTGT L src w of
                  Inl err \<Rightarrow> (None, c, w)
                | Inr None \<Rightarrow> (None, c, w)
                | Inr (Some peek) \<Rightarrow>
                    if expired peek now then (None, c, w)
                    else if (case tgt c of
                               None \<Rightarrow> False
                             | Some (_, t) \<Rightarrow> \<not> After (ti_endTime peek) (ti_endTime t))
                    then (None, c, w)
                    else adopt_file L src princ now c w)))"

section \<open>Eviction\<close>

text \<open>Does \<^verbatim>\<open>sweep\<close> evict this entry?\<close>

definition stale :: "'w krb5_lib \<Rightarrow> client \<Rightarrow> gotime \<Rightarrow> krb5_creds \<Rightarrow> bool" where
  "stale L c now cred =
     (\<not> krb5_is_config_principal L (cr_server cred) \<and>
      (let end_t = krbTime (cr_endtime cred); left = Sub end_t now in
       (left \<le> 0 \<or>
        left < minLife c \<and> (case tgt c of None \<Rightarrow> False | Some (_, t) \<Rightarrow> After (ti_endTime t) end_t)) \<and>
       \<not> isLocalTGT (readPrincipal (cr_client cred)) (readPrincipal (cr_server cred))))"

fun stale_wires :: "'w krb5_lib \<Rightarrow> client \<Rightarrow> gotime \<Rightarrow> krb5_creds list \<Rightarrow> byte list list" where
  "stale_wires L c now [] = []"
| "stale_wires L c now (cred # creds) =
     (if stale L c now cred
      then (case marshalCreds L cred of
              Inl err \<Rightarrow> stale_wires L c now creds
            | Inr wire \<Rightarrow> wire # stale_wires L c now creds)
      else stale_wires L c now creds)"

definition sweep :: "'w krb5_lib \<Rightarrow> gotime \<Rightarrow> client \<Rightarrow> 'w \<Rightarrow> 'w" where
  "sweep L now c w =
     (case krb5_cc_seq_get L workingCacheName w of
        Inl code \<Rightarrow> w
      | Inr (creds, code, endcode) \<Rightarrow>
          fold (\<lambda>wire w. snd (removeCredExact L wire w)) (stale_wires L c now creds) w)"

section \<open>Maintenance\<close>

text \<open>The critical section that may reload the file, and the decision to enter it.\<close>

definition reload_due :: "client \<Rightarrow> gotime \<Rightarrow> bool" where
  "reload_due c now \<longleftrightarrow>
     tgtNeedsAttention c now \<and> Sub now (lastFileCheck c) \<ge> fileCheckInterval"

definition reload_section ::
  "'w krb5_lib \<Rightarrow> gotime \<Rightarrow> client \<Rightarrow> 'w \<Rightarrow> goerror option \<times> client \<times> 'w" where
  "reload_section L now c w =
     (if tgtNeedsAttention c now then loadNewerTGT L now c w else (None, c, w))"

text \<open>A \<open>Some\<close> result of \<open>maintain\<close> is a panic; every error is logged and dropped.\<close>

definition maintain ::
  "'w krb5_lib \<Rightarrow> gotime \<Rightarrow> client \<Rightarrow> 'w \<Rightarrow> goerror option \<times> client \<times> 'w" where
  "maintain L now c w =
     (let renew0 = renewWanted c now in
      case (if reload_due c now
            then (case reload_section L now c w of
                    (p, c, w) \<Rightarrow> (p, renewWanted c now, c, w))
            else (None, renew0, c, w)) of
        (Some panic, renew, c, w) \<Rightarrow> (Some panic, c, w)
      | (None, renew, c, w) \<Rightarrow>
          (case (if renew then (case renewTGT L now c w of (err, c, w) \<Rightarrow> (c, w)) else (c, w)) of
             (c, w) \<Rightarrow> (None, c, sweep L now c w)))"

text \<open>One round of \<^verbatim>\<open>Run\<close>: the wake-up time it computes, and the loop over the clock readings of its
  rounds until the context is cancelled.\<close>

definition run_round ::
  "'w krb5_lib \<Rightarrow> gotime \<Rightarrow> client \<Rightarrow> 'w \<Rightarrow> (goerror + gotime) \<times> client \<times> 'w" where
  "run_round L now c w =
     (case (case acquire L c w of
              Inl err \<Rightarrow> (None, c, w)
            | Inr c \<Rightarrow>
                (case maintain L now c w of
                   (Some panic, c, w) \<Rightarrow> (Some panic, c, w)
                 | (None, c, w) \<Rightarrow> (None, release c, w))) of
        (Some panic, c, w) \<Rightarrow> (Inl panic, c, w)
      | (None, c, w) \<Rightarrow> (Inr (nextWake c now), c, w))"

fun Run :: "'w krb5_lib \<Rightarrow> gotime list \<Rightarrow> client \<Rightarrow> 'w \<Rightarrow> goerror option \<times> client \<times> 'w" where
  "Run L [] c w = (None, c, w)"
| "Run L (now # nows) c w =
     (case run_round L now c w of
        (Inl panic, c, w) \<Rightarrow> (Some panic, c, w)
      | (Inr next_at, c, w) \<Rightarrow> Run L nows c w)"


section \<open>Every section keeps the TGT guarded\<close>

lemmas op_splits = if_splits option.splits sum.splits prod.splits

context mem_ccache
begin

lemma guarded_loadOne: "guarded w \<Longrightarrow> loadOne L now cred found w = (r, w') \<Longrightarrow> guarded w'"
  by (auto simp: loadOne_def local_tgt_def [symmetric] split: op_splits
      dest: guarded_storeTGT guarded_store_cred)

lemma guarded_load_creds:
  "guarded w \<Longrightarrow> load_creds L now creds code found w = (r, w') \<Longrightarrow> guarded w'"
  by (induction creds arbitrary: found w) (auto split: op_splits dest: guarded_loadOne)

lemma guarded_loadFrom: "guarded w \<Longrightarrow> loadFrom L src now w = (r, w') \<Longrightarrow> guarded w'"
  by (auto simp: loadFrom_def split: op_splits dest: guarded_load_creds)

lemma guarded_Open:
  assumes "Open L path opts now w = (Inr c, w')"
  shows "guarded w'"
proof -
  have "guarded w1" if "krb5_cc_initialize L workingCacheName p w = (0, w1)" for p w1
    using initialize [OF that] by (simp add: cache_guarded_def)
  with assms show ?thesis
    by (auto simp: Open_def Let_def split: op_splits dest!: guarded_loadFrom)
qed

lemma guarded_setTGT: "guarded w \<Longrightarrow> setTGT L info c w = (err, c', w') \<Longrightarrow> guarded w'"
  by (auto simp: setTGT_def split: op_splits dest: guarded_storeTGT guarded_removeCredExact)

lemma renewExchange_effect:
  assumes "renewExchange L wire w = (r, w')"
  shows "owner w' = owner w" "entries w' = entries w"
  using assms
  by (auto simp: renewExchange_def Let_def scratch_destroy split: op_splits
      dest!: scratch_initialize scratch_store scratch_renew)

lemma guarded_renewExchange: "guarded w \<Longrightarrow> renewExchange L wire w = (r, w') \<Longrightarrow> guarded w'"
  using renewExchange_effect by (metis cache_guarded_def)

lemma guarded_renew_finish:
  "guarded w \<Longrightarrow> renew_finish L started now res c w = (err, c', w') \<Longrightarrow> guarded w'"
  by (auto simp: renew_finish_def Let_def split: op_splits dest: guarded_setTGT)

lemma guarded_renewTGT: "guarded w \<Longrightarrow> renewTGT L now c w = (err, c', w') \<Longrightarrow> guarded w'"
  by (auto simp: renewTGT_def split: op_splits dest: guarded_renew_finish guarded_renewExchange)

lemma guarded_adopt_file:
  "guarded w \<Longrightarrow> adopt_file L src princ now c w = (err, c', w') \<Longrightarrow> guarded w'"
  by (auto simp: adopt_file_def Let_def split: op_splits dest: guarded_initialize guarded_loadFrom)

lemma guarded_loadNewerTGT: "guarded w \<Longrightarrow> loadNewerTGT L now c w = (err, c', w') \<Longrightarrow> guarded w'"
  by (auto simp: loadNewerTGT_def Let_def split: op_splits dest: guarded_adopt_file)

lemma guarded_fold_remove:
  "guarded w \<Longrightarrow> guarded (fold (\<lambda>wire w. snd (removeCredExact L wire w)) wires w)"
  by (induction wires arbitrary: w) (auto intro: guarded_removeCredExact [OF _ prod.collapse [symmetric]])

lemma guarded_sweep: "guarded w \<Longrightarrow> guarded (sweep L now c w)"
  by (auto simp: sweep_def guarded_fold_remove split: sum.splits)

lemma guarded_maintain: "guarded w \<Longrightarrow> maintain L now c w = (err, c', w') \<Longrightarrow> guarded w'"
  by (auto simp: maintain_def reload_section_def Let_def split: op_splits
      dest: guarded_loadNewerTGT guarded_renewTGT intro: guarded_sweep)

end


section \<open>What eviction removes\<close>

context mem_ccache
begin

lemma stale_exact_match:
  assumes "exact_match L m e"
  shows "stale L c now m = stale L c now e"
  using assms config_names [of "cr_server m" "cr_server e"] cred_matches_local_tgt [OF assms]
  by (simp add: stale_def local_tgt_def [symmetric] cred_matches_def same_times_def)

lemma stale_wires_marshal:
  assumes "\<forall>cr\<in>set creds. \<exists>wire. marshalCreds L cr = Inr wire"
  shows "list_all2 (\<lambda>cr wire. marshalCreds L cr = Inr wire)
           (filter (stale L c now) creds) (stale_wires L c now creds)"
  using assms by (induction creds) (auto split: sum.splits)

lemma fold_remove_effect:
  assumes "list_all2 (\<lambda>cr wire. marshalCreds L cr = Inr wire) crs wires"
  shows "entries (fold (\<lambda>wire w. snd (removeCredExact L wire w)) wires w)
           = filter (\<lambda>e. \<forall>m\<in>set crs. \<not> exact_match L m e) (entries w)"
  using assms
proof (induction crs wires arbitrary: w rule: list_all2_induct)
  case (Cons cr crs wire wires)
  obtain err w' where r: "removeCredExact L wire w = (err, w')" by fastforce
  from removeCredExact_effect(3) [OF r Cons.hyps(1)] show ?case
    using Cons.IH [of w'] by (simp add: r conj_commute)
qed simp

lemma fold_remove_owner:
  "owner (fold (\<lambda>wire w. snd (removeCredExact L wire w)) wires w) = owner w"
proof (induction wires arbitrary: w)
  case (Cons wire wires)
  obtain err w' where "removeCredExact L wire w = (err, w')" by fastforce
  with Cons [of w'] removeCredExact_subset(1) [of wire w err w'] show ?case by simp
qed simp

lemma sweep_owner: "owner (sweep L now c w) = owner w"
  by (simp add: sweep_def seq_get fold_remove_owner)

lemma sweep_effect:
  assumes "\<forall>cr\<in>set (entries w). \<exists>wire. marshalCreds L cr = Inr wire"
  shows "entries (sweep L now c w) = filter (\<lambda>e. \<not> stale L c now e) (entries w)"
proof -
  have "(\<forall>m\<in>set (filter (stale L c now) (entries w)). \<not> exact_match L m e) \<longleftrightarrow> \<not> stale L c now e"
    if "e \<in> set (entries w)" for e
    using that stale_exact_match by fastforce
  then show ?thesis
    using fold_remove_effect [OF stale_wires_marshal [OF assms], of c now w]
    by (simp add: sweep_def seq_get cong: filter_cong)
qed

text \<open>Whatever cannot be marshalled, no TGT is evicted.\<close>

lemma removeCredExact_keeps:
  assumes "removeCredExact L wire w = (err, w')" "marshalCreds L m = Inr wire" "\<not> exact_match L m e"
    "e \<in> set (entries w)"
  shows "e \<in> set (entries w')"
  using removeCredExact_effect(3) [OF assms(1,2)] assms(3,4) by simp

lemma stale_wires_origin:
  "wire \<in> set (stale_wires L c now creds) \<Longrightarrow> \<exists>m. marshalCreds L m = Inr wire \<and> stale L c now m"
  by (induction creds) (auto split: if_splits sum.splits)

lemma fold_remove_keeps:
  assumes "e \<in> set (entries w)" "\<not> stale L c now e"
    and "\<And>wire. wire \<in> set wires \<Longrightarrow> \<exists>m. marshalCreds L m = Inr wire \<and> stale L c now m"
  shows "e \<in> set (entries (fold (\<lambda>wire w. snd (removeCredExact L wire w)) wires w))"
  using assms
proof (induction wires arbitrary: w)
  case (Cons wire wires)
  obtain err w' where r: "removeCredExact L wire w = (err, w')" by fastforce
  obtain m where m: "marshalCreds L m = Inr wire" "stale L c now m" using Cons.prems(3) by auto
  have "e \<in> set (entries w')"
    using removeCredExact_keeps [OF r m(1)] stale_exact_match [of m e c now] m(2) Cons.prems(1,2)
    by blast
  then show ?case using Cons by (simp add: r)
qed simp

lemma sweep_keeps: "e \<in> set (entries w) \<Longrightarrow> \<not> stale L c now e \<Longrightarrow> e \<in> set (entries (sweep L now c w))"
  by (auto simp: sweep_def seq_get intro: fold_remove_keeps dest: stale_wires_origin)

end

lemma stale_written_out:
  assumes "0 \<le> minLife c" "minLife c \<le> maxDuration"
  shows "stale L c now e \<longleftrightarrow>
           \<not> krb5_is_config_principal L (cr_server e) \<and> \<not> local_tgt e \<and>
           (krbTime (cr_endtime e) \<le> now \<or>
            nanos (krbTime (cr_endtime e)) - nanos now < minLife c \<and>
            (\<exists>a t. tgt c = Some (a, t) \<and> krbTime (cr_endtime e) < ti_endTime t))"
  using Sub_less [OF assms] 
  by (auto simp: stale_def Let_def local_tgt_def Sub_le_0 After_def split: option.splits)

text \<open>C18: eviction is exact. For every library that keeps the MEMORY cache contract, \<^verbatim>\<open>sweep\<close> leaves
  in the working cache, in order, exactly: the configuration entries, the local TGTs, and the
  tickets that are still valid and either have the minimum lifetime left or are not outlived by the
  held TGT (so that fetching them again could not help). Nothing else is kept and nothing else is
  removed, although removal matches on principals and times only.\<close>

theorem sweep_exact:
  assumes "mem_ccache L entries owner" "0 \<le> minLife c" "minLife c \<le> maxDuration"
    "\<forall>e\<in>set (entries w). \<exists>wire. marshalCreds L e = Inr wire"
  shows "entries (sweep L now c w) =
           filter (\<lambda>e. krb5_is_config_principal L (cr_server e) \<or> local_tgt e \<or>
                       now < krbTime (cr_endtime e) \<and>
                       (minLife c \<le> nanos (krbTime (cr_endtime e)) - nanos now \<or>
                        (\<forall>a t. tgt c = Some (a, t) \<longrightarrow> ti_endTime t \<le> krbTime (cr_endtime e))))
             (entries w)"
  unfolding mem_ccache.sweep_effect [OF assms(1,4)] stale_written_out [OF assms(2,3)]
  by (rule filter_cong) (auto simp: not_le not_less)


section \<open>The held TGT is in the working cache\<close>

text \<open>\<open>t\<close> was captured from a local TGT whose guarded copy is among the entries (read back from its
  encoding, which fixes everything but the width of the encryption type).\<close>

definition copy_in_cache :: "'w krb5_lib \<Rightarrow> krb5_creds list \<Rightarrow> tgtInfo \<Rightarrow> bool" where
  "copy_in_cache L es t \<longleftrightarrow>
     (\<exists>cr e. tgtInfoFrom L cr = Inr t \<and> local_tgt cr \<and> (clear_renewable cr)\<lparr>cr_enctype := e\<rparr> \<in> set es)"

definition tgt_in_cache :: "'w krb5_lib \<Rightarrow> ('w \<Rightarrow> krb5_creds list) \<Rightarrow> client \<Rightarrow> 'w \<Rightarrow> bool" where
  "tgt_in_cache L entries c w \<longleftrightarrow>
     (case tgt c of None \<Rightarrow> True | Some (_, t) \<Rightarrow> copy_in_cache L (entries w) t)"

lemma copy_in_cache_mono: "copy_in_cache L es t \<Longrightarrow> set es \<subseteq> set es' \<Longrightarrow> copy_in_cache L es' t"
  unfolding copy_in_cache_def by blast

lemma copy_in_cacheI:
  assumes "tgtInfoFrom L cr = Inr t" "local_tgt cr" "clear_renewable cr \<in> set es"
  shows "copy_in_cache L es t"
proof -
  have "(clear_renewable cr)\<lparr>cr_enctype := cr_enctype cr\<rparr> = clear_renewable cr"
    by (simp add: clear_renewable_def)
  with assms show ?thesis unfolding copy_in_cache_def by metis
qed

text \<open>Contract of a library whose stores do not fail and whose renewals give the local TGT of the
  client (the service name passed to \<^verbatim>\<open>krb5_get_renewed_creds\<close> is NULL).\<close>

locale reliable_ccache = mem_ccache +
  assumes store_ok: "fst (krb5_cc_store_cred L workingCacheName cr w) = 0"
    and renewed_local: "krb5_get_renewed_creds L p renewCacheName w = (Inr cr, w') \<Longrightarrow> local_tgt cr"

context reliable_ccache
begin

abbreviation held :: "client \<Rightarrow> 'a \<Rightarrow> bool" where
  "held \<equiv> tgt_in_cache L entries"

lemma storeTGT_ok: "\<exists>w'. storeTGT L cr w = (None, w') \<and> entries w' = entries w @ [clear_renewable cr]"
proof -
  obtain err w' where r: "storeTGT L cr w = (err, w')" by fastforce
  moreover from this have "err = None"
    using store_ok [of "clear_renewable cr" w]
    by (auto simp: storeTGT_def newError_def split: prod.splits)
  ultimately show ?thesis using storeTGT_effect(2) [OF r] by auto
qed

lemma loadOne_copy:
  assumes "loadOne L now cred found w = (Inr found', w')"
    "\<forall>t. found = Some t \<longrightarrow> copy_in_cache L (entries w) t"
  shows "(\<forall>t. found' = Some t \<longrightarrow> copy_in_cache L (entries w') t)"
proof -
  have grow: "copy_in_cache L (entries w2) t"
    if "krb5_cc_store_cred L workingCacheName cr w = (code, w2)" "found = Some t" for cr code w2 t
    using store_cred [OF that(1)] that(2) assms(2) copy_in_cache_mono [of L "entries w" t "entries w2"]
    by (auto split: if_splits)
  show ?thesis
    using assms storeTGT_effect(2) [of cred w] grow
    by (auto simp: loadOne_def local_tgt_def [symmetric] split: op_splits intro: copy_in_cacheI)
qed

lemma load_creds_copy:
  "load_creds L now creds code found w = (Inr found', w') \<Longrightarrow>
   \<forall>t. found = Some t \<longrightarrow> copy_in_cache L (entries w) t \<Longrightarrow>
   \<forall>t. found' = Some t \<longrightarrow> copy_in_cache L (entries w') t"
proof (induction creds arbitrary: found w)
  case (Cons cred creds)
  obtain found1 w1 where one: "loadOne L now cred found w = (Inr found1, w1)"
    and rest: "load_creds L now creds code found1 w1 = (Inr found', w')"
    using Cons.prems(1) by (auto split: op_splits)
  from Cons.IH [OF rest loadOne_copy [OF one Cons.prems(2)]] show ?case .
qed (auto split: if_splits)

lemma loadFrom_copy: "loadFrom L src now w = (Inr (Some t), w') \<Longrightarrow> copy_in_cache L (entries w') t"
  by (auto simp: loadFrom_def split: op_splits dest!: load_creds_copy)

lemma setTGT_ok:
  assumes "tgtInfoFrom L cr = Inr info" "local_tgt cr" "held c w"
  shows "\<exists>w'. setTGT L info c w = (None, resetRenewBackoff (install_tgt info c), w') \<and>
              copy_in_cache L (entries w') info"
proof -
  obtain e where u: "unmarshalCreds L (ti_wire info) = Inr (cr\<lparr>cr_enctype := e\<rparr>)"
    using unmarshalCreds_marshalCreds tgtInfoFrom_Inr(1) [OF assms(1)] by blast
  have "\<exists>w1. (case tgt c of None \<Rightarrow> (None, w) | Some (_, t) \<Rightarrow> removeCredExact L (ti_wire t) w) = (None, w1)"
  proof (cases "tgt c")
    case (Some at)
    obtain a t where at: "at = (a, t)" by (cases at)
    then obtain old where "marshalCreds L old = Inr (ti_wire t)"
      using assms(3) Some tgtInfoFrom_Inr(1) by (fastforce simp: tgt_in_cache_def copy_in_cache_def)
    then show ?thesis
      using Some at removeCredExact_effect(1) [of "ti_wire t" w] by (metis (no_types, lifting)
          case_prod_conv option.case(2) prod.collapse)
  qed simp
  then obtain w1 where w1:
    "(case tgt c of None \<Rightarrow> (None, w) | Some (_, t) \<Rightarrow> removeCredExact L (ti_wire t) w) = (None, w1)"
    by blast
  obtain w2 where w2: "storeTGT L (cr\<lparr>cr_enctype := e\<rparr>) w1 = (None, w2)"
    "entries w2 = entries w1 @ [clear_renewable (cr\<lparr>cr_enctype := e\<rparr>)]"
    using storeTGT_ok by blast
  moreover have "clear_renewable (cr\<lparr>cr_enctype := e\<rparr>) = (clear_renewable cr)\<lparr>cr_enctype := e\<rparr>"
    by (simp add: clear_renewable_def)
  ultimately have "copy_in_cache L (entries w2) info"
    using assms(1,2) unfolding copy_in_cache_def by (metis in_set_conv_decomp)
  then show ?thesis using u w1 w2(1) by (simp add: setTGT_def)
qed

end


lemma install_tgt_fields [simp]:
  "tgt (install_tgt info c) = Some (next_tgt c, info)" "renewing (install_tgt info c) = renewing c"
  "next_tgt (install_tgt info c) = Suc (next_tgt c)" "minLife (install_tgt info c) = minLife c"
  "lastFileCheck (install_tgt info c) = lastFileCheck c" "idle (install_tgt info c) = idle c"
  "cap_sem (install_tgt info c) = cap_sem c"
  by (simp_all add: install_tgt_def)

lemma tgt_in_cache_tgt: "tgt c' = tgt c \<Longrightarrow> tgt_in_cache L entries c' w = tgt_in_cache L entries c w"
  by (simp add: tgt_in_cache_def)

lemma tgt_in_cache_entries:
  "tgt_in_cache L entries c w \<Longrightarrow> entries w' = entries w \<Longrightarrow> tgt_in_cache L entries c w'"
  by (auto simp: tgt_in_cache_def split: option.splits)

lemma tgt_in_cache_grow:
  "tgt_in_cache L entries c w \<Longrightarrow> set (entries w) \<subseteq> set (entries w') \<Longrightarrow> tgt_in_cache L entries c w'"
  by (auto simp: tgt_in_cache_def split: option.splits intro: copy_in_cache_mono)

context reliable_ccache
begin

lemma renewExchange_local:
  assumes "renewExchange L wire w = (Inr info, w')"
  shows "\<exists>cr. tgtInfoFrom L cr = Inr info \<and> local_tgt cr"
  using assms renewed_local
  by (fastforce simp: renewExchange_def Let_def split: op_splits)

lemma held_renew_finish:
  assumes "held c w" "renew_finish L started now res c w = (err, c', w')"
    "\<And>info. res = Inr info \<Longrightarrow> \<exists>cr. tgtInfoFrom L cr = Inr info \<and> local_tgt cr"
  shows "held c' w'"
proof (cases "map_option fst (tgt c) = Some (fst started) \<and> (\<exists>info. res = Inr info)")
  case True
  then obtain info cr where info: "res = Inr info" "tgtInfoFrom L cr = Inr info" "local_tgt cr"
    using assms(3) by blast
  have "held (c\<lparr>renewing := False\<rparr>) w" using assms(1) by (simp add: tgt_in_cache_def)
  from setTGT_ok [OF info(2,3) this] True info(1) assms(2) show ?thesis
    by (auto simp: renew_finish_def Let_def tgt_in_cache_def)
next
  case False
  then show ?thesis
    using assms(1,2) by (auto simp: renew_finish_def Let_def tgt_in_cache_def split: op_splits)
qed

lemma held_renewTGT: "held c w \<Longrightarrow> renewTGT L now c w = (err, c', w') \<Longrightarrow> held c' w'"
proof (goal_cases)
  case 1
  show ?case
  proof (cases "renew_start c")
    case (Pair r c1)
    have held1: "held c1 w"
      using 1(1) Pair by (auto simp: renew_start_def tgt_in_cache_def split: op_splits)
    show ?thesis
    proof (cases r)
      case (Inr started)
      obtain res w1 where ex: "renewExchange L (ti_wire (snd started)) w = (res, w1)" by fastforce
      have "held c1 w1" using held1 renewExchange_effect(2) [OF ex] by (rule tgt_in_cache_entries)
      moreover have "renew_finish L started now res c1 w1 = (err, c', w')"
        using 1(2) Pair Inr ex by (simp add: renewTGT_def)
      ultimately show ?thesis
        using held_renew_finish renewExchange_local ex by metis
    qed (use 1(2) Pair held1 in \<open>simp add: renewTGT_def\<close>)
  qed
qed

lemma held_adopt_file:
  assumes "held c w" "adopt_file L src princ now c w = (err, c', w')"
  shows "held c' w'"
proof (cases "fst (krb5_cc_initialize L workingCacheName (Some princ) w) = 0")
  case True
  with assms(2) show ?thesis
    by (auto simp: adopt_file_def Let_def tgt_in_cache_def split: op_splits intro: loadFrom_copy)
next
  case False
  moreover obtain code w1 where i: "krb5_cc_initialize L workingCacheName (Some princ) w = (code, w1)"
    by fastforce
  ultimately show ?thesis
    using assms initialize [OF i] by (auto simp: adopt_file_def intro: tgt_in_cache_entries)
qed

lemma held_loadNewerTGT: "held c w \<Longrightarrow> loadNewerTGT L now c w = (err, c', w') \<Longrightarrow> held c' w'"
  by (auto simp: loadNewerTGT_def Let_def tgt_in_cache_tgt [of "c\<lparr>lastFileCheck := now\<rparr>" c]
      split: op_splits dest: held_adopt_file [rotated])

lemma held_sweep:
  assumes "held c w"
  shows "held c (sweep L now c w)"
proof -
  have "copy_in_cache L (entries (sweep L now c w)) t" if "copy_in_cache L (entries w) t" for t
    using that sweep_keeps [of _ w c now] unfolding copy_in_cache_def
    by (metis clear_renewable_fields(7) local_tgt_def local_tgt_enctype stale_def)
  with assms show ?thesis by (auto simp: tgt_in_cache_def split: option.splits)
qed

lemma held_maintain: "held c w \<Longrightarrow> maintain L now c w = (err, c', w') \<Longrightarrow> held c' w'"
  by (auto simp: maintain_def reload_section_def Let_def split: op_splits
      dest: held_loadNewerTGT held_renewTGT intro: held_sweep)

end


section \<open>Adopting a newer TGT\<close>

lemma load_creds_found:
  "load_creds L now creds code (Some t) w = (Inr found, w') \<Longrightarrow> found = Some t"
  by (induction creds arbitrary: w) (auto simp: loadOne_def split: op_splits)

lemma load_creds_peek:
  "load_creds L now creds code None w = (Inr found, w') \<Longrightarrow> peek_creds L creds code = Inr found"
proof (induction creds arbitrary: w)
  case (Cons cred creds)
  then show ?case
    by (auto simp: loadOne_def split: op_splits dest: load_creds_found)
qed (auto split: if_splits)

lemma loadFrom_peek:
  "loadFrom L src now w = (Inr found, w') \<Longrightarrow> peekTGT L src w = Inr found"
  by (auto simp: loadFrom_def peekTGT_def split: op_splits dest: load_creds_peek)

text \<open>No one changes the file between the two reads of \<^verbatim>\<open>loadNewerTGT\<close>: re-initialising the working
  cache leaves what a cursor on the source yields.\<close>

definition stable_source :: "'w krb5_lib \<Rightarrow> string \<Rightarrow> bool" where
  "stable_source L src \<longleftrightarrow>
     (\<forall>p w. krb5_cc_seq_get L src (snd (krb5_cc_initialize L workingCacheName p w))
            = krb5_cc_seq_get L src w)"

lemma peekTGT_stable:
  "stable_source L src \<Longrightarrow> krb5_cc_initialize L workingCacheName p w = (code, w') \<Longrightarrow>
     peekTGT L src w' = peekTGT L src w"
  unfolding stable_source_def peekTGT_def by (metis snd_conv)

lemma adopt_file_stable:
  assumes "stable_source L src" "adopt_file L src princ now c w = (err, c', w')"
    "peekTGT L src w = Inr (Some peek)"
  shows "err = None \<and> tgt c' \<in> {tgt c, None, Some (next_tgt c, peek)}"
  using assms(2,3) peekTGT_stable [OF assms(1), of "Some princ" w]
  by (auto simp: adopt_file_def Let_def split: op_splits dest!: loadFrom_peek)

lemma owner_ok_lastFileCheck [simp]: "owner_ok L (c\<lparr>lastFileCheck := now\<rparr>) w = owner_ok L c w"
  by (simp add: owner_ok_def split: sum.splits)


section \<open>Outcomes of a renewal\<close>

lemma setTGT_tgt:
  "setTGT L info c w = (err, c', w') \<Longrightarrow>
     (case err of None \<Rightarrow> c' = resetRenewBackoff (install_tgt info c) | Some _ \<Rightarrow> c' = c)"
  by (auto simp: setTGT_def split: op_splits)

text \<open>A renewal that fails never loses or changes the held TGT, for any library: when
  \<^verbatim>\<open>renewTGT\<close> returns an error the client holds the TGT it held before, no renewal is marked as
  running that was not before, and (unless another renewal was running, or there was nothing to
  renew) the next attempt is scheduled by the backoff; when it succeeds, the TGT was replaced by the
  one the exchange returned, with the backoff reset.\<close>

lemma renewTGT_outcome:
  assumes "tgt c = Some (a, t)" "\<not> renewing c"
    "renewExchange L (ti_wire t) w = (res, w1)" "renewTGT L now c w = (err, c', w')"
  shows "case err of
           Some e \<Rightarrow> c' = noteRenewFailure now c \<and> tgt c' = tgt c
         | None \<Rightarrow> \<exists>info. res = Inr info \<and> tgt c' = Some (next_tgt c, info) \<and>
                          renewBackoff c' = 0 \<and> renewRetryAt c' = zeroTime \<and> \<not> renewing c'"
proof -
  have c: "c\<lparr>renewing := False\<rparr> = c" using assms(2) by simp
  have fin: "renew_finish L (a, t) now res (c\<lparr>renewing := True\<rparr>) w1 = (err, c', w')"
    using assms by (simp add: renewTGT_def renew_start_def)
  show ?thesis
  proof (cases res)
    case (Inl e)
    with fin assms(1) c show ?thesis by (auto simp: renew_finish_def)
  next
    case (Inr info)
    obtain e2 c2 w2 where s: "setTGT L info c w1 = (e2, c2, w2)" using prod_cases3 by blast
    with fin assms(1,2) c Inr setTGT_tgt [OF s] show ?thesis
      by (auto simp: renew_finish_def resetRenewBackoff_def split: option.splits)
  qed
qed


section \<open>No panics while the source file is left alone\<close>

lemma loadNewerTGT_no_panic:
  assumes "stable_source L (FILE_name (srcPath c))" "loadNewerTGT L now c w = (err, c', w')"
  shows "err = None"
  using assms(2) adopt_file_stable [OF assms(1)]
  by (auto simp: loadNewerTGT_def Let_def split: op_splits)

lemma setTGT_srcPath: "setTGT L info c w = (err, c', w') \<Longrightarrow> srcPath c' = srcPath c"
  by (auto simp: setTGT_def install_tgt_def split: op_splits)

lemma renewTGT_srcPath: "renewTGT L now c w = (err, c', w') \<Longrightarrow> srcPath c' = srcPath c"
  by (auto simp: renewTGT_def renew_start_def renew_finish_def Let_def split: op_splits dest!: setTGT_srcPath)

lemma loadNewerTGT_srcPath: "loadNewerTGT L now c w = (err, c', w') \<Longrightarrow> srcPath c' = srcPath c"
  by (auto simp: loadNewerTGT_def adopt_file_def install_tgt_def Let_def split: op_splits)

lemma maintain_srcPath: "maintain L now c w = (err, c', w') \<Longrightarrow> srcPath c' = srcPath c"
  by (auto simp: maintain_def reload_section_def Let_def split: op_splits
      dest!: loadNewerTGT_srcPath renewTGT_srcPath)

lemma maintain_no_panic:
  assumes "stable_source L (FILE_name (srcPath c))" "maintain L now c w = (err, c', w')"
  shows "err = None"
  using assms(2) loadNewerTGT_no_panic [OF assms(1)]
  by (fastforce simp: maintain_def reload_section_def Let_def split: op_splits)

end
