(* ===== verification/Ops.thy ===== *)
theory Ops
  imports Client Sha1
begin

text \<open>
  \<^verbatim>\<open>internal/krb5c/ops.go\<close>: the operations a KCM request is answered with. Each borrows a context,
  brings the cache up to date where the source does (\<^verbatim>\<open>maintain\<close>), and works on the working cache.
  An operation run alone is the leader of its flight, so \<open>Retrieve\<close> calls \<^verbatim>\<open>getCredentials\<close>
  directly; joining a running flight is the subject of the theory \<open>Flight\<close>.
\<close>

section \<open>Walking the cache\<close>

record entry =
  e_UUID :: uuid
  e_Server :: principal
  e_Wire :: "byte list"

text \<open>The loop of \<^verbatim>\<open>forEachEntry\<close>; the callback updates the variables \<open>s\<close> it captures and says
  whether to stop.\<close>

type_synonym 's visitor = "krb5_creds \<Rightarrow> byte list \<Rightarrow> uuid \<Rightarrow> 's \<Rightarrow> bool \<times> 's"

fun walk :: "'w krb5_lib \<Rightarrow> 's visitor \<Rightarrow> krb5_creds list \<Rightarrow> i32 \<Rightarrow> 's \<Rightarrow> goerror option \<times> 's" where
  "walk L fn [] code s = ((if code = CCEnd then None else Some (krbErr L code)), s)"
| "walk L fn (cred # creds) code s =
     (if krb5_is_config_principal L (cr_server cred) then walk L fn creds code s
      else
     (case marshalCreds L cred of
        Inl err \<Rightarrow> (Some err, s)
      | Inr wire \<Rightarrow>
     (case fn cred wire (uuidOf wire) s of
        (stop, s) \<Rightarrow> if stop then (None, s) else walk L fn creds code s)))"

definition forEachEntry :: "'w krb5_lib \<Rightarrow> 's visitor \<Rightarrow> 's \<Rightarrow> 'w \<Rightarrow> goerror option \<times> 's" where
  "forEachEntry L fn s w =
     (case krb5_cc_seq_get L workingCacheName w of
        Inl code \<Rightarrow> (Some (krbErr L code), s)
      | Inr (creds, code, endcode) \<Rightarrow>
          (case walk L fn creds code s of
             (Some err, s) \<Rightarrow> (Some err, s)
           | (None, s) \<Rightarrow> (newError L endcode, s)))"

section \<open>Borrowing a context\<close>

type_synonym ('w, 'a) operation = "client \<Rightarrow> 'w \<Rightarrow> (goerror + 'a) \<times> client \<times> 'w"

definition with_context :: "'w krb5_lib \<Rightarrow> ('w, 'a) operation \<Rightarrow> ('w, 'a) operation" where
  "with_context L f c w =
     (case acquire L c w of
        Inl err \<Rightarrow> (Inl err, c, w)
      | Inr c \<Rightarrow> (case f c w of (r, c, w) \<Rightarrow> (r, release c, w)))"

definition maintained :: "'w krb5_lib \<Rightarrow> gotime \<Rightarrow> ('w, 'a) operation \<Rightarrow> ('w, 'a) operation" where
  "maintained L now f c w =
     (case maintain L now c w of
        (Some panic, c, w) \<Rightarrow> (Inl panic, c, w)
      | (None, c, w) \<Rightarrow> f c w)"

section \<open>Reading operations\<close>

definition defaultPrincipal :: "'w krb5_lib \<Rightarrow> 'w \<Rightarrow> goerror + principal" where
  "defaultPrincipal L w =
     (case krb5_cc_get_principal L workingCacheName w of
        Inl code \<Rightarrow> Inl (krbErr L code)
      | Inr princ \<Rightarrow> Inr (readPrincipal (Some princ)))"

definition DefaultPrincipal :: "'w krb5_lib \<Rightarrow> ('w, principal) operation" where
  "DefaultPrincipal L = with_context L (\<lambda>c w. (defaultPrincipal L w, c, w))"

text \<open>The entry a listing shows for a credential: a TGT goes out in its redacted form.\<close>

definition listed_wire :: "'w krb5_lib \<Rightarrow> client \<Rightarrow> krb5_creds \<Rightarrow> byte list \<Rightarrow> goerror + byte list" where
  "listed_wire L c cred wire =
     (if isTGTServer (readPrincipal (cr_server cred)) then marshalTGTForListing L c cred else Inr wire)"

definition list_visitor :: "'w krb5_lib \<Rightarrow> client \<Rightarrow> (entry list \<times> goerror option) visitor" where
  "list_visitor L c cred wire uuid = (\<lambda>(es, redErr).
     let server = readPrincipal (cr_server cred) in
     case listed_wire L c cred wire of
       Inl err \<Rightarrow> (True, es, Some err)
     | Inr w \<Rightarrow> (False, es @ [\<lparr>e_UUID = uuid, e_Server = server, e_Wire = w\<rparr>], redErr))"

definition list_entries :: "'w krb5_lib \<Rightarrow> client \<Rightarrow> 'w \<Rightarrow> goerror + entry list" where
  "list_entries L c w =
     (case forEachEntry L (list_visitor L c) ([], None) w of
        (err, es, redErr) \<Rightarrow>
          (case redErr of
             Some e \<Rightarrow> Inl e
           | None \<Rightarrow> (case err of Some e \<Rightarrow> Inl e | None \<Rightarrow> Inr es)))"

definition ListEntries :: "'w krb5_lib \<Rightarrow> gotime \<Rightarrow> ('w, entry list) operation" where
  "ListEntries L now =
     with_context L (maintained L now (\<lambda>c w. (list_entries L c w, c, w)))"

definition find_visitor ::
  "'w krb5_lib \<Rightarrow> client \<Rightarrow> uuid \<Rightarrow> (entry option \<times> goerror option) visitor" where
  "find_visitor L c uuid cred wire u = (\<lambda>(found, redErr).
     if u \<noteq> uuid then (False, found, redErr)
     else let server = readPrincipal (cr_server cred) in
          case listed_wire L c cred wire of
            Inl err \<Rightarrow> (True, found, Some err)
          | Inr w \<Rightarrow> (True, Some \<lparr>e_UUID = u, e_Server = server, e_Wire = w\<rparr>, redErr))"

definition find_entry :: "'w krb5_lib \<Rightarrow> uuid \<Rightarrow> client \<Rightarrow> 'w \<Rightarrow> goerror + entry option" where
  "find_entry L uuid c w =
     (case forEachEntry L (find_visitor L c uuid) (None, None) w of
        (err, found, redErr) \<Rightarrow>
          (case redErr of
             Some e \<Rightarrow> Inl e
           | None \<Rightarrow> (case err of Some e \<Rightarrow> Inl e | None \<Rightarrow> Inr found)))"

definition EntryByUUID :: "'w krb5_lib \<Rightarrow> gotime \<Rightarrow> uuid \<Rightarrow> ('w, entry option) operation" where
  "EntryByUUID L now uuid =
     with_context L (maintained L now (\<lambda>c w. (find_entry L uuid c w, c, w)))"

section \<open>Removal\<close>

definition wire_visitor :: "uuid \<Rightarrow> byte list option visitor" where
  "wire_visitor uuid cred wire u found = (if u \<noteq> uuid then (False, found) else (True, Some wire))"

definition remove_by_uuid :: "'w krb5_lib \<Rightarrow> uuid \<Rightarrow> ('w, bool) operation" where
  "remove_by_uuid L uuid c w =
     (case forEachEntry L (wire_visitor uuid) None w of
        (Some err, found) \<Rightarrow> (Inl err, c, w)
      | (None, None) \<Rightarrow> (Inr False, c, w)
      | (None, Some wire) \<Rightarrow>
          (case unmarshalCreds L wire of
             Inl err \<Rightarrow> (Inl err, c, w)
           | Inr creds \<Rightarrow>
               (case krb5_cc_remove_cred L workingCacheName 0 creds w of
                  (code, w) \<Rightarrow>
                    ((case newError L code of Some err \<Rightarrow> Inl err | None \<Rightarrow> Inr True), c, w))))"

definition RemoveByUUID :: "'w krb5_lib \<Rightarrow> uuid \<Rightarrow> ('w, bool) operation" where
  "RemoveByUUID L uuid = with_context L (remove_by_uuid L uuid)"

section \<open>Match templates\<close>

definition empty_creds :: krb5_creds where
  "empty_creds =
     \<lparr>cr_client = None, cr_server = None, cr_enctype = 0, cr_key = [], cr_authtime = 0,
      cr_starttime = 0, cr_endtime = 0, cr_renew_till = 0, cr_is_skey = False, cr_ticket_flags = 0,
      cr_addresses = [], cr_authdata = [], cr_ticket = [], cr_second_ticket = []\<rparr>"

definition template_client :: "'w krb5_lib \<Rightarrow> match_credential \<Rightarrow> 'w \<Rightarrow> goerror + krb5_principal" where
  "template_client L mc w =
     (if HasClient mc then wrap ''client principal: '' (buildPrincipal L (Client mc))
      else (case krb5_cc_get_principal L workingCacheName w of
              Inl code \<Rightarrow> Inl (krbErr L code)
            | Inr p \<Rightarrow> Inr p))"

definition buildMatchTemplate :: "'w krb5_lib \<Rightarrow> match_credential \<Rightarrow> 'w \<Rightarrow> goerror + krb5_creds" where
  "buildMatchTemplate L mc w =
     and_then (template_client L mc w) (\<lambda>client.
       if \<not> HasServer mc then Inl (PlainError ''match-credential has no server principal'')
       else and_then (wrap ''server principal: '' (buildPrincipal L (Server mc))) (\<lambda>server.
         let creds = empty_creds\<lparr>cr_client := Some client, cr_server := Some server\<rparr>;
             creds = (if HasSessionKey mc then creds\<lparr>cr_enctype := KeyType mc\<rparr> else creds);
             creds = (if IsSKey mc then creds\<lparr>cr_is_skey := True\<rparr> else creds);
             creds = (if HasSecondTicket mc \<and> 0 < length (SecondTicket mc)
                      then creds\<lparr>cr_second_ticket := SecondTicket mc\<rparr> else creds)
         in Inr creds))"

section \<open>Retrieval\<close>

definition getCredentials :: "'w krb5_lib \<Rightarrow> match_credential \<Rightarrow> 'w \<Rightarrow> (goerror + byte list) \<times> 'w" where
  "getCredentials L mc w =
     (case buildMatchTemplate L mc w of
        Inl err \<Rightarrow> (Inl err, w)
      | Inr inCreds \<Rightarrow>
          if krb5_is_config_principal L (cr_server inCreds)
          then (Inl (KrbError CCNotFound ''Matching credential not found''), w)
          else (case krb5_get_credentials L 0 workingCacheName inCreds w of
                  (Inl code, w) \<Rightarrow> (Inl (krbErr L code), w)
                | (Inr outCreds, w) \<Rightarrow> (marshalCreds L outCreds, w)))"

definition matchKey :: "match_credential \<Rightarrow> string" where
  "matchKey mc =
     (if HasClient mc then UnparseName (Client mc) else [])
     @ [CHR 0x00] @ UnparseName (Server mc)
     @ (if HasSessionKey mc then [CHR 0x00] @ ''enctype='' @ fmt_int (sint (KeyType mc)) else [])
     @ (if IsSKey mc then [CHR 0x00] @ ''skey'' else [])
     @ (if HasSecondTicket mc \<and> 0 < length (SecondTicket mc)
        then [CHR 0x00] @ ''second='' @ string_of_bytes (SecondTicket mc) else [])"

definition Retrieve :: "'w krb5_lib \<Rightarrow> gotime \<Rightarrow> match_credential \<Rightarrow> ('w, byte list) operation" where
  "Retrieve L now mc c w =
     (if HasServer mc \<and> isTGTServer (Server mc)
      then (Inl (KrbError FCCPerm ''retrieval of the ticket-granting ticket is not permitted''), c, w)
      else with_context L (maintained L now (\<lambda>c w.
             case tgtError c now of
               Some err \<Rightarrow> (Inl err, c, w)
             | None \<Rightarrow> (case getCredentials L mc w of (r, w) \<Rightarrow> (r, c, w)))) c w)"

section \<open>Updating operations\<close>

definition remove_matching :: "'w krb5_lib \<Rightarrow> match_credential \<Rightarrow> ('w, unit) operation" where
  "remove_matching L mc c w =
     (case buildMatchTemplate L mc w of
        Inl err \<Rightarrow> (Inl err, c, w)
      | Inr inCreds \<Rightarrow>
          (case krb5_cc_remove_cred L workingCacheName 0 inCreds w of
             (code, w) \<Rightarrow>
               ((case newError L code of Some err \<Rightarrow> Inl err | None \<Rightarrow> Inr ()), c, w)))"

definition RemoveMatching :: "'w krb5_lib \<Rightarrow> match_credential \<Rightarrow> ('w, unit) operation" where
  "RemoveMatching L mc = with_context L (remove_matching L mc)"

definition store_plain :: "'w krb5_lib \<Rightarrow> krb5_creds \<Rightarrow> ('w, unit) operation" where
  "store_plain L creds c w =
     (case krb5_cc_store_cred L workingCacheName creds w of
        (code, w) \<Rightarrow> ((case newError L code of Some err \<Rightarrow> Inl err | None \<Rightarrow> Inr ()), c, w))"

definition adopt_stored :: "'w krb5_lib \<Rightarrow> krb5_creds \<Rightarrow> ('w, unit) operation" where
  "adopt_stored L creds c w =
     (case tgtInfoFrom L creds of
        Inl err \<Rightarrow> (Inl err, c, w)
      | Inr info \<Rightarrow>
          (case setTGT L info c w of
             (Some err, c, w) \<Rightarrow> (Inl err, c, w)
           | (None, c, w) \<Rightarrow> (Inr (), c, w)))"

definition store_creds :: "'w krb5_lib \<Rightarrow> byte list \<Rightarrow> ('w, unit) operation" where
  "store_creds L credWire c w =
     (case unmarshalCreds L credWire of
        Inl err \<Rightarrow> (Inl err, c, w)
      | Inr creds \<Rightarrow>
          (let client = readPrincipal (cr_client creds); server = readPrincipal (cr_server creds) in
           if isLocalTGT client server
           then (case defaultPrincipal L w of
                   Inl err \<Rightarrow> (Inl err, c, w)
                 | Inr mine \<Rightarrow>
                     if UnparseName mine = UnparseName client then adopt_stored L creds c w
                     else store_plain L creds c w)
           else store_plain L creds c w))"

definition Store :: "'w krb5_lib \<Rightarrow> byte list \<Rightarrow> ('w, unit) operation" where
  "Store L credWire = with_context L (store_creds L credWire)"

definition initialize_cache :: "'w krb5_lib \<Rightarrow> principal \<Rightarrow> ('w, unit) operation" where
  "initialize_cache L p c w =
     (case buildPrincipal L p of
        Inl err \<Rightarrow> (Inl err, c, w)
      | Inr princ \<Rightarrow>
          (case krb5_cc_initialize L workingCacheName (Some princ) w of
             (code, w) \<Rightarrow>
               if code \<noteq> 0 then (Inl (krbErr L code), c, w)
               else (Inr (), resetRenewBackoff (c\<lparr>tgt := None\<rparr>), w)))"

definition Initialize :: "'w krb5_lib \<Rightarrow> principal \<Rightarrow> ('w, unit) operation" where
  "Initialize L p = with_context L (initialize_cache L p)"


section \<open>What a listing shows\<close>

text \<open>Entry \<open>e\<close> is how a listing shows credential \<open>cr\<close>.\<close>

definition shows_cred :: "'w krb5_lib \<Rightarrow> client \<Rightarrow> krb5_creds \<Rightarrow> entry \<Rightarrow> bool" where
  "shows_cred L c cr e \<longleftrightarrow>
     (\<exists>wire. marshalCreds L cr = Inr wire \<and> e_UUID e = uuidOf wire \<and>
             e_Server e = readPrincipal (cr_server cr) \<and> listed_wire L c cr wire = Inr (e_Wire e))"

lemma list_visitor_apply:
  "list_visitor L c cred wire uuid (es, redErr) =
     (case listed_wire L c cred wire of
        Inl err \<Rightarrow> (True, es, Some err)
      | Inr w \<Rightarrow> (False, es @ [\<lparr>e_UUID = uuid, e_Server = readPrincipal (cr_server cred), e_Wire = w\<rparr>], redErr))"
  by (simp add: list_visitor_def)

lemma find_visitor_apply:
  "find_visitor L c uuid cred wire u (found, redErr) =
     (if u \<noteq> uuid then (False, found, redErr)
      else (case listed_wire L c cred wire of
              Inl err \<Rightarrow> (True, found, Some err)
            | Inr w \<Rightarrow> (True, Some \<lparr>e_UUID = u, e_Server = readPrincipal (cr_server cred), e_Wire = w\<rparr>, redErr)))"
  by (simp add: find_visitor_def)

lemma walk_list:
  "walk L (list_visitor L c) creds code (es0, None) = (None, es, None) \<Longrightarrow>
   code = CCEnd \<and>
   (\<exists>es1. es = es0 @ es1 \<and>
     list_all2 (shows_cred L c) (filter (\<lambda>cr. \<not> krb5_is_config_principal L (cr_server cr)) creds) es1)"
proof (induction creds arbitrary: es0)
  case (Cons cr creds)
  show ?case
  proof (cases "krb5_is_config_principal L (cr_server cr)")
    case False
    with Cons.prems obtain wire w where w: "marshalCreds L cr = Inr wire"
      "listed_wire L c cr wire = Inr w"
      by (auto simp: list_visitor_apply split: sum.splits)
    let ?e = "\<lparr>e_UUID = uuidOf wire, e_Server = readPrincipal (cr_server cr), e_Wire = w\<rparr>"
    from Cons.prems False w have "walk L (list_visitor L c) creds code (es0 @ [?e], None) = (None, es, None)"
      by (simp add: list_visitor_apply)
    from Cons.IH [OF this] obtain es1 where "code = CCEnd" "es = es0 @ ?e # es1"
      "list_all2 (shows_cred L c)
         (filter (\<lambda>cr. \<not> krb5_is_config_principal L (cr_server cr)) creds) es1"
      by auto
    moreover have "shows_cred L c cr ?e" using w by (simp add: shows_cred_def)
    ultimately show ?thesis using False by auto
  qed (use Cons in simp)
qed (auto split: if_splits)

lemma list_entries_cases:
  assumes "list_entries L c w = Inr es"
  obtains creds code endcode where "krb5_cc_seq_get L workingCacheName w = Inr (creds, code, endcode)"
    "walk L (list_visitor L c) creds code ([], None) = (None, es, None)" "newError L endcode = None"
  using assms
  by (auto simp: list_entries_def forEachEntry_def split: sum.splits prod.splits option.splits)

lemma walk_find:
  assumes "walk L (list_visitor L c) creds code (es0, None) = (None, es0 @ es, None)"
  shows "walk L (find_visitor L c u) creds code (None, None)
           = (None, List.find (\<lambda>e. e_UUID e = u) es, None)"
  using assms
proof (induction creds arbitrary: es0 es)
  case (Cons cr creds)
  show ?case
  proof (cases "krb5_is_config_principal L (cr_server cr)")
    case False
    with Cons.prems obtain wire w where w: "marshalCreds L cr = Inr wire"
      "listed_wire L c cr wire = Inr w"
      by (auto simp: list_visitor_apply split: sum.splits)
    let ?e = "\<lparr>e_UUID = uuidOf wire, e_Server = readPrincipal (cr_server cr), e_Wire = w\<rparr>"
    from Cons.prems False w
    have rest: "walk L (list_visitor L c) creds code (es0 @ [?e], None) = (None, es0 @ es, None)"
      by (simp add: list_visitor_apply)
    from walk_list [OF this] obtain es1 where es: "es = ?e # es1" by auto
    with rest have "walk L (list_visitor L c) creds code (es0 @ [?e], None) = (None, (es0 @ [?e]) @ es1, None)"
      by simp
    from Cons.IH [OF this] show ?thesis
      using False w es by (simp add: find_visitor_apply)
  qed (use Cons in simp)
qed (auto split: if_splits)

text \<open>Listing and fetching agree, for any library. Whenever listing the cache succeeds, fetching
  by UUID at the same moment succeeds too, and gives the first listed entry with that UUID
  (identical, redaction included), or reports that there is none.\<close>

lemma find_entry_agrees_with_listing:
  assumes "list_entries L c w = Inr es"
  shows "find_entry L u c w = Inr (List.find (\<lambda>e. e_UUID e = u) es)"
proof -
  from assms obtain creds code endcode where
    "krb5_cc_seq_get L workingCacheName w = Inr (creds, code, endcode)"
    "walk L (list_visitor L c) creds code ([], None) = (None, es, None)" "newError L endcode = None"
    by (rule list_entries_cases)
  with walk_find [of L c creds code "[]" es u] show ?thesis
    by (simp add: find_entry_def forEachEntry_def)
qed

text \<open>The redacted form does not depend on the session key.\<close>

lemma marshalTGTForListing_key: "marshalTGTForListing L c (cr\<lparr>cr_key := k\<rparr>) = marshalTGTForListing L c cr"
  by (simp add: marshalTGTForListing_def local_tgt_def Let_def split: option.splits)

text \<open>Two credentials a listing client must not tell apart by their encoding: they are equal, or
  they are the same TGT (local or cross-realm) with different session keys.\<close>

definition same_but_tgt_key :: "krb5_creds \<Rightarrow> krb5_creds \<Rightarrow> bool" where
  "same_but_tgt_key a b \<longleftrightarrow>
     a = b \<or> isTGTServer (readPrincipal (cr_server a)) \<and> (\<exists>k. b = a\<lparr>cr_key := k\<rparr>)"

lemma same_but_tgt_key_server: "same_but_tgt_key a b \<Longrightarrow> cr_server a = cr_server b"
  by (auto simp: same_but_tgt_key_def)

lemma shows_cred_same:
  assumes "same_but_tgt_key a b" "shows_cred L c a e" "shows_cred L c b f"
  shows "e_Server e = e_Server f \<and> e_Wire e = e_Wire f"
  using assms
  by (auto simp: same_but_tgt_key_def shows_cred_def listed_wire_def marshalTGTForListing_key)

lemma list_all2_filter_server:
  assumes "list_all2 same_but_tgt_key as bs"
  shows "list_all2 same_but_tgt_key (filter (\<lambda>cr. P (cr_server cr)) as) (filter (\<lambda>cr. P (cr_server cr)) bs)"
  using assms by (induction rule: list_all2_induct) (auto dest: same_but_tgt_key_server)

lemma shows_creds_same:
  assumes "list_all2 same_but_tgt_key as bs" "list_all2 (shows_cred L c) as es"
    "list_all2 (shows_cred L c) bs fs"
  shows "map (\<lambda>e. (e_Server e, e_Wire e)) es = map (\<lambda>e. (e_Server e, e_Wire e)) fs"
  using assms
  by (induction as bs arbitrary: es fs rule: list_all2_induct)
    (auto simp: list_all2_Cons1 dest: shows_cred_same)

context mem_ccache
begin

lemma list_entries_shows:
  assumes "list_entries L c w = Inr es"
  shows "list_all2 (shows_cred L c)
           (filter (\<lambda>cr. \<not> krb5_is_config_principal L (cr_server cr)) (entries w)) es"
  using assms by (rule list_entries_cases) (auto simp: seq_get dest!: walk_list)

end



section \<open>Invariants of the operations\<close>

lemma acquire_fields:
  "acquire L c w = Inr c' \<Longrightarrow> c' = c\<lparr>idle := idle c'\<rparr>"
  by (auto simp: acquire_def split: if_splits option.splits)

lemma with_context_cases:
  assumes "with_context L f c w = (r, c', w')"
  obtains (no_context) err where "r = Inl err" "c' = c" "w' = w"
  | (ran) i c2 where "f (c\<lparr>idle := i\<rparr>) w = (r, c2, w')" "c' = release c2"
  using assms
  by (auto simp: with_context_def split: sum.splits prod.splits)
    (metis acquire_fields)

lemma release_fields [simp]: "tgt (release c) = tgt c" "renewing (release c) = renewing c"
  by (simp_all add: release_def)

text \<open>An operation keeps a property of client and library state that the number of idle contexts
  does not matter to.\<close>

definition keeps :: "(client \<Rightarrow> 'w \<Rightarrow> bool) \<Rightarrow> ('w, 'a) operation \<Rightarrow> bool" where
  "keeps I f \<longleftrightarrow> (\<forall>c w r c' w'. I c w \<longrightarrow> f c w = (r, c', w') \<longrightarrow> I c' w')"

lemma keepsD: "keeps I f \<Longrightarrow> I c w \<Longrightarrow> f c w = (r, c', w') \<Longrightarrow> I c' w'"
  unfolding keeps_def by blast

lemma keeps_with_context:
  assumes "\<And>c i w. I (c\<lparr>idle := i\<rparr>) w = I c w" "keeps I f"
  shows "keeps I (with_context L f)"
  unfolding keeps_def
proof (intro allI impI)
  fix c w r c' w'
  assume I: "I c w" and r: "with_context L f c w = (r, c', w')"
  from r show "I c' w'"
  proof (cases rule: with_context_cases)
    case (ran i c2)
    then have "I c2 w'" using keepsD [OF assms(2)] I assms(1) by metis
    then show ?thesis using ran(2) assms(1) by (simp add: release_def)
  qed (use I in simp)
qed

lemma keeps_maintained:
  assumes "\<And>c w e c' w'. I c w \<Longrightarrow> maintain L now c w = (e, c', w') \<Longrightarrow> I c' w'" "keeps I f"
  shows "keeps I (maintained L now f)"
  unfolding keeps_def
proof (intro allI impI)
  fix c w r c' w'
  assume I: "I c w" and r: "maintained L now f c w = (r, c', w')"
  obtain e c1 w1 where m: "maintain L now c w = (e, c1, w1)" using prod_cases3 by blast
  with assms(1) [OF I m] r keepsD [OF assms(2)] show "I c' w'"
    by (auto simp: maintained_def split: option.splits)
qed

lemma keeps_read [simp]: "keeps I (\<lambda>c w. (f c w, c, w))"
  by (simp add: keeps_def)

context mem_ccache
begin

abbreviation guarded_cw :: "client \<Rightarrow> 'w \<Rightarrow> bool" where
  "guarded_cw c w \<equiv> guarded w"

lemma keeps_guarded_context: "keeps guarded_cw f \<Longrightarrow> keeps guarded_cw (with_context L f)"
  by (rule keeps_with_context) simp_all

lemma keeps_guarded_maintained: "keeps guarded_cw f \<Longrightarrow> keeps guarded_cw (maintained L now f)"
  by (rule keeps_maintained) (auto dest: guarded_maintain)

lemma guarded_getCredentials: "guarded w \<Longrightarrow> getCredentials L mc w = (r, w') \<Longrightarrow> guarded w'"
  by (auto simp: getCredentials_def split: op_splits dest: guarded_get_credentials)

lemma keeps_guarded_Retrieve: "keeps guarded_cw (Retrieve L now mc)"
proof -
  have "keeps guarded_cw (with_context L (maintained L now (\<lambda>c w.
      case tgtError c now of
        Some err \<Rightarrow> (Inl err, c, w)
      | None \<Rightarrow> (case getCredentials L mc w of (r, w) \<Rightarrow> (r, c, w)))))"
    by (intro keeps_guarded_context keeps_guarded_maintained)
      (auto simp: keeps_def split: op_splits dest: guarded_getCredentials)
  then show ?thesis by (auto simp: keeps_def Retrieve_def)
qed

lemma keeps_guarded_remove_by_uuid: "keeps guarded_cw (remove_by_uuid L uuid)"
  by (auto simp: keeps_def remove_by_uuid_def split: op_splits dest: guarded_remove_cred)

lemma keeps_guarded_remove_matching: "keeps guarded_cw (remove_matching L mc)"
  by (auto simp: keeps_def remove_matching_def split: op_splits dest: guarded_remove_cred)

lemma keeps_guarded_initialize_cache: "keeps guarded_cw (initialize_cache L p)"
  by (auto simp: keeps_def initialize_cache_def split: op_splits dest: guarded_initialize)

text \<open>A TGT that \<^verbatim>\<open>Store\<close> does not adopt belongs to another principal than the cache's.\<close>

lemma foreign_guarded:
  assumes "defaultPrincipal L w = Inr mine"
    "UnparseName mine \<noteq> UnparseName (readPrincipal (cr_client cr))"
  shows "tgt_guarded (owner w) cr"
proof -
  from assms(1) obtain p where "krb5_cc_get_principal L workingCacheName w = Inr p"
    "mine = readPrincipal (Some p)"
    by (auto simp: defaultPrincipal_def split: sum.splits)
  then have "mine = readPrincipal (owner w)" using get_principal by metis
  with assms(2) show ?thesis
    using same_principal_UnparseName by (auto simp: tgt_guarded_def)
qed

lemma guarded_store_plain:
  "guarded w \<Longrightarrow> tgt_guarded (owner w) cr \<Longrightarrow> store_plain L cr c w = (r, c', w') \<Longrightarrow> guarded w'"
  by (auto simp: store_plain_def split: op_splits dest: guarded_store_cred)

lemma guarded_adopt_stored: "guarded w \<Longrightarrow> adopt_stored L cr c w = (r, c', w') \<Longrightarrow> guarded w'"
  by (auto simp: adopt_stored_def split: op_splits dest: guarded_setTGT)

lemma keeps_guarded_store_creds: "keeps guarded_cw (store_creds L wire)"
  unfolding keeps_def
  by (auto simp: store_creds_def Let_def local_tgt_def [symmetric] split: op_splits
      intro: guarded_store_plain guarded_adopt_stored foreign_guarded tgt_guarded_not_local)

lemma keeps_guarded_operations:
  "keeps guarded_cw (DefaultPrincipal L)" "keeps guarded_cw (ListEntries L now)"
  "keeps guarded_cw (EntryByUUID L now uuid)" "keeps guarded_cw (RemoveByUUID L uuid)"
  "keeps guarded_cw (RemoveMatching L mc)" "keeps guarded_cw (Store L wire)"
  "keeps guarded_cw (Initialize L p)"
  by (simp_all add: DefaultPrincipal_def ListEntries_def EntryByUUID_def RemoveByUUID_def
      RemoveMatching_def Store_def Initialize_def keeps_guarded_context keeps_guarded_maintained
      keeps_guarded_remove_by_uuid keeps_guarded_remove_matching keeps_guarded_store_creds
      keeps_guarded_initialize_cache)

end

context reliable_ccache
begin

lemma held_idle: "held (c\<lparr>idle := i\<rparr>) w = held c w"
  by (simp add: tgt_in_cache_def)

lemma keeps_held_context: "keeps held f \<Longrightarrow> keeps held (with_context L f)"
  by (rule keeps_with_context) (simp_all add: held_idle)

lemma keeps_held_maintained: "keeps held f \<Longrightarrow> keeps held (maintained L now f)"
  by (rule keeps_maintained) (auto dest: held_maintain)

lemma held_getCredentials: "held c w \<Longrightarrow> getCredentials L mc w = (r, w') \<Longrightarrow> held c w'"
  by (auto simp: getCredentials_def split: op_splits
      dest!: get_credentials intro: tgt_in_cache_grow)

lemma keeps_held_Retrieve: "keeps held (Retrieve L now mc)"
proof -
  have "keeps held (with_context L (maintained L now (\<lambda>c w.
      case tgtError c now of
        Some err \<Rightarrow> (Inl err, c, w)
      | None \<Rightarrow> (case getCredentials L mc w of (r, w) \<Rightarrow> (r, c, w)))))"
    by (intro keeps_held_context keeps_held_maintained)
      (auto simp: keeps_def split: op_splits dest: held_getCredentials)
  then show ?thesis by (auto simp: keeps_def Retrieve_def)
qed

lemma keeps_held_initialize_cache: "keeps held (initialize_cache L p)"
  by (auto simp: keeps_def initialize_cache_def tgt_in_cache_def split: op_splits
      dest!: initialize)

lemma held_store_plain: "held c w \<Longrightarrow> store_plain L cr c w = (r, c', w') \<Longrightarrow> held c' w'"
  by (auto simp: store_plain_def split: op_splits dest!: store_cred intro: tgt_in_cache_grow)

lemma held_adopt_stored:
  assumes "held c w" "local_tgt cr" "adopt_stored L cr c w = (r, c', w')"
  shows "held c' w'"
proof (cases "tgtInfoFrom L cr")
  case (Inr info)
  from setTGT_ok [OF Inr assms(2,1)] assms(3) Inr show ?thesis
    by (auto simp: adopt_stored_def tgt_in_cache_def)
qed (use assms in \<open>simp add: adopt_stored_def\<close>)

lemma keeps_held_store_creds: "keeps held (store_creds L wire)"
  unfolding keeps_def
  by (auto simp: store_creds_def Let_def local_tgt_def [symmetric] split: op_splits
      intro: held_store_plain held_adopt_stored)

lemma keeps_held_operations:
  "keeps held (DefaultPrincipal L)" "keeps held (ListEntries L now)"
  "keeps held (EntryByUUID L now uuid)" "keeps held (Store L wire)" "keeps held (Initialize L p)"
  by (simp_all add: DefaultPrincipal_def ListEntries_def EntryByUUID_def Store_def Initialize_def
      keeps_held_context keeps_held_maintained keeps_held_store_creds keeps_held_initialize_cache)

end


section \<open>Coalescing keys\<close>

text \<open>What a template is built from.\<close>

definition template_fields ::
  "match_credential \<Rightarrow> string option \<times> string \<times> i32 option \<times> bool \<times> byte list option" where
  "template_fields mc =
     ((if HasClient mc then Some (UnparseName (Client mc)) else None),
      UnparseName (Server mc),
      (if HasSessionKey mc then Some (KeyType mc) else None),
      IsSKey mc,
      (if HasSecondTicket mc \<and> 0 < length (SecondTicket mc) then Some (SecondTicket mc) else None))"

lemma buildMatchTemplate_fields:
  assumes "template_fields mc = template_fields mc'" "HasServer mc = HasServer mc'"
  shows "buildMatchTemplate L mc w = buildMatchTemplate L mc' w"
  using assms
  by (auto simp: buildMatchTemplate_def template_client_def template_fields_def buildPrincipal_def
      and_then_def wrap_def split: if_splits sum.splits)

definition NUL_start :: "string \<Rightarrow> bool" where
  "NUL_start t \<longleftrightarrow> t = [] \<or> (\<exists>u. t = CHR 0x00 # u)"

lemma NUL_split:
  assumes "s @ t = s' @ t'" "CHR 0x00 \<notin> set s" "CHR 0x00 \<notin> set s'" "NUL_start t" "NUL_start t'"
  shows "s = s' \<and> t = t'"
proof -
  have "takeWhile (\<lambda>c. c \<noteq> CHR 0x00) (x @ y) = x" if "CHR 0x00 \<notin> set x" "NUL_start y" for x y
    using that by (subst takeWhile_append2) (auto simp: NUL_start_def)
  with assms have "s = s'" by metis
  with assms(1) show ?thesis by simp
qed

definition second_tail :: "byte list option \<Rightarrow> string" where
  "second_tail o2 = (case o2 of None \<Rightarrow> [] | Some b \<Rightarrow> [CHR 0x00] @ ''second='' @ string_of_bytes b)"

definition skey_tail :: "bool \<Rightarrow> byte list option \<Rightarrow> string" where
  "skey_tail sk o2 = (if sk then [CHR 0x00] @ ''skey'' else []) @ second_tail o2"

definition enctype_tail :: "i32 option \<Rightarrow> bool \<Rightarrow> byte list option \<Rightarrow> string" where
  "enctype_tail k sk o2 =
     (case k of None \<Rightarrow> [] | Some t \<Rightarrow> [CHR 0x00] @ ''enctype='' @ fmt_int (sint t)) @ skey_tail sk o2"

lemmas tail_defs = second_tail_def skey_tail_def enctype_tail_def NUL_start_def

lemma string_of_bytes_inject [simp]: "string_of_bytes a = string_of_bytes b \<longleftrightarrow> a = b"
  by (metis bytes_of_string_of_bytes)

lemma skey_tail_inject: "skey_tail sk o2 = skey_tail sk' o2' \<Longrightarrow> sk = sk' \<and> o2 = o2'"
  by (auto simp: tail_defs split: if_splits option.splits)

lemma enctype_tail_inject:
  assumes "enctype_tail k sk o2 = enctype_tail k' sk' o2'"
  shows "k = k' \<and> sk = sk' \<and> o2 = o2'"
proof (cases "k = None \<or> k' = None")
  case True
  with assms have "k = k'"
    by (auto simp: tail_defs split: if_splits option.splits)
  with assms True show ?thesis using skey_tail_inject by (auto simp: enctype_tail_def)
next
  case False
  then obtain t t' where t: "k = Some t" "k' = Some t'" by auto
  have "NUL_start (skey_tail sk o2)" for sk o2
    by (auto simp: tail_defs split: option.splits)
  with assms t have "fmt_int (sint t) = fmt_int (sint t') \<and> skey_tail sk o2 = skey_tail sk' o2'"
    by (intro NUL_split) (auto simp: enctype_tail_def fmt_int_no_NUL)
  with t show ?thesis using skey_tail_inject by (auto intro: signed_word_eqI)
qed

lemma matchKey_tails:
  assumes "template_fields mc = (cl, sv, k, sk, o2)"
  shows "matchKey mc = (case cl of None \<Rightarrow> [] | Some s \<Rightarrow> s) @ [CHR 0x00] @ sv @ enctype_tail k sk o2"
  using assms by (auto simp: matchKey_def template_fields_def tail_defs)

lemma template_fields_no_NUL:
  assumes "template_fields mc = (cl, sv, k, sk, o2)"
  shows "CHR 0x00 \<notin> set (case cl of None \<Rightarrow> [] | Some s \<Rightarrow> s)" "CHR 0x00 \<notin> set sv"
  using assms UnparseName_no_NUL by (auto simp: template_fields_def split: if_splits)

lemma template_fields_client:
  assumes "template_fields mc = (cl, sv, k, sk, o2)" "HasClient mc \<Longrightarrow> UnparseName (Client mc) \<noteq> []"
  shows "cl \<noteq> Some []"
  using assms by (auto simp: template_fields_def split: if_splits)


text \<open>Without the restriction keys collide: an explicit but empty client is taken for no client.\<close>

lemma matchKey_collision:
  assumes "\<not> HasClient mc"
  shows "matchKey (mc\<lparr>HasClient := True, Client := no_principal\<rparr>) = matchKey mc"
  using assms by (simp add: matchKey_def no_principal_def UnparseName_def)


definition mc_host :: "i32 \<Rightarrow> match_credential" where
  "mc_host name_type =
     empty_mc\<lparr>HasServer := True, IsSKey := True,
       Server := \<lparr>Type = name_type, Realm = ''R'', Components = [''host'', ''a.b'']\<rparr>\<rparr>"


section \<open>Retrieval\<close>

lemma getCredentials_success:
  assumes "getCredentials L mc w = (Inr wire, w')"
  shows "\<exists>tmpl cr. buildMatchTemplate L mc w = Inr tmpl \<and>
           \<not> krb5_is_config_principal L (cr_server tmpl) \<and>
           krb5_get_credentials L 0 workingCacheName tmpl w = (Inr cr, w') \<and>
           marshalCreds L cr = Inr wire"
  using assms by (auto simp: getCredentials_def split: op_splits)

lemma buildMatchTemplate_times:
  assumes "buildMatchTemplate L mc w = Inr tmpl"
  shows "HasServer mc \<and> cr_authtime tmpl = 0 \<and> cr_starttime tmpl = 0 \<and> cr_endtime tmpl = 0 \<and>
         cr_renew_till tmpl = 0"
  using assms
  by (auto simp: buildMatchTemplate_def and_then_Inr Let_def empty_creds_def split: if_splits)

text \<open>C21: what a successful retrieve means, for any library. The requested server is not a
  ticket-granting service; the daemon holds a TGT that has not expired; and the answer is the
  encoding of what \<^verbatim>\<open>krb5_get_credentials\<close> returned for the request's template, called with option
  word 0 (a KDC exchange is allowed) and with no end time requested, on a server that is not a
  configuration entry.\<close>

theorem Retrieve_success:
  assumes "Retrieve L now mc c w = (Inr wire, c', w')"
  shows "HasServer mc \<and> \<not> isTGTServer (Server mc) \<and>
         (\<exists>a t. tgt c' = Some (a, t) \<and> now < ti_endTime t) \<and>
         (\<exists>w1 tmpl cr. buildMatchTemplate L mc w1 = Inr tmpl \<and> cr_endtime tmpl = 0 \<and>
            \<not> krb5_is_config_principal L (cr_server tmpl) \<and>
            krb5_get_credentials L 0 workingCacheName tmpl w1 = (Inr cr, w') \<and>
            marshalCreds L cr = Inr wire)"
proof -
  have not_tgt: "\<not> (HasServer mc \<and> isTGTServer (Server mc))"
    using assms by (auto simp: Retrieve_def)
  obtain c1 w1 where tgt_ok: "tgtError c1 now = None" and got: "getCredentials L mc w1 = (Inr wire, w')"
    and c': "tgt c' = tgt c1"
    using assms not_tgt
    by (auto simp: Retrieve_def maintained_def elim!: with_context_cases split: op_splits)
  have "\<exists>a t. tgt c' = Some (a, t) \<and> now < ti_endTime t"
    using tgt_ok c' by (auto simp: tgtError_def expired_def time_defs split: option.splits if_splits)
  moreover obtain tmpl cr where "buildMatchTemplate L mc w1 = Inr tmpl"
    "\<not> krb5_is_config_principal L (cr_server tmpl)"
    "krb5_get_credentials L 0 workingCacheName tmpl w1 = (Inr cr, w')" "marshalCreds L cr = Inr wire"
    using getCredentials_success [OF got] by blast
  moreover from this(1) have "HasServer mc" "cr_endtime tmpl = 0"
    using buildMatchTemplate_times [of L mc w1 tmpl] by simp_all
  ultimately show ?thesis using not_tgt by blast
qed

section \<open>Initialising and storing\<close>

lemma initialize_cache_effect:
  assumes "mem_ccache L entries owner" "initialize_cache L p c w = (Inr r, c', w')"
  shows "entries w' = [] \<and> tgt c' = None \<and> (\<exists>q. buildPrincipal L p = Inr q \<and> owner w' = Some q)"
  using assms(2) mem_ccache.initialize [OF assms(1)]
  by (fastforce simp: initialize_cache_def split: op_splits)

lemma Initialize_effect:
  assumes "mem_ccache L entries owner" "Initialize L p c w = (r, c', w')"
  shows "case r of
           Inr _ \<Rightarrow> entries w' = [] \<and> tgt c' = None \<and>
                     (\<exists>q. buildPrincipal L p = Inr q \<and> owner w' = Some q)
         | Inl err \<Rightarrow> entries w' = entries w \<and> tgt c' = tgt c"
  using assms(2) unfolding Initialize_def
proof (cases rule: with_context_cases)
  case (ran i c2)
  show ?thesis
  proof (cases r)
    case (Inl err)
    with ran mem_ccache.initialize [OF assms(1)] show ?thesis
      by (fastforce simp: initialize_cache_def split: op_splits)
  next
    case (Inr u)
    with ran initialize_cache_effect [OF assms(1)] show ?thesis by fastforce
  qed
qed simp

text \<open>C28: kinit into the KCM cache. For a library with reliable MEMORY caches, storing a local TGT
  of the cache's own principal while the held TGT (if any) is in the cache always succeeds (given a
  context): the daemon then holds exactly that TGT, with its real flags, and the working cache holds
  its copy with the renewable flag cleared.\<close>

theorem Store_adopts_TGT:
  assumes "reliable_ccache L entries owner" "tgt_in_cache L entries c w" "0 < idle c"
    "unmarshalCreds L wire = Inr cr" "local_tgt cr" "tgtInfoFrom L cr = Inr info"
    "defaultPrincipal L w = Inr mine" "UnparseName mine = UnparseName (readPrincipal (cr_client cr))"
  shows "\<exists>c' w'. Store L wire c w = (Inr (), c', w') \<and> tgt c' = Some (next_tgt c, info) \<and>
           ti_flags info = cr_ticket_flags cr \<and> copy_in_cache L (entries w') info"
proof -
  let ?c = "c\<lparr>idle := idle c - 1\<rparr>"
  have "tgt_in_cache L entries ?c w" using assms(2) by (simp add: tgt_in_cache_def)
  from reliable_ccache.setTGT_ok [OF assms(1,6,5) this] obtain w' where
    s: "setTGT L info ?c w = (None, resetRenewBackoff (install_tgt info ?c), w')"
    "copy_in_cache L (entries w') info"
    by blast
  then have "store_creds L wire ?c w = (Inr (), resetRenewBackoff (install_tgt info ?c), w')"
    using assms by (simp add: store_creds_def adopt_stored_def Let_def local_tgt_def)
  then have "Store L wire c w = (Inr (), release (resetRenewBackoff (install_tgt info ?c)), w')"
    using assms(3) by (simp add: Store_def with_context_def acquire_def)
  with s(2) tgtInfoFrom_Inr(4) [OF assms(6)] show ?thesis by simp
qed

text \<open>Removal by UUID goes by principals: every entry with the principals of the one found goes.\<close>

lemma walk_wire:
  assumes "walk L (wire_visitor u) creds code None = (None, Some wire)"
  shows "\<exists>cr\<in>set creds. marshalCreds L cr = Inr wire \<and> uuidOf wire = u"
  using assms by (induction creds) (auto simp: wire_visitor_def split: if_splits sum.splits)



section \<open>Errors that are not panics\<close>

lemma krbErr_no_panic [simp]: "\<not> is_panic (krbErr L code)"
  by (simp add: krbErr_def)

lemma newError_no_panic: "newError L code = Some e \<Longrightarrow> \<not> is_panic e"
  by (auto simp: newError_def split: if_splits)

lemma acquire_no_panic: "acquire L c w = Inl e \<Longrightarrow> \<not> is_panic e"
  by (auto simp: acquire_def newKctx_def Let_def split: if_splits option.splits)

lemma marshalCreds_no_panic: "marshalCreds L cr = Inl e \<Longrightarrow> \<not> is_panic e"
  by (auto simp: marshalCreds_def split: sum.splits)

lemma unmarshalCreds_no_panic: "unmarshalCreds L wire = Inl e \<Longrightarrow> \<not> is_panic e"
  by (auto simp: unmarshalCreds_def split: sum.splits)

lemma buildPrincipal_no_panic: "buildPrincipal L p = Inl e \<Longrightarrow> \<not> is_panic e"
  by (auto simp: buildPrincipal_def parseName_def split: sum.splits)

lemma defaultPrincipal_no_panic: "defaultPrincipal L w = Inl e \<Longrightarrow> \<not> is_panic e"
  by (auto simp: defaultPrincipal_def split: sum.splits)

lemmas basic_no_panic = newError_no_panic acquire_no_panic marshalCreds_no_panic unmarshalCreds_no_panic
  buildPrincipal_no_panic defaultPrincipal_no_panic

lemma marshalTGTForListing_no_panic: "marshalTGTForListing L c cr = Inl e \<Longrightarrow> \<not> is_panic e"
  by (auto simp: marshalTGTForListing_def Let_def dest: marshalCreds_no_panic)

lemma listed_wire_no_panic: "listed_wire L c cr wire = Inl e \<Longrightarrow> \<not> is_panic e"
  by (auto simp: listed_wire_def split: if_splits dest: marshalTGTForListing_no_panic)

lemma walk_no_panic: "walk L fn creds code s = (Some e, s') \<Longrightarrow> \<not> is_panic e"
  by (induction creds arbitrary: s) (auto split: if_splits sum.splits prod.splits dest: marshalCreds_no_panic)

lemma forEachEntry_no_panic: "forEachEntry L fn s w = (Some e, s') \<Longrightarrow> \<not> is_panic e"
  by (auto simp: forEachEntry_def split: op_splits dest: walk_no_panic newError_no_panic)

lemma walk_list_redErr:
  assumes "walk L (list_visitor L c) creds code (es, None) = (err, es', Some e)"
  shows "\<not> is_panic e"
  using assms
  by (induction creds arbitrary: es)
    (auto simp: list_visitor_apply split: if_splits sum.splits dest: listed_wire_no_panic)

lemma walk_find_redErr:
  assumes "walk L (find_visitor L c u) creds code (f, None) = (err, f', Some e)"
  shows "\<not> is_panic e"
  using assms
  by (induction creds arbitrary: f)
    (auto simp: find_visitor_apply split: if_splits sum.splits dest: listed_wire_no_panic)

lemma list_entries_no_panic: "list_entries L c w = Inl e \<Longrightarrow> \<not> is_panic e"
  by (auto simp: list_entries_def forEachEntry_def split: op_splits
      dest: walk_list_redErr walk_no_panic newError_no_panic)

lemma find_entry_no_panic: "find_entry L u c w = Inl e \<Longrightarrow> \<not> is_panic e"
  by (auto simp: find_entry_def forEachEntry_def split: op_splits
      dest: walk_find_redErr walk_no_panic newError_no_panic)

lemma buildMatchTemplate_no_panic: "buildMatchTemplate L mc w = Inl e \<Longrightarrow> \<not> is_panic e"
  by (auto simp: buildMatchTemplate_def template_client_def and_then_Inl wrap_Inl Let_def
      split: if_splits sum.splits dest: buildPrincipal_no_panic)

lemma getCredentials_no_panic: "getCredentials L mc w = (Inl e, w') \<Longrightarrow> \<not> is_panic e"
  by (auto simp: getCredentials_def split: op_splits dest: buildMatchTemplate_no_panic marshalCreds_no_panic)

lemma storeTGT_no_panic: "storeTGT L cr w = (Some e, w') \<Longrightarrow> \<not> is_panic e"
  by (auto simp: storeTGT_def split: prod.splits dest: newError_no_panic)

lemma removeCredExact_no_panic: "removeCredExact L wire w = (Some e, w') \<Longrightarrow> \<not> is_panic e"
  by (auto simp: removeCredExact_def split: op_splits dest: newError_no_panic unmarshalCreds_no_panic)

lemma setTGT_no_panic: "setTGT L info c w = (Some e, c', w') \<Longrightarrow> \<not> is_panic e"
  by (auto simp: setTGT_def split: op_splits
      dest: unmarshalCreds_no_panic removeCredExact_no_panic storeTGT_no_panic)

lemma tgtInfoFrom_no_panic: "tgtInfoFrom L cr = Inl e \<Longrightarrow> \<not> is_panic e"
  by (auto simp: tgtInfoFrom_def split: sum.splits dest: marshalCreds_no_panic)

lemma store_creds_no_panic: "store_creds L wire c w = (Inl e, c', w') \<Longrightarrow> \<not> is_panic e"
  by (auto simp: store_creds_def store_plain_def adopt_stored_def Let_def split: op_splits
      dest: basic_no_panic tgtInfoFrom_no_panic setTGT_no_panic)

text \<open>An operation that does not panic in states satisfying \<open>I\<close>.\<close>

definition calm :: "(client \<Rightarrow> 'w \<Rightarrow> bool) \<Rightarrow> ('w, 'a) operation \<Rightarrow> bool" where
  "calm I f \<longleftrightarrow> (\<forall>c w e c' w'. I c w \<longrightarrow> f c w = (Inl e, c', w') \<longrightarrow> \<not> is_panic e)"

lemma calm_with_context:
  assumes "\<And>c i w. I (c\<lparr>idle := i\<rparr>) w = I c w" "calm I f"
  shows "calm I (with_context L f)"
  unfolding calm_def
proof (intro allI impI)
  fix c w e c' w'
  assume I: "I c w" and r: "with_context L f c w = (Inl e, c', w')"
  show "\<not> is_panic e"
  proof (cases "acquire L c w")
    case (Inl e')
    with r acquire_no_panic [OF Inl] show ?thesis by (auto simp: with_context_def)
  next
    case (Inr c1)
    then have "I c1 w" using acquire_fields [OF Inr] I assms(1) by metis
    with Inr r assms(2) show ?thesis by (auto simp: with_context_def calm_def split: prod.splits)
  qed
qed

text \<open>The source file of this client is stable.\<close>

definition file_stable :: "'w krb5_lib \<Rightarrow> client \<Rightarrow> 'w \<Rightarrow> bool" where
  "file_stable L c w \<longleftrightarrow> stable_source L (FILE_name (srcPath c))"

lemma file_stable_idle [simp]: "file_stable L (c\<lparr>idle := i\<rparr>) w = file_stable L c w"
  by (simp add: file_stable_def)

lemma file_stable_maintain: "file_stable L c w \<Longrightarrow> maintain L now c w = (e, c', w') \<Longrightarrow> file_stable L c' w'"
  by (auto simp: file_stable_def dest: maintain_srcPath)

lemma calm_maintained:
  assumes "calm (file_stable L) f"
  shows "calm (file_stable L) (maintained L now f)"
  unfolding calm_def
proof (intro allI impI)
  fix c w e c' w'
  assume I: "file_stable L c w" and r: "maintained L now f c w = (Inl e, c', w')"
  obtain p c1 w1 where m: "maintain L now c w = (p, c1, w1)" using prod_cases3 by blast
  moreover have "p = None" using maintain_no_panic [OF _ m] I by (simp add: file_stable_def)
  moreover have "file_stable L c1 w1" using I m by (rule file_stable_maintain)
  ultimately show "\<not> is_panic e" using r assms by (auto simp: maintained_def calm_def)
qed

lemma keeps_file_stable:
  "keeps (file_stable L) (DefaultPrincipal L)" "keeps (file_stable L) (ListEntries L now)"
  "keeps (file_stable L) (EntryByUUID L now u)" "keeps (file_stable L) (RemoveMatching L mc)"
  "keeps (file_stable L) (Store L wire)" "keeps (file_stable L) (Initialize L p)"
proof -
  note ctx = keeps_with_context [of "file_stable L", OF file_stable_idle]
  show "keeps (file_stable L) (DefaultPrincipal L)"
    unfolding DefaultPrincipal_def by (intro ctx keeps_read)
  show "keeps (file_stable L) (ListEntries L now)"
    unfolding ListEntries_def by (intro ctx keeps_maintained) (auto dest: file_stable_maintain)
  show "keeps (file_stable L) (EntryByUUID L now u)"
    unfolding EntryByUUID_def by (intro ctx keeps_maintained) (auto dest: file_stable_maintain)
  have "keeps (file_stable L) (remove_matching L mc)" "keeps (file_stable L) (store_creds L wire)"
    "keeps (file_stable L) (initialize_cache L p)"
    unfolding keeps_def
    by (auto simp: remove_matching_def store_creds_def store_plain_def adopt_stored_def
        initialize_cache_def file_stable_def Let_def split: op_splits dest: setTGT_srcPath)
  then show "keeps (file_stable L) (RemoveMatching L mc)" "keeps (file_stable L) (Store L wire)"
    "keeps (file_stable L) (Initialize L p)"
    unfolding RemoveMatching_def Store_def Initialize_def by (simp_all add: ctx)
qed

lemma keeps_file_stable_Retrieve: "keeps (file_stable L) (Retrieve L now mc)"
proof -
  have "keeps (file_stable L) (with_context L (maintained L now (\<lambda>c w.
      case tgtError c now of
        Some err \<Rightarrow> (Inl err, c, w)
      | None \<Rightarrow> (case getCredentials L mc w of (r, w) \<Rightarrow> (r, c, w)))))"
    by (intro keeps_with_context keeps_maintained)
      (auto simp: keeps_def file_stable_def split: op_splits dest: maintain_srcPath)
  then show ?thesis by (auto simp: keeps_def Retrieve_def)
qed

lemma calm_operations:
  "calm (file_stable L) (DefaultPrincipal L)" "calm (file_stable L) (ListEntries L now)"
  "calm (file_stable L) (EntryByUUID L now u)" "calm (file_stable L) (RemoveMatching L mc)"
  "calm (file_stable L) (Store L wire)" "calm (file_stable L) (Initialize L p)"
proof -
  note ctx = calm_with_context [of "file_stable L", OF file_stable_idle]
  show "calm (file_stable L) (DefaultPrincipal L)"
    unfolding DefaultPrincipal_def by (intro ctx) (auto simp: calm_def dest: defaultPrincipal_no_panic)
  show "calm (file_stable L) (ListEntries L now)"
    unfolding ListEntries_def
    by (intro ctx calm_maintained) (auto simp: calm_def dest: list_entries_no_panic)
  show "calm (file_stable L) (EntryByUUID L now u)"
    unfolding EntryByUUID_def
    by (intro ctx calm_maintained) (auto simp: calm_def dest: find_entry_no_panic)
  have "calm (file_stable L) (remove_matching L mc)"
    by (auto simp: calm_def remove_matching_def split: op_splits
        dest: buildMatchTemplate_no_panic newError_no_panic)
  then show "calm (file_stable L) (RemoveMatching L mc)"
    unfolding RemoveMatching_def by (rule ctx)
  have "calm (file_stable L) (store_creds L wire)"
    by (auto simp: calm_def dest: store_creds_no_panic)
  then show "calm (file_stable L) (Store L wire)" unfolding Store_def by (rule ctx)
  have "calm (file_stable L) (initialize_cache L p)"
    by (auto simp: calm_def initialize_cache_def split: op_splits dest: buildPrincipal_no_panic)
  then show "calm (file_stable L) (Initialize L p)" unfolding Initialize_def by (rule ctx)
qed

lemma calm_Retrieve: "calm (file_stable L) (Retrieve L now mc)"
proof -
  have "calm (file_stable L) (with_context L (maintained L now (\<lambda>c w.
      case tgtError c now of
        Some err \<Rightarrow> (Inl err, c, w)
      | None \<Rightarrow> (case getCredentials L mc w of (r, w) \<Rightarrow> (r, c, w)))))"
    by (intro calm_with_context calm_maintained)
      (auto simp: calm_def tgtError_def split: op_splits dest: getCredentials_no_panic)
  then show ?thesis by (auto simp: calm_def Retrieve_def)
qed



end
