(* ===== verification/Describe.thy ===== *)
theory Describe
  imports Ops Names
begin

text \<open>
  \<^verbatim>\<open>internal/krb5c/describe.go\<close>: texts for log output. \<^verbatim>\<open>ErrorMessage\<close> and \<^verbatim>\<open>SummarizeCredential\<close>
  borrow a context like every operation. A summary is shown to reveal nothing of the session key but
  its encryption type.
\<close>

text \<open>\<^verbatim>\<open>(*Error).Error()\<close>.\<close>

definition Error_Error :: "i32 \<Rightarrow> string \<Rightarrow> string" where
  "Error_Error Code Message = ''krb5: '' @ Message @ '' ('' @ fmt_int (sint Code) @ '')''"

definition ErrorMessage :: "'w krb5_lib \<Rightarrow> i32 \<Rightarrow> client \<Rightarrow> 'w \<Rightarrow> string \<times> client \<times> 'w" where
  "ErrorMessage L code c w =
     (if code = 0 then (''OK'', c, w)
      else (case acquire L c w of
              Inl err \<Rightarrow> (''krb5 error '' @ fmt_int (sint code), c, w)
            | Inr c \<Rightarrow> (krb5_get_error_message L code, release c, w)))"

record credential_summary =
  cs_Client :: principal
  cs_Server :: principal
  cs_Enctype :: i32
  cs_AuthTime :: i32
  cs_StartTime :: i32
  cs_EndTime :: i32
  cs_RenewTill :: i32
  cs_IsSKey :: bool
  cs_TicketFlags :: u32
  cs_TicketLen :: nat

definition CredentialSummary_String :: "credential_summary \<Rightarrow> string" where
  "CredentialSummary_String s =
     strings_Join
       [''client='' @ UnparseName (cs_Client s),
        ''server='' @ UnparseName (cs_Server s),
        ''enctype='' @ fmt_int (sint (cs_Enctype s)),
        ''authtime='' @ FormatTimestamp (cs_AuthTime s),
        ''starttime='' @ FormatTimestamp (cs_StartTime s),
        ''endtime='' @ FormatTimestamp (cs_EndTime s),
        ''renew_till='' @ FormatTimestamp (cs_RenewTill s),
        ''is_skey='' @ fmt_bool (cs_IsSKey s),
        ''ticket_flags=0x'' @ fmt_08x (cs_TicketFlags s),
        ''ticket_len='' @ fmt_nat (cs_TicketLen s)] '' ''"

definition summary_of :: "krb5_creds \<Rightarrow> credential_summary" where
  "summary_of creds =
     \<lparr>cs_Client = readPrincipal (cr_client creds), cs_Server = readPrincipal (cr_server creds),
      cs_Enctype = cr_enctype creds, cs_AuthTime = cr_authtime creds,
      cs_StartTime = cr_starttime creds, cs_EndTime = cr_endtime creds,
      cs_RenewTill = cr_renew_till creds, cs_IsSKey = cr_is_skey creds,
      cs_TicketFlags = cr_ticket_flags creds, cs_TicketLen = length (cr_ticket creds)\<rparr>"

definition SummarizeCredential :: "'w krb5_lib \<Rightarrow> byte list \<Rightarrow> ('w, credential_summary) operation" where
  "SummarizeCredential L wire = with_context L (\<lambda>c w.
     ((case unmarshalCreds L wire of Inl err \<Rightarrow> Inl err | Inr creds \<Rightarrow> Inr (summary_of creds)), c, w))"

text \<open>\<^verbatim>\<open>end.Unix()\<close> converted to a \<^verbatim>\<open>krb5_timestamp\<close>: whole seconds, truncated to 32 bits.\<close>

definition unix_timestamp :: "gotime \<Rightarrow> i32" where
  "unix_timestamp t = word_of_int (nanos t div Second)"

definition withEndTime :: "'w krb5_lib \<Rightarrow> byte list \<Rightarrow> gotime \<Rightarrow> ('w, byte list) operation" where
  "withEndTime L wire end_t = with_context L (\<lambda>c w.
     ((case unmarshalCreds L wire of
         Inl err \<Rightarrow> Inl err
       | Inr creds \<Rightarrow> marshalCreds L (creds\<lparr>cr_endtime := unix_timestamp end_t\<rparr>)), c, w))"

lemma unix_timestamp_krbTime: "ts \<noteq> 0 \<Longrightarrow> unix_timestamp (krbTime ts) = ts"
  by (simp add: unix_timestamp_def krbTime_def time_defs)

lemma keeps_SummarizeCredential:
  "(\<And>c i w. I (c\<lparr>idle := i\<rparr>) w = I c w) \<Longrightarrow> keeps I (SummarizeCredential L wire)"
  unfolding SummarizeCredential_def by (rule keeps_with_context) simp_all

lemma ErrorMessage_effect:
  assumes "ErrorMessage L code c w = (msg, c', w')"
  shows "w' = w \<and> (\<exists>i. c' = c\<lparr>idle := i\<rparr>)"
proof -
  have "\<exists>i. c = c\<lparr>idle := i\<rparr>" by (rule exI [of _ "idle c"]) simp
  with assms show ?thesis
    by (auto simp: ErrorMessage_def release_def acquire_def split: if_splits sum.splits option.splits)
qed

text \<open>Logging a credential does not reveal its secrets. Two credentials that differ only in the
  contents of the session key and in the bytes (not the number) of their tickets have the same log
  line, whatever the library.\<close>

lemma SummarizeCredential_hides_key:
  assumes "unmarshalCreds L wire1 = Inr cr"
    "unmarshalCreds L wire2 = Inr (cr\<lparr>cr_key := k, cr_ticket := t, cr_second_ticket := t2\<rparr>)"
    "length t = length (cr_ticket cr)"
  shows "SummarizeCredential L wire1 c w = SummarizeCredential L wire2 c w"
  using assms by (simp add: SummarizeCredential_def summary_of_def)

end
