(* ===== verification/Server.thy ===== *)
theory Server
  imports Describe
begin

text \<open>
  \<^verbatim>\<open>internal/server/server.go\<close>: the KCM protocol server. The operations of \<^verbatim>\<open>*krb5c.Client\<close> that it
  calls are the record \<open>engine\<close> over an abstract state; \<open>krb5c_engine\<close> is the engine made of the
  definitions of \<open>Ops\<close> and \<open>Describe\<close>. A panic inside an operation ends the process: the reply is
  then \<open>Crash\<close>. Log records are not modelled, but what is computed for them is, since it borrows
  contexts.
\<close>

section \<open>The engine as the server sees it\<close>

record 's engine =
  eng_DefaultPrincipal :: "'s \<Rightarrow> (goerror + principal) \<times> 's"
  eng_ListEntries :: "gotime \<Rightarrow> 's \<Rightarrow> (goerror + entry list) \<times> 's"
  eng_EntryByUUID :: "gotime \<Rightarrow> uuid \<Rightarrow> 's \<Rightarrow> (goerror + entry option) \<times> 's"
  eng_RemoveMatching :: "match_credential \<Rightarrow> 's \<Rightarrow> (goerror + unit) \<times> 's"
  eng_Retrieve :: "gotime \<Rightarrow> match_credential \<Rightarrow> 's \<Rightarrow> (goerror + byte list) \<times> 's"
  eng_Store :: "byte list \<Rightarrow> 's \<Rightarrow> (goerror + unit) \<times> 's"
  eng_Initialize :: "principal \<Rightarrow> 's \<Rightarrow> (goerror + unit) \<times> 's"
  eng_ErrorMessage :: "i32 \<Rightarrow> 's \<Rightarrow> string \<times> 's"
  eng_SummarizeCredential :: "byte list \<Rightarrow> 's \<Rightarrow> (goerror + credential_summary) \<times> 's"

definition on_pair :: "(client \<Rightarrow> 'w \<Rightarrow> 'r \<times> client \<times> 'w) \<Rightarrow> client \<times> 'w \<Rightarrow> 'r \<times> (client \<times> 'w)" where
  "on_pair f = (\<lambda>(c, w). f c w)"

definition krb5c_engine :: "'w krb5_lib \<Rightarrow> (client \<times> 'w) engine" where
  "krb5c_engine L =
     \<lparr>eng_DefaultPrincipal = on_pair (DefaultPrincipal L),
      eng_ListEntries = (\<lambda>now. on_pair (ListEntries L now)),
      eng_EntryByUUID = (\<lambda>now uuid. on_pair (EntryByUUID L now uuid)),
      eng_RemoveMatching = (\<lambda>mc. on_pair (RemoveMatching L mc)),
      eng_Retrieve = (\<lambda>now mc. on_pair (Retrieve L now mc)),
      eng_Store = (\<lambda>wire. on_pair (Store L wire)),
      eng_Initialize = (\<lambda>p. on_pair (Initialize L p)),
      eng_ErrorMessage = (\<lambda>code. on_pair (ErrorMessage L code)),
      eng_SummarizeCredential = (\<lambda>wire. on_pair (SummarizeCredential L wire))\<rparr>"

section \<open>Server state and replies\<close>

record server =
  cacheName :: string
  cacheUUID :: uuid
  srv_uid :: u32
  srv_debug :: bool

definition New :: "string \<Rightarrow> u32 \<Rightarrow> bool \<Rightarrow> server" where
  "New name uid debug =
     \<lparr>cacheName = name, cacheUUID = uuidOfString name, srv_uid = uid, srv_debug = debug\<rparr>"

datatype reply = Reply i32 "byte list" | Crash goerror

text \<open>\<^verbatim>\<open>errors.As\<close> looks for a \<^verbatim>\<open>*krb5c.Error\<close> along the chain of wrapped errors.\<close>

fun errorCode :: "goerror \<Rightarrow> i32" where
  "errorCode (KrbError code _) = code"
| "errorCode (WrapError _ err) = errorCode err"
| "errorCode _ = CCNoSupp"

definition refuse :: "i32 \<Rightarrow> goerror \<Rightarrow> reply" where
  "refuse code err = (if is_panic err then Crash err else Reply code [])"

definition failed :: "goerror \<Rightarrow> reply" where
  "failed err = refuse (errorCode err) err"

section \<open>Debug attributes\<close>

datatype attr = AInt int | AStr string | AStrs "string list" | AErr goerror | ATime gotime

definition requestAttrs ::
  "'s engine \<Rightarrow> opcode \<Rightarrow> byte list \<Rightarrow> 's \<Rightarrow> (string \<times> attr) list \<times> 's" where
  "requestAttrs E op rest st =
     (let attrs = [(''body_len'', AInt (int (length rest)))] in
      if op = OpGetCacheByUUID \<or> op = OpGetCredByUUID then
        (case ReadUUIDList rest of
           Inl err \<Rightarrow> (attrs @ [(''decode_error'', AErr err)], st)
         | Inr uuids \<Rightarrow> (attrs @ [(''uuids'', AStrs (map UUID_String uuids))], st))
      else if op = OpRetrieve \<or> op = OpRemoveCred then
        (case ReadUint32 rest of
           Inl err \<Rightarrow> (attrs @ [(''decode_error'', AErr err)], st)
         | Inr (flags, mcWire) \<Rightarrow>
             let attrs = attrs @ [(''flags'', AStr (MatchFlagsString flags))] in
             (case UnmarshalMatchCredential mcWire of
                Inl err \<Rightarrow> (attrs @ [(''decode_error'', AErr err)], st)
              | Inr mc \<Rightarrow> (attrs @ [(''match'', AStr (MatchCredential_String mc))], st)))
      else if op = OpStore then
        (case eng_SummarizeCredential E rest st of
           (Inl err, st) \<Rightarrow> (attrs @ [(''decode_error'', AErr err)], st)
         | (Inr summary, st) \<Rightarrow> (attrs @ [(''cred'', AStr (CredentialSummary_String summary))], st))
      else if op = OpInitialize then
        (case UnmarshalPrincipal rest of
           Inl err \<Rightarrow> (attrs @ [(''decode_error'', AErr err)], st)
         | Inr (p, _) \<Rightarrow>
             (attrs @ [(''principal'', AStr (UnparseName p)), (''name_type'', AInt (sint (Type p)))], st))
      else if op = OpSetKDCOffset then
        (case ReadUint32 rest of
           Inl err \<Rightarrow> (attrs @ [(''decode_error'', AErr err)], st)
         | Inr (offset, _) \<Rightarrow> (attrs @ [(''offset'', AInt (sint offset))], st))
      else (attrs, st))"

section \<open>Handling a request\<close>

text \<open>The payload of GET_CRED_LIST.\<close>

fun put_wires :: "entry list \<Rightarrow> byte list" where
  "put_wires [] = []"
| "put_wires (e # es) = PutUint32 (len32 (e_Wire e)) @ e_Wire e @ put_wires es"

text \<open>The two operations that carry a flags word and a match-credential.\<close>

definition with_match ::
  "byte list \<Rightarrow> (match_credential \<Rightarrow> 's \<Rightarrow> reply \<times> 's) \<Rightarrow> 's \<Rightarrow> reply \<times> 's" where
  "with_match rest act st =
     (if length rest < 4 then (Reply CCNoSupp [], st)
      else (case UnmarshalMatchCredential (drop 4 rest) of
              Inl err \<Rightarrow> (refuse CCNoSupp err, st)
            | Inr mc \<Rightarrow> act mc st))"

definition finish :: "('a \<Rightarrow> byte list) \<Rightarrow> (goerror + 'a) \<times> 's \<Rightarrow> reply \<times> 's" where
  "finish payload = (\<lambda>(r, st). ((case r of Inl err \<Rightarrow> failed err | Inr x \<Rightarrow> Reply 0 (payload x)), st))"

text \<open>The longer branches of \<^verbatim>\<open>handle\<close>, each under the name of its opcode.\<close>

definition handle_GetCacheByUUID :: "server \<Rightarrow> byte list \<Rightarrow> 's \<Rightarrow> reply \<times> 's" where
  "handle_GetCacheByUUID s rest st =
     (case ReadUUIDList rest of
        Inl err \<Rightarrow> (refuse CCNotFound err, st)
      | Inr uuids \<Rightarrow>
          if length uuids \<noteq> 1 \<or> uuids ! 0 \<noteq> cacheUUID s then (Reply CCNotFound [], st)
          else (Reply 0 (PutCName (cacheName s)), st))"

definition handle_GetCredByUUID :: "'s engine \<Rightarrow> gotime \<Rightarrow> byte list \<Rightarrow> 's \<Rightarrow> reply \<times> 's" where
  "handle_GetCredByUUID E now rest st =
     (case ReadUUIDList rest of
        Inl err \<Rightarrow> (refuse CCNotFound err, st)
      | Inr uuids \<Rightarrow>
          if length uuids \<noteq> 1 then (Reply CCNotFound [], st)
          else (case eng_EntryByUUID E now (uuids ! 0) st of
                  (Inl err, st) \<Rightarrow> (failed err, st)
                | (Inr None, st) \<Rightarrow> (Reply CCNotFound [], st)
                | (Inr (Some e), st) \<Rightarrow> (Reply 0 (e_Wire e), st)))"

definition handle_Initialize :: "'s engine \<Rightarrow> byte list \<Rightarrow> 's \<Rightarrow> reply \<times> 's" where
  "handle_Initialize E rest st =
     (case UnmarshalPrincipal rest of
        Inl err \<Rightarrow> (refuse CCNoSupp err, st)
      | Inr (p, _) \<Rightarrow> finish (\<lambda>_. []) (eng_Initialize E p st))"

definition handle_Destroy :: "'s engine \<Rightarrow> 's \<Rightarrow> reply \<times> 's" where
  "handle_Destroy E st =
     (case eng_DefaultPrincipal E st of
        (Inl err, st) \<Rightarrow> (if is_panic err then Crash err else Reply 0 [], st)
      | (Inr p, st) \<Rightarrow>
          (case eng_Initialize E p st of
             (Inl err, st) \<Rightarrow> (if is_panic err then Crash err else Reply 0 [], st)
           | (Inr _, st) \<Rightarrow> (Reply 0 [], st)))"

definition handle ::
  "'s engine \<Rightarrow> server \<Rightarrow> gotime \<Rightarrow> opcode \<Rightarrow> byte list \<Rightarrow> 's \<Rightarrow> reply \<times> 's" where
  "handle E s now op rest st =
     (if op = OpNoop then (Reply 0 [], st)
      else if op = OpGenNew \<or> op = OpGetDefaultCache then (Reply 0 (PutCName (cacheName s)), st)
      else if op = OpSetDefaultCache then (Reply 0 [], st)
      else if op = OpGetCacheUUIDList then (Reply 0 (PutUUIDList [cacheUUID s]), st)
      else if op = OpGetCacheByUUID then handle_GetCacheByUUID s rest st
      else if op = OpGetPrincipal then finish MarshalPrincipal (eng_DefaultPrincipal E st)
      else if op = OpGetCredUUIDList then
        finish (\<lambda>entries. PutUUIDList (map e_UUID entries)) (eng_ListEntries E now st)
      else if op = OpGetCredByUUID then handle_GetCredByUUID E now rest st
      else if op = OpGetCredList then
        finish (\<lambda>entries. PutUint32 (len32 entries) @ put_wires entries) (eng_ListEntries E now st)
      else if op = OpRemoveCred then
        with_match rest (\<lambda>mc st. finish (\<lambda>_. []) (eng_RemoveMatching E mc st)) st
      else if op = OpRetrieve then
        with_match rest (\<lambda>mc st. finish (\<lambda>wire. wire) (eng_Retrieve E now mc st)) st
      else if op = OpStore then finish (\<lambda>_. []) (eng_Store E rest st)
      else if op = OpInitialize then handle_Initialize E rest st
      else if op = OpDestroy then handle_Destroy E st
      else if op = OpGetKDCOffset then (Reply 0 (PutUint32 0), st)
      else if op = OpSetKDCOffset then (Reply 0 [], st)
      else (Reply CCNoSupp [], st))"

definition split_name :: "opcode \<Rightarrow> byte list \<Rightarrow> goerror + string \<times> byte list" where
  "split_name op rest = (if HasLeadingName op then SplitCName rest else Inr ([], rest))"

definition dispatch :: "'s engine \<Rightarrow> server \<Rightarrow> gotime \<Rightarrow> byte list \<Rightarrow> 's \<Rightarrow> reply \<times> 's" where
  "dispatch E s now body st =
     (case ParseRequestHeader body of
        Inl err \<Rightarrow> (refuse CCNoSupp err, st)
      | Inr (op, rest) \<Rightarrow>
     (case split_name op rest of
        Inl err \<Rightarrow> (refuse CCNoSupp err, st)
      | Inr (cname, rest) \<Rightarrow>
     (let st = (if srv_debug s then snd (requestAttrs E op rest st) else st) in
      if \<not> Supported op then (Reply CCNoSupp [], st)
      else (case handle E s now op rest st of
              (Crash err, st) \<Rightarrow> (Crash err, st)
            | (Reply code payload, st) \<Rightarrow>
                (Reply code payload, snd (eng_ErrorMessage E code st))))))"

section \<open>A connection\<close>

datatype conn_end = Closed | Crashed goerror

text \<open>
  The loop of \<^verbatim>\<open>handleConn\<close> over what the peer sends until it closes its side. \<open>clock n\<close> is
  \<^verbatim>\<open>time.Now()\<close> while serving the \<open>n\<close>-th request.
\<close>

function serve_conn ::
  "'s engine \<Rightarrow> server \<Rightarrow> (nat \<Rightarrow> gotime) \<Rightarrow> nat \<Rightarrow> byte list \<Rightarrow> sink \<Rightarrow> 's \<Rightarrow> conn_end \<times> sink \<times> 's" where
  "serve_conn E s clock n input out st =
     (case ReadMessage input of
        Inl err \<Rightarrow> (Closed, out, st)
      | Inr (body, input') \<Rightarrow>
          (case dispatch E s (clock n) body st of
             (Crash err, st) \<Rightarrow> (Crashed err, out, st)
           | (Reply code payload, st) \<Rightarrow>
               (case WriteReply code payload out of
                  (Some err, out) \<Rightarrow> (Closed, out, st)
                | (None, out) \<Rightarrow> serve_conn E s clock (Suc n) input' out st)))"
  by pat_completeness auto
termination
  by (relation "measure (\<lambda>(_, _, _, _, input, _, _). length input)")
    (auto dest!: ReadMessage_canonical simp: message_bytes_def)

declare serve_conn.simps [simp del]

definition handleConn ::
  "'s engine \<Rightarrow> server \<Rightarrow> (nat \<Rightarrow> gotime) \<Rightarrow> goerror + u32 \<Rightarrow> byte list \<Rightarrow> sink \<Rightarrow> 's \<Rightarrow>
     conn_end \<times> sink \<times> 's" where
  "handleConn E s clock peer input out st =
     (case peer of
        Inl err \<Rightarrow> (Closed, out, st)
      | Inr uid \<Rightarrow>
          if uid \<noteq> srv_uid s then (Closed, out, st)
          else serve_conn E s clock 0 input out st)"


section \<open>Engines that keep an invariant\<close>

text \<open>The contract between server and engine for a property of the engine's state: every operation
  keeps it. Then so does every request and every connection, in any order.\<close>

locale engine_invariant =
  fixes E :: "'s engine" and I :: "'s \<Rightarrow> bool"
  assumes DefaultPrincipal_keeps: "I st \<Longrightarrow> I (snd (eng_DefaultPrincipal E st))"
    and ListEntries_keeps: "I st \<Longrightarrow> I (snd (eng_ListEntries E now st))"
    and EntryByUUID_keeps: "I st \<Longrightarrow> I (snd (eng_EntryByUUID E now u st))"
    and RemoveMatching_keeps: "I st \<Longrightarrow> I (snd (eng_RemoveMatching E mc st))"
    and Retrieve_keeps: "I st \<Longrightarrow> I (snd (eng_Retrieve E now mc st))"
    and Store_keeps: "I st \<Longrightarrow> I (snd (eng_Store E wire st))"
    and Initialize_keeps: "I st \<Longrightarrow> I (snd (eng_Initialize E p st))"
    and ErrorMessage_keeps: "I st \<Longrightarrow> I (snd (eng_ErrorMessage E code st))"
    and SummarizeCredential_keeps: "I st \<Longrightarrow> I (snd (eng_SummarizeCredential E wire st))"
begin

lemmas operations_keep = DefaultPrincipal_keeps ListEntries_keeps EntryByUUID_keeps
  RemoveMatching_keeps Retrieve_keeps Store_keeps Initialize_keeps ErrorMessage_keeps
  SummarizeCredential_keeps

lemma finish_keeps: "I (snd r) \<Longrightarrow> I (snd (finish f r))"
  by (auto simp: finish_def split: prod.splits)

lemma requestAttrs_keeps: "I st \<Longrightarrow> I (snd (requestAttrs E op rest st))"
  using SummarizeCredential_keeps [of st rest]
  by (auto simp: requestAttrs_def Let_def split: sum.splits prod.splits)

lemma with_match_keeps:
  "I st \<Longrightarrow> (\<And>mc st. I st \<Longrightarrow> I (snd (act mc st))) \<Longrightarrow> I (snd (with_match rest act st))"
  by (simp add: with_match_def split: sum.splits)

lemma handle_Destroy_keeps:
  assumes "I st"
  shows "I (snd (handle_Destroy E st))"
proof -
  obtain r st1 where r: "eng_DefaultPrincipal E st = (r, st1)" by fastforce
  moreover from this have "I st1" using DefaultPrincipal_keeps [OF assms] by simp
  moreover from this have "I (snd (eng_Initialize E p st1))" for p by (rule Initialize_keeps)
  ultimately show ?thesis
    by (auto simp: handle_Destroy_def split: sum.splits prod.splits) (metis snd_conv)+
qed

lemma handle_GetCredByUUID_keeps:
  assumes "I st"
  shows "I (snd (handle_GetCredByUUID E now rest st))"
proof -
  have "I (snd (case eng_EntryByUUID E now u st of
      (Inl err, st) \<Rightarrow> (failed err, st)
    | (Inr None, st) \<Rightarrow> (Reply CCNotFound [], st)
    | (Inr (Some e), st) \<Rightarrow> (Reply 0 (e_Wire e), st)))" for u
    using EntryByUUID_keeps [OF assms, of now u] by (auto split: prod.splits sum.splits option.splits)
  with assms show ?thesis by (simp add: handle_GetCredByUUID_def split: sum.split)
qed

lemma handle_GetCacheByUUID_keeps: "I st \<Longrightarrow> I (snd (handle_GetCacheByUUID s rest st))"
  by (simp add: handle_GetCacheByUUID_def split: sum.splits)

lemma handle_Initialize_keeps: "I st \<Longrightarrow> I (snd (handle_Initialize E rest st))"
  by (auto simp: handle_Initialize_def finish_keeps Initialize_keeps split: sum.splits prod.splits)

lemma keeps_if: "I (snd (if b then x else y)) \<longleftrightarrow> (if b then I (snd x) else I (snd y))"
  by simp

lemma handle_keeps: "I st \<Longrightarrow> I (snd (handle E s now op rest st))"
  by (simp only: handle_def keeps_if finish_keeps operations_keep with_match_keeps handle_Destroy_keeps
      handle_GetCredByUUID_keeps handle_GetCacheByUUID_keeps handle_Initialize_keeps snd_conv if_cancel)

lemma dispatch_keeps: "I st \<Longrightarrow> I (snd (dispatch E s now body st))"
proof -
  assume st: "I st"
  have "I (snd (case handle E s now op rest st of
      (Crash err, st) \<Rightarrow> (Crash err, st)
    | (Reply code payload, st) \<Rightarrow> (Reply code payload, snd (eng_ErrorMessage E code st))))"
    if "I st" for op rest st
    using handle_keeps [OF that, of s now op rest] ErrorMessage_keeps
    by (auto split: prod.splits reply.splits)
  with st requestAttrs_keeps [OF st] show ?thesis
    by (auto simp: dispatch_def Let_def split: sum.splits prod.splits)
qed

lemma serve_conn_keeps: "I st \<Longrightarrow> I (snd (snd (serve_conn E s clock n input out st)))"
proof (induction "length input" arbitrary: n input out st rule: less_induct)
  case less
  show ?case
  proof (cases "ReadMessage input")
    case (Inr bi)
    obtain body rest where bi: "bi = (body, rest)" by (cases bi)
    then have shorter: "length rest < length input"
      using Inr by (auto dest!: ReadMessage_canonical simp: message_bytes_def)
    obtain r st1 where d: "dispatch E s (clock n) body st = (r, st1)" by fastforce
    then have "I st1" using dispatch_keeps [OF less.prems, of s "clock n" body] by simp
    with less.hyps [OF shorter] show ?thesis
      by (auto simp: serve_conn.simps [of E s clock n input] Inr bi d split: reply.splits prod.splits option.splits)
  qed (simp add: serve_conn.simps less.prems)
qed

lemma handleConn_keeps: "I st \<Longrightarrow> I (snd (snd (handleConn E s clock peer input out st)))"
  by (simp add: handleConn_def serve_conn_keeps split: sum.splits)

end


section \<open>The engine of kcmex keeps the contract\<close>

lemma on_pair_snd: "keeps I f \<Longrightarrow> (case st of (c, w) \<Rightarrow> I c w) \<Longrightarrow> (case snd (on_pair f st) of (c, w) \<Rightarrow> I c w)"
  by (cases st; cases "on_pair f st") (auto simp: on_pair_def dest: keepsD)

lemma ErrorMessage_idle:
  "(\<And>c i w. I (c\<lparr>idle := i\<rparr>) w = I c w) \<Longrightarrow> (case st of (c, w) \<Rightarrow> I c w) \<Longrightarrow>
     (case snd (on_pair (ErrorMessage L code) st) of (c, w) \<Rightarrow> I c w)"
  by (cases st; cases "on_pair (ErrorMessage L code) st") (auto simp: on_pair_def dest!: ErrorMessage_effect)

lemma krb5c_engine_invariant:
  assumes "\<And>c i w. I (c\<lparr>idle := i\<rparr>) w = I c w"
    "keeps I (DefaultPrincipal L)" "\<And>now. keeps I (ListEntries L now)"
    "\<And>now u. keeps I (EntryByUUID L now u)" "\<And>mc. keeps I (RemoveMatching L mc)"
    "\<And>now mc. keeps I (Retrieve L now mc)" "\<And>wire. keeps I (Store L wire)"
    "\<And>p. keeps I (Initialize L p)"
  shows "engine_invariant (krb5c_engine L) (\<lambda>(c, w). I c w)"
  by unfold_locales
    (simp_all only: krb5c_engine_def engine.simps on_pair_snd assms ErrorMessage_idle keeps_SummarizeCredential)

sublocale mem_ccache \<subseteq> guarded_engine: engine_invariant "krb5c_engine L" "\<lambda>(c, w). cache_guarded entries owner w"
  by (rule krb5c_engine_invariant)
    (simp_all add: keeps_guarded_operations keeps_guarded_Retrieve)

section \<open>Engines that do not panic\<close>

text \<open>An engine that, in the states of its invariant, returns errors but never panics: the server
  then answers every request.\<close>

locale calm_engine = engine_invariant +
  assumes DefaultPrincipal_calm: "I st \<Longrightarrow> fst (eng_DefaultPrincipal E st) = Inl e \<Longrightarrow> \<not> is_panic e"
    and ListEntries_calm: "I st \<Longrightarrow> fst (eng_ListEntries E now st) = Inl e \<Longrightarrow> \<not> is_panic e"
    and EntryByUUID_calm: "I st \<Longrightarrow> fst (eng_EntryByUUID E now u st) = Inl e \<Longrightarrow> \<not> is_panic e"
    and RemoveMatching_calm: "I st \<Longrightarrow> fst (eng_RemoveMatching E mc st) = Inl e \<Longrightarrow> \<not> is_panic e"
    and Retrieve_calm: "I st \<Longrightarrow> fst (eng_Retrieve E now mc st) = Inl e \<Longrightarrow> \<not> is_panic e"
    and Store_calm: "I st \<Longrightarrow> fst (eng_Store E wire st) = Inl e \<Longrightarrow> \<not> is_panic e"
    and Initialize_calm: "I st \<Longrightarrow> fst (eng_Initialize E p st) = Inl e \<Longrightarrow> \<not> is_panic e"
begin

definition answers :: "reply \<times> 'a \<Rightarrow> bool" where
  "answers r \<longleftrightarrow> (\<exists>code payload. fst r = Reply code payload)"

lemma answers_Reply [simp]: "answers (Reply code payload, st)"
  by (simp add: answers_def)

lemma answers_refuse: "\<not> is_panic err \<Longrightarrow> answers (refuse code err, st)"
  by (simp add: refuse_def)

lemma answers_finish: "(\<And>e. fst r = Inl e \<Longrightarrow> \<not> is_panic e) \<Longrightarrow> answers (finish f r)"
  by (cases r; cases "fst r") (auto simp: finish_def failed_def answers_refuse)

lemma answers_with_match:
  "I st \<Longrightarrow> (\<And>mc. answers (act mc st)) \<Longrightarrow> answers (with_match rest act st)"
  by (auto simp: with_match_def split: sum.splits intro!: answers_refuse dest: UnmarshalMatchCredential_no_panic)

lemma ReadUUIDList_no_panic: "ReadUUIDList b = Inl e \<Longrightarrow> \<not> is_panic e"
  by (auto simp: ReadUUIDList_def split: if_splits)

lemma answers_GetCredByUUID:
  assumes "I st"
  shows "answers (handle_GetCredByUUID E now rest st)"
proof -
  have "answers (case eng_EntryByUUID E now u st of
      (Inl err, st) \<Rightarrow> (failed err, st)
    | (Inr None, st) \<Rightarrow> (Reply CCNotFound [], st)
    | (Inr (Some e), st) \<Rightarrow> (Reply 0 (e_Wire e), st))" for u
    using EntryByUUID_calm [OF assms, of now u]
    by (cases "eng_EntryByUUID E now u st") (auto simp: failed_def answers_refuse split: sum.split option.split)
  then show ?thesis
    by (auto simp: handle_GetCredByUUID_def answers_refuse ReadUUIDList_no_panic split: sum.split)
qed

lemma answers_GetCacheByUUID: "answers (handle_GetCacheByUUID s rest st)"
  by (auto simp: handle_GetCacheByUUID_def split: sum.splits intro!: answers_refuse dest: ReadUUIDList_no_panic)

lemma answers_Initialize: "I st \<Longrightarrow> answers (handle_Initialize E rest st)"
  by (auto simp: handle_Initialize_def split: sum.splits prod.splits intro!: answers_refuse answers_finish
      dest: UnmarshalPrincipal_no_panic Initialize_calm)

lemma answers_Destroy:
  assumes "I st"
  shows "answers (handle_Destroy E st)"
proof -
  obtain r st1 where r: "eng_DefaultPrincipal E st = (r, st1)" by fastforce
  then have st1: "I st1" using DefaultPrincipal_keeps [OF assms] by simp
  have "answers (case eng_Initialize E p st1 of
      (Inl err, st) \<Rightarrow> (if is_panic err then Crash err else Reply 0 [], st)
    | (Inr _, st) \<Rightarrow> (Reply 0 [], st))" for p
    using Initialize_calm [OF st1, of p] by (cases "eng_Initialize E p st1") (auto split: sum.split)
  then show ?thesis
    using r DefaultPrincipal_calm [OF assms] by (simp add: handle_Destroy_def split: sum.split)
qed

lemma answers_if: "answers (if b then x else y) \<longleftrightarrow> (if b then answers x else answers y)"
  by simp

lemma handle_answers:
  assumes "I st"
  shows "answers (handle E s now op rest st)"
proof -
  note fin = answers_finish [OF DefaultPrincipal_calm [OF assms]] answers_finish [OF ListEntries_calm [OF assms]]
    answers_finish [OF RemoveMatching_calm [OF assms]] answers_finish [OF Retrieve_calm [OF assms]]
    answers_finish [OF Store_calm [OF assms]] answers_finish [OF Initialize_calm [OF assms]]
  show ?thesis
    by (simp only: handle_def answers_if fin answers_with_match assms answers_GetCredByUUID answers_Destroy
        answers_GetCacheByUUID answers_Initialize answers_Reply if_cancel)
qed

lemma ParseRequestHeader_no_panic: "ParseRequestHeader b = Inl e \<Longrightarrow> \<not> is_panic e"
  by (auto simp: ParseRequestHeader_def split: if_splits)

lemma split_name_no_panic: "split_name op b = Inl e \<Longrightarrow> \<not> is_panic e"
  by (auto simp: split_name_def SplitCName_def split: if_splits option.splits)

lemma dispatch_answers:
  assumes "I st"
  shows "\<exists>code payload. fst (dispatch E s now body st) = Reply code payload"
proof -
  have "answers (case handle E s now op rest st of
      (Crash err, st) \<Rightarrow> (Crash err, st)
    | (Reply code payload, st) \<Rightarrow> (Reply code payload, snd (eng_ErrorMessage E code st)))"
    if "I st" for op rest st
    using handle_answers [OF that, of s now op rest]
    by (auto simp: answers_def split: prod.splits reply.splits)
  with assms requestAttrs_keeps [OF assms] have "answers (dispatch E s now body st)"
    by (auto simp: dispatch_def Let_def split: sum.splits prod.splits
        intro!: answers_refuse dest: ParseRequestHeader_no_panic split_name_no_panic)
  then show ?thesis by (simp add: answers_def)
qed

end


section \<open>Every request is answered\<close>

lemma calm_on_pair:
  assumes "calm I f" "case st of (c, w) \<Rightarrow> I c w" "fst (on_pair f st) = Inl e"
  shows "\<not> is_panic e"
  using assms by (cases st; cases "on_pair f st") (auto simp: on_pair_def calm_def)

lemma krb5c_engine_sel:
  "eng_DefaultPrincipal (krb5c_engine L) = on_pair (DefaultPrincipal L)"
  "eng_ListEntries (krb5c_engine L) now = on_pair (ListEntries L now)"
  "eng_EntryByUUID (krb5c_engine L) now u = on_pair (EntryByUUID L now u)"
  "eng_RemoveMatching (krb5c_engine L) mc = on_pair (RemoveMatching L mc)"
  "eng_Retrieve (krb5c_engine L) now mc = on_pair (Retrieve L now mc)"
  "eng_Store (krb5c_engine L) wire = on_pair (Store L wire)"
  "eng_Initialize (krb5c_engine L) p = on_pair (Initialize L p)"
  "eng_ErrorMessage (krb5c_engine L) code = on_pair (ErrorMessage L code)"
  by (simp_all add: krb5c_engine_def)

interpretation kcm: calm_engine "krb5c_engine L" "\<lambda>(c, w). file_stable L c w" for L
proof (intro_locales)
  show "engine_invariant (krb5c_engine L) (\<lambda>(c, w). file_stable L c w)"
    by (rule krb5c_engine_invariant) (simp_all add: keeps_file_stable keeps_file_stable_Retrieve)
  show "calm_engine_axioms (krb5c_engine L) (\<lambda>(c, w). file_stable L c w)"
    by unfold_locales
      (simp_all only: krb5c_engine_sel calm_on_pair [OF calm_operations(1)] calm_on_pair [OF calm_operations(2)]
        calm_on_pair [OF calm_operations(3)] calm_on_pair [OF calm_operations(4)]
        calm_on_pair [OF calm_operations(5)] calm_on_pair [OF calm_operations(6)]
        calm_on_pair [OF calm_Retrieve] not_False_eq_True)
qed


section \<open>Refusing ticket-granting tickets, byte for byte\<close>

text \<open>A request message: two version bytes, the opcode, a cache name, the operation's own fields.\<close>

definition request_bytes :: "byte \<Rightarrow> byte \<Rightarrow> opcode \<Rightarrow> string \<Rightarrow> byte list \<Rightarrow> byte list" where
  "request_bytes major minor op name args =
     [major, minor] @ BigEndian_PutUint16 op @ PutCName name @ args"

lemma ParseRequestHeader_request:
  "ParseRequestHeader (request_bytes major minor op name args) = Inr (op, PutCName name @ args)"
proof -
  have "take 2 (drop 2 (request_bytes major minor op name args)) = BigEndian_PutUint16 op"
    "drop 4 (request_bytes major minor op name args) = PutCName name @ args"
    by (simp_all add: request_bytes_def numeral_eq_Suc BigEndian_PutUint16_def)
  then show ?thesis
    by (simp add: ParseRequestHeader_def) (simp add: request_bytes_def)
qed

lemma requestAttrs_stateless:
  "op \<noteq> OpStore \<Longrightarrow> snd (requestAttrs E op rest st) = st"
  by (auto simp: requestAttrs_def Let_def split: sum.splits prod.splits)

lemma OpRetrieve_facts: "Supported OpRetrieve" "HasLeadingName OpRetrieve" "OpRetrieve \<noteq> OpStore"
  by (simp_all add: Supported_def HasLeadingName_def opcodesWithName_def opcode_defs)

lemma handle_Retrieve: "handle E s now OpRetrieve rest st =
    with_match rest (\<lambda>mc st. finish (\<lambda>wire. wire) (eng_Retrieve E now mc st)) st"
  by (simp add: handle_def opcode_defs)

text \<open>C4: the TGT cannot be retrieved. Any well-formed RETRIEVE request that names a ticket-granting
  service (local or cross-realm), with any version bytes, cache name, flags word and other match
  fields, is answered \<^verbatim>\<open>KRB5_FCC_PERM\<close> with an empty payload; the library (caches and KDC) is not
  touched and the held TGT and every other field of the client but the count of idle contexts are
  unchanged. It holds for every library.\<close>

theorem dispatch_refuses_TGT:
  assumes "body = request_bytes major minor OpRetrieve name (PutUint32 flags @ marshal_mcred (mc, addrs, authdata))"
    "CHR 0x00 \<notin> set name" "mc_encodable mc" "list_encodable addrs" "list_encodable authdata"
    "length (marshal_mcred (mc, addrs, authdata)) < 2 ^ 32"
    "HasServer mc" "isTGTServer (Server mc)"
  shows "\<exists>i. dispatch (krb5c_engine L) s now body (c, w) = (Reply FCCPerm [], c\<lparr>idle := i\<rparr>, w)"
proof -
  have name: "split_name OpRetrieve (PutCName name @ r) = Inr (name, r)" for r
    using assms(2) by (simp add: split_name_def SplitCName_Put OpRetrieve_facts)
  have mc: "UnmarshalMatchCredential (marshal_mcred (mc, addrs, authdata)) = Inr mc"
    using mcred_codec.dec_enc [of mc addrs authdata "[]"] assms(3-6)
    by (simp add: UnmarshalMatchCredential_def del: marshal_mcred.simps)
  have h: "handle (krb5c_engine L) s now OpRetrieve (PutUint32 flags @ marshal_mcred (mc, addrs, authdata)) (c, w)
      = (Reply FCCPerm [], c, w)"
    using mc assms(7,8)
    by (simp add: handle_Retrieve with_match_def krb5c_engine_sel on_pair_def Retrieve_def finish_def
        failed_def refuse_def del: marshal_mcred.simps)
  obtain msg c1 w1 where e: "ErrorMessage L FCCPerm c w = (msg, c1, w1)" using prod_cases3 by blast
  have "dispatch (krb5c_engine L) s now body (c, w) = (Reply FCCPerm [], c1, w1)"
    using h e
    by (simp add: dispatch_def assms(1) ParseRequestHeader_request name requestAttrs_stateless
        OpRetrieve_facts krb5c_engine_sel on_pair_def del: marshal_mcred.simps)
  with ErrorMessage_effect [OF e] show ?thesis by auto
qed


section \<open>Pipelined requests\<close>

text \<open>What a connection should do with its requests: one reply each, in order.\<close>

fun serve_all ::
  "'s engine \<Rightarrow> server \<Rightarrow> (nat \<Rightarrow> gotime) \<Rightarrow> nat \<Rightarrow> byte list list \<Rightarrow> 's \<Rightarrow> (i32 \<times> byte list) list \<times> 's" where
  "serve_all E s clock n [] st = ([], st)"
| "serve_all E s clock n (body # bodies) st =
     (case dispatch E s (clock n) body st of
        (Crash err, st) \<Rightarrow> ([], st)
      | (Reply code payload, st) \<Rightarrow>
          (case serve_all E s clock (Suc n) bodies st of
             (replies, st) \<Rightarrow> ((code, payload) # replies, st)))"

definition replies_bytes :: "(i32 \<times> byte list) list \<Rightarrow> byte list" where
  "replies_bytes replies = concat (map (\<lambda>(code, payload). reply_bytes code payload) replies)"

context calm_engine
begin

lemma serve_conn_all:
  assumes "I st" "list_all (\<lambda>b. length b \<le> 2 ^ 20) bodies" "budget out = None"
    "serve_all E s clock n bodies st = (replies, st')"
  shows "length replies = length bodies \<and>
         serve_conn E s clock n (concat (map message_bytes bodies)) out st
           = (Closed, out\<lparr>sent := sent out @ replies_bytes replies\<rparr>, st')"
  using assms
proof (induction bodies arbitrary: n out st replies)
  case Nil
  then show ?case by (simp add: serve_conn.simps ReadMessage_def ReadFull_def replies_bytes_def)
next
  case (Cons body bodies)
  obtain code payload st1 where d: "dispatch E s (clock n) body st = (Reply code payload, st1)"
    using dispatch_answers [OF Cons.prems(1)] by (metis prod.collapse)
  then have st1: "I st1" using dispatch_keeps [OF Cons.prems(1), of s "clock n" body] by simp
  obtain rest where rest: "serve_all E s clock (Suc n) bodies st1 = (rest, st')"
    "replies = (code, payload) # rest"
    using Cons.prems(4) d by (auto split: prod.splits)
  let ?out = "out\<lparr>sent := sent out @ reply_bytes code payload\<rparr>"
  have "length rest = length bodies \<and> serve_conn E s clock (Suc n) (concat (map message_bytes bodies)) ?out st1
      = (Closed, ?out\<lparr>sent := sent ?out @ replies_bytes rest\<rparr>, st')"
    using Cons.IH [OF st1 _ _ rest(1)] Cons.prems(2,3) by simp
  moreover have "serve_conn E s clock n (concat (map message_bytes (body # bodies))) out st
      = serve_conn E s clock (Suc n) (concat (map message_bytes bodies)) ?out st1"
    using Cons.prems(2,3) d
    by (simp add: serve_conn.simps [of E s clock n] ReadMessage_message_bytes WriteReply_unlimited)
  ultimately show ?case by (simp add: rest(2) replies_bytes_def)
qed

end

text \<open>C22: a pipelining client gets one reply per request, in order. When the owner's client sends any
  number of requests of at most \<open>2 ^ 20\<close> bytes each without waiting, closes its side, and keeps
  reading, then (while the source file is left alone) the connection ends normally, what it received
  is exactly the framed replies of the requests in the order sent, one per request, each computed in
  the state its predecessors left.\<close>

theorem handleConn_pipelined:
  assumes "stable_source L (FILE_name (srcPath c))" "list_all (\<lambda>b. length b \<le> 2 ^ 20) bodies"
    "budget out = None" "serve_all (krb5c_engine L) s clock 0 bodies (c, w) = (replies, st')"
  shows "length replies = length bodies \<and>
         handleConn (krb5c_engine L) s clock (Inr (srv_uid s)) (concat (map message_bytes bodies)) out (c, w)
           = (Closed, out\<lparr>sent := sent out @ replies_bytes replies\<rparr>, st')"
proof -
  have "case (c, w) of (c, w) \<Rightarrow> file_stable L c w" using assms(1) by (simp add: file_stable_def)
  from kcm.serve_conn_all [OF this assms(2-4)] show ?thesis by (simp add: handleConn_def)
qed

section \<open>DESTROY\<close>

lemma calm_unmaintained:
  "calm (\<lambda>_ _. True) (DefaultPrincipal L)" "calm (\<lambda>_ _. True) (Initialize L p)"
  unfolding DefaultPrincipal_def Initialize_def
  by (rule calm_with_context; auto simp: calm_def initialize_cache_def split: op_splits
      dest: defaultPrincipal_no_panic buildPrincipal_no_panic)+

lemma DefaultPrincipal_effect:
  assumes "DefaultPrincipal L c w = (r, c', w')"
  shows "w' = w \<and> tgt c' = tgt c \<and> (\<forall>p. r = Inr p \<longrightarrow> defaultPrincipal L w = Inr p)"
  using assms unfolding DefaultPrincipal_def
  by (cases rule: with_context_cases) auto

text \<open>DESTROY always reports success, and is all or nothing. For every library that keeps the
  MEMORY cache contract, a DESTROY request is answered with code 0 and no payload whatever happens;
  afterwards either the cache is empty, no TGT is held and the cache belongs to the principal that the
  previous owner's name denotes, or nothing was destroyed at all: entries and held TGT are what they
  were.\<close>

lemma handle_Destroy_outcome:
  assumes "mem_ccache L entries owner" "handle (krb5c_engine L) s now OpDestroy rest (c, w) = (r, c', w')"
  shows "r = Reply 0 [] \<and>
         (entries w' = [] \<and> tgt c' = None \<and>
            (\<exists>q. buildPrincipal L (readPrincipal (owner w)) = Inr q \<and> owner w' = Some q) \<or>
          entries w' = entries w \<and> tgt c' = tgt c)"
proof -
  obtain r1 c1 w1 where d: "DefaultPrincipal L c w = (r1, c1, w1)" using prod_cases3 by blast
  note eff = DefaultPrincipal_effect [OF d]
  have h: "handle_Destroy (krb5c_engine L) (c, w) = (r, c', w')"
    using assms(2) by (simp add: handle_def opcode_defs)
  show ?thesis
  proof (cases r1)
    case (Inl err)
    then have "\<not> is_panic err" using calm_unmaintained(1) [of L] d unfolding calm_def by blast
    with Inl d eff h show ?thesis by (auto simp: handle_Destroy_def krb5c_engine_sel on_pair_def)
  next
    case (Inr p)
    obtain r2 c2 w2 where i: "Initialize L p c1 w1 = (r2, c2, w2)" using prod_cases3 by blast
    have "p = readPrincipal (owner w)"
      using Inr eff mem_ccache.get_principal [OF assms(1)]
      by (auto simp: defaultPrincipal_def split: sum.splits)
    moreover have "\<not> is_panic e" if "r2 = Inl e" for e
      using that calm_unmaintained(2) [of L p] i unfolding calm_def by blast
    ultimately show ?thesis
      using h d i Inr eff Initialize_effect [OF assms(1) i]
      by (auto simp: handle_Destroy_def krb5c_engine_sel on_pair_def split: sum.splits)
  qed
qed

section \<open>Requests that are turned away\<close>

text \<open>Unsupported and malformed requests change nothing. Without debug logging, a request that
  is too short for a header, lacks the NUL-terminated cache name its opcode requires, or has an opcode
  the daemon does not implement is answered \<^verbatim>\<open>KRB5_CC_NOSUPP\<close> with no payload, and the engine is left
  exactly as it was; this holds for any engine.\<close>

lemma dispatch_turns_away:
  assumes "\<not> srv_debug s"
    "length body < 4 \<or>
     (HasLeadingName (BigEndian_Uint16 (take 2 (drop 2 body))) \<and> 0 \<notin> set (drop 4 body)) \<or>
     \<not> Supported (BigEndian_Uint16 (take 2 (drop 2 body)))"
  shows "dispatch E s now body st = (Reply CCNoSupp [], st)"
proof -
  have no_name: "SplitCName b = Inl ErrTruncated" if "0 \<notin> set b" for b
  proof -
    have "IndexByte b 0 = None" using that by (induction b) auto
    then show ?thesis by (simp add: SplitCName_def)
  qed
  show ?thesis
    using assms no_name [of "drop 4 body"]
    by (auto simp: dispatch_def ParseRequestHeader_def split_name_def refuse_def Let_def
        SplitCName_def split: sum.split option.split)
qed

end
