(* ===== verification/Listener.thy ===== *)
theory Listener
  imports Go_Fmt
begin

text \<open>
  \<^verbatim>\<open>internal/server/listener.go\<close>: binding the daemon's socket and asking the kernel who is at the other end of
  a connection. The operating system is a parameter, the record \<open>os\<close> of the calls the code makes; what
  \<open>Listen\<close> relies on of them is the locale \<open>socket_files\<close>.
\<close>

record 'o os =
  os_Remove :: "string \<Rightarrow> 'o \<Rightarrow> goerror option \<times> 'o"
  os_IsNotExist :: "goerror \<Rightarrow> bool"
  net_ResolveUnixAddr :: "string \<Rightarrow> goerror + string"
  net_ListenUnix :: "string \<Rightarrow> 'o \<Rightarrow> (goerror + nat) \<times> 'o" \<comment> \<open>listeners are numbered\<close>
  os_Chmod :: "string \<Rightarrow> nat \<Rightarrow> 'o \<Rightarrow> goerror option \<times> 'o"
  listener_Close :: "nat \<Rightarrow> 'o \<Rightarrow> 'o"
  os_MkdirAll :: "string \<Rightarrow> nat \<Rightarrow> 'o \<Rightarrow> goerror option \<times> 'o"

text \<open>The modes \<^verbatim>\<open>0o600\<close> and \<^verbatim>\<open>0o700\<close>.\<close>

definition mode_600 :: nat where "mode_600 = 6 * 8 ^ 2"
definition mode_700 :: nat where "mode_700 = 7 * 8 ^ 2"

definition Listen :: "'o os \<Rightarrow> string \<Rightarrow> 'o \<Rightarrow> (goerror + nat) \<times> 'o" where
  "Listen S path o0 =
     (case os_Remove S path o0 of
        (removed, o1) \<Rightarrow>
     if (case removed of Some err \<Rightarrow> \<not> os_IsNotExist S err | None \<Rightarrow> False)
     then (Inl (WrapError (''removing stale socket '' @ fmt_q path @ '': '') (the removed)), o1)
     else
     (case net_ResolveUnixAddr S path of
        Inl err \<Rightarrow> (Inl err, o1)
      | Inr addr \<Rightarrow>
     (case net_ListenUnix S addr o1 of
        (Inl err, o2) \<Rightarrow> (Inl err, o2)
      | (Inr l, o2) \<Rightarrow>
     (case os_Chmod S path mode_600 o2 of
        (Some err, o3) \<Rightarrow>
          (Inl (WrapError (''setting permissions on '' @ fmt_q path @ '': '') err), listener_Close S l o3)
      | (None, o3) \<Rightarrow> (Inr l, o3)))))"

text \<open>What the three system calls of \<^verbatim>\<open>peerUID\<close> answer for a connection.\<close>

record peer_calls =
  pc_SyscallConn :: "goerror option"
  pc_Control :: "goerror option"
  pc_GetsockoptUcred :: "goerror + u32"

definition peerUID :: "peer_calls \<Rightarrow> u32 \<times> goerror option" where
  "peerUID p =
     (case pc_SyscallConn p of
        Some err \<Rightarrow> (0, Some err)
      | None \<Rightarrow>
     (let (uid, sockErr) = (case pc_GetsockoptUcred p of Inl err \<Rightarrow> (0, Some err) | Inr u \<Rightarrow> (u, None)) in
      case pc_Control p of
        Some err \<Rightarrow> (0, Some err)
      | None \<Rightarrow> (uid, sockErr)))"

text \<open>The test \<^verbatim>\<open>uid, err := peerUID(conn); if err != nil\<close> of its caller.\<close>

definition verified_peer :: "u32 \<times> goerror option \<Rightarrow> goerror + u32" where
  "verified_peer r = (case r of (uid, None) \<Rightarrow> Inr uid | (_, Some err) \<Rightarrow> Inl err)"

lemma verified_peer_Inr:
  "verified_peer (peerUID p) = Inr uid \<longleftrightarrow>
     pc_SyscallConn p = None \<and> pc_Control p = None \<and> pc_GetsockoptUcred p = Inr uid"
  by (auto simp: verified_peer_def peerUID_def Let_def split: option.splits sum.splits)

section \<open>The contract of the operating system\<close>

text \<open>\<open>mode o p\<close> is the mode of the file at \<open>p\<close>, if there is one; \<open>listening o l\<close> the path listener \<open>l\<close> is
  bound to while it is open. Binding creates the file, with a mode of the system's choice, and fails when
  there is a file already; closing a listener removes its file.\<close>

locale socket_files =
  fixes S :: "'o os"
    and mode :: "'o \<Rightarrow> string \<Rightarrow> nat option"
    and listening :: "'o \<Rightarrow> nat \<Rightarrow> string option"
  assumes remove:
      "os_Remove S p o0 = (err, o1) \<Longrightarrow>
         listening o1 = listening o0 \<and>
         (case err of
            None \<Rightarrow> mode o0 p \<noteq> None \<and> mode o1 = (mode o0)(p := None)
          | Some e \<Rightarrow> mode o1 = mode o0 \<and> (os_IsNotExist S e \<longrightarrow> mode o0 p = None))"
    and resolve: "net_ResolveUnixAddr S p = Inr a \<Longrightarrow> a = p"
    and listen:
      "net_ListenUnix S p o0 = (r, o1) \<Longrightarrow>
         (case r of
            Inl _ \<Rightarrow> mode o1 = mode o0 \<and> listening o1 = listening o0
          | Inr l \<Rightarrow> mode o0 p = None \<and> (\<exists>m. mode o1 = (mode o0)(p := Some m)) \<and>
                     listening o0 l = None \<and> listening o1 = (listening o0)(l := Some p))"
    and chmod:
      "os_Chmod S p m o0 = (err, o1) \<Longrightarrow>
         listening o1 = listening o0 \<and>
         (case err of
            None \<Rightarrow> mode o0 p \<noteq> None \<and> mode o1 = (mode o0)(p := Some m)
          | Some _ \<Rightarrow> mode o1 = mode o0)"
    and close:
      "listening o0 l = Some p \<Longrightarrow>
         mode (listener_Close S l o0) = (mode o0)(p := None) \<and>
         listening (listener_Close S l o0) = (listening o0)(l := None)"
    and mkdir:
      "os_MkdirAll S d m o0 = (err, o1) \<Longrightarrow>
         listening o1 = listening o0 \<and> (\<forall>p. mode o0 p \<noteq> None \<longrightarrow> mode o1 p = mode o0 p)"
begin

lemma Listen_effect:
  assumes "Listen S path o0 = (r, o1)"
  shows "case r of
           Inr l \<Rightarrow> mode o1 = (mode o0)(path := Some mode_600) \<and> listening o0 l = None \<and>
                    listening o1 = (listening o0)(l := Some path)
         | Inl _ \<Rightarrow> listening o1 = listening o0 \<and> (mode o1 = mode o0 \<or> mode o1 = (mode o0)(path := None))"
proof -
  obtain removed o' where rem: "os_Remove S path o0 = (removed, o')" by fastforce
  note remove [OF rem]
  show ?thesis
  proof (cases "case removed of Some err \<Rightarrow> \<not> os_IsNotExist S err | None \<Rightarrow> False")
    case True
    with assms rem remove [OF rem] show ?thesis by (auto simp: Listen_def split: option.splits)
  next
    case False
    then have gone: "listening o' = listening o0" "mode o' = (mode o0)(path := None)"
      using remove [OF rem] by (auto split: option.splits)
    show ?thesis
    proof (cases "net_ResolveUnixAddr S path")
      case (Inl e)
      with assms rem False gone show ?thesis by (auto simp: Listen_def)
    next
      case (Inr a)
      then have a: "a = path" by (rule resolve)
      obtain lr o2 where lis: "net_ListenUnix S path o' = (lr, o2)" by fastforce
      show ?thesis
      proof (cases lr)
        case (Inl e)
        with assms rem False Inr a gone lis listen [OF lis] show ?thesis by (auto simp: Listen_def)
      next
        case l: (Inr l)
        with listen [OF lis] obtain m where o2: "mode o2 = (mode o')(path := Some m)" "listening o' l = None"
          "listening o2 = (listening o')(l := Some path)" by auto
        obtain ce o3 where ch: "os_Chmod S path mode_600 o2 = (ce, o3)" by fastforce
        from chmod [OF ch] have o3: "listening o3 = listening o2"
          "case ce of None \<Rightarrow> mode o3 = (mode o2)(path := Some mode_600) | Some _ \<Rightarrow> mode o3 = mode o2"
          by (auto split: option.splits)
        then have "listening o3 l = Some path" using o2 by simp
        note close [OF this]
        with assms rem False Inr a gone lis l ch o2 o3 show ?thesis
          by (cases ce) (auto simp: Listen_def fun_upd_idem_iff)
      qed
    qed
  qed
qed

lemma Listen_Close:
  assumes "Listen S path o0 = (Inr l, o1)"
  shows "mode (listener_Close S l o1) path = None" "listening (listener_Close S l o1) = listening o0"
proof -
  have "listening o0 l = None" "listening o1 = (listening o0)(l := Some path)" using Listen_effect [OF assms] by simp_all
  moreover from this have "listening o1 l = Some path" by simp
  ultimately show "mode (listener_Close S l o1) path = None" "listening (listener_Close S l o1) = listening o0"
    using close by (auto simp: fun_eq_iff)
qed

end

text \<open>C30: Binding the socket. For every operating system that keeps the contract: when \<^verbatim>\<open>Listen\<close> succeeds, exactly
  one new listener is open, bound to the path, and the file there has mode 0600, whether or not a stale one
  was left over; when it fails, no listener stays open, and at most the stale file is gone. No other file
  changes in either case.\<close>

theorem Listen_outcome:
  assumes "socket_files S mode listening" "Listen S path o0 = (r, o1)"
  shows "case r of
           Inr l \<Rightarrow> mode o1 = (mode o0)(path := Some mode_600) \<and> listening o0 l = None \<and>
                    listening o1 = (listening o0)(l := Some path)
         | Inl _ \<Rightarrow> listening o1 = listening o0 \<and> (mode o1 = mode o0 \<or> mode o1 = (mode o0)(path := None))"
  using socket_files.Listen_effect [OF assms] .

section \<open>A reference system\<close>

text \<open>Files with their modes, open listeners, the umask, and a set of paths the user may not touch.\<close>

record ref_os_state =
  ro_mode :: "string \<Rightarrow> nat option"
  ro_listening :: "nat \<Rightarrow> string option"
  ro_next :: nat
  ro_denied :: "string \<Rightarrow> bool"

definition ENOENT_error :: goerror where "ENOENT_error = PlainError ''no such file or directory''"
definition EACCES_error :: goerror where "EACCES_error = PlainError ''permission denied''"
definition EADDRINUSE_error :: goerror where "EADDRINUSE_error = OpError ''bind: address already in use''"

definition ref_Remove :: "string \<Rightarrow> ref_os_state \<Rightarrow> goerror option \<times> ref_os_state" where
  "ref_Remove p s =
     (if ro_mode s p = None then (Some ENOENT_error, s)
      else if ro_denied s p then (Some EACCES_error, s)
      else (None, s\<lparr>ro_mode := (ro_mode s)(p := None)\<rparr>))"

definition ref_ListenUnix :: "string \<Rightarrow> ref_os_state \<Rightarrow> (goerror + nat) \<times> ref_os_state" where
  "ref_ListenUnix p s =
     (if ro_mode s p \<noteq> None \<or> ro_listening s (ro_next s) \<noteq> None then (Inl EADDRINUSE_error, s)
      else (Inr (ro_next s),
            s\<lparr>ro_mode := (ro_mode s)(p := Some 493), ro_listening := (ro_listening s)(ro_next s := Some p),
              ro_next := Suc (ro_next s)\<rparr>))"

definition ref_Chmod :: "string \<Rightarrow> nat \<Rightarrow> ref_os_state \<Rightarrow> goerror option \<times> ref_os_state" where
  "ref_Chmod p m s =
     (if ro_mode s p = None then (Some ENOENT_error, s)
      else if ro_denied s p then (Some EACCES_error, s)
      else (None, s\<lparr>ro_mode := (ro_mode s)(p := Some m)\<rparr>))"

definition ref_CloseListener :: "nat \<Rightarrow> ref_os_state \<Rightarrow> ref_os_state" where
  "ref_CloseListener l s =
     (case ro_listening s l of
        None \<Rightarrow> s
      | Some p \<Rightarrow> s\<lparr>ro_mode := (ro_mode s)(p := None), ro_listening := (ro_listening s)(l := None)\<rparr>)"

definition ref_MkdirAll :: "string \<Rightarrow> nat \<Rightarrow> ref_os_state \<Rightarrow> goerror option \<times> ref_os_state" where
  "ref_MkdirAll d m s =
     (if ro_denied s d then (Some EACCES_error, s)
      else if ro_mode s d \<noteq> None then (None, s)
      else (None, s\<lparr>ro_mode := (ro_mode s)(d := Some m)\<rparr>))"

definition ref_os :: "ref_os_state os" where
  "ref_os =
     \<lparr>os_Remove = ref_Remove, os_IsNotExist = (\<lambda>e. e = ENOENT_error), net_ResolveUnixAddr = Inr,
      net_ListenUnix = ref_ListenUnix, os_Chmod = ref_Chmod, listener_Close = ref_CloseListener,
      os_MkdirAll = ref_MkdirAll\<rparr>"

lemmas ref_os_defs = ref_os_def ref_Remove_def ref_ListenUnix_def ref_Chmod_def ref_CloseListener_def
  ref_MkdirAll_def ENOENT_error_def EACCES_error_def EADDRINUSE_error_def

interpretation ref_socket: socket_files ref_os ro_mode ro_listening
  by unfold_locales (auto simp: ref_os_defs split: if_splits option.splits)

text \<open>A stale socket with mode 0755 is left over.\<close>

definition ex_os :: ref_os_state where
  "ex_os = \<lparr>ro_mode = (\<lambda>_. None)(''/run/kcm.socket'' := Some 493), ro_listening = (\<lambda>_. None), ro_next = 0,
     ro_denied = (\<lambda>_. False)\<rparr>"

theorem Listen_outcome_witness:
  "fst (Listen ref_os ''/run/kcm.socket'' ex_os) = Inr 0 \<and>
   ro_mode (snd (Listen ref_os ''/run/kcm.socket'' ex_os)) ''/run/kcm.socket'' = Some mode_600"
proof -
  obtain o1 where l: "Listen ref_os ''/run/kcm.socket'' ex_os = (Inr 0, o1)"
    by (simp add: Listen_def ref_os_defs ex_os_def)
  from Listen_outcome [OF ref_socket.socket_files_axioms l] show ?thesis by (simp add: l)
qed

end
