(* ===== verification/Serving.thy ===== *)
theory Serving
  imports Transitions Server Listener
begin

text \<open>
  \<^verbatim>\<open>Serve\<close> and the connections it spawns (\<^verbatim>\<open>internal/server/server.go\<close>). Every accepted connection has a
  goroutine of its own in \<^verbatim>\<open>handleConn\<close>, so requests of different connections interleave with each other
  and with the background loop of the daemon. A step of the relation is one iteration of \<^verbatim>\<open>Serve\<close>'s loop,
  the check of one peer, one request of one connection, or one round in the background. A panic ends the
  process, so nothing follows it.
\<close>

datatype conn_state = Accepted | Verified | Ended

record connection =
  cn_peer :: peer_calls
  cn_input :: "byte list"  \<comment> \<open>everything the peer sends until it closes its side\<close>
  cn_unread :: "byte list"
  cn_sink :: sink
  cn_state :: conn_state
  cn_log :: "(byte list \<times> i32 \<times> byte list) list" \<comment> \<open>requests dispatched, with their replies\<close>

record 's serving =
  sv_engine :: 's
  sv_conns :: "connection list"
  sv_result :: "goerror option" \<comment> \<open>what \<^verbatim>\<open>Serve\<close> returned\<close>
  sv_panic :: "goerror option"

definition start_serving :: "'s \<Rightarrow> 's serving" where
  "start_serving st = \<lparr>sv_engine = st, sv_conns = [], sv_result = None, sv_panic = None\<rparr>"

definition new_conn :: "peer_calls \<Rightarrow> byte list \<Rightarrow> nat option \<Rightarrow> connection" where
  "new_conn peer input writes =
     \<lparr>cn_peer = peer, cn_input = input, cn_unread = input, cn_sink = \<lparr>sent = [], budget = writes\<rparr>,
      cn_state = Accepted, cn_log = []\<rparr>"

text \<open>One iteration of \<^verbatim>\<open>Serve\<close>, for what \<^verbatim>\<open>AcceptUnix\<close> returns.\<close>

definition Serve_accept :: "goerror + connection \<Rightarrow> 's serving \<Rightarrow> 's serving" where
  "Serve_accept r sv =
     (case r of
        Inl err \<Rightarrow> sv\<lparr>sv_result := Some err\<rparr>
      | Inr cn \<Rightarrow> sv\<lparr>sv_conns := sv_conns sv @ [cn]\<rparr>)"

text \<open>\<^verbatim>\<open>handleConn\<close> up to its loop.\<close>

definition verify_peer :: "server \<Rightarrow> connection \<Rightarrow> connection" where
  "verify_peer s cn =
     (case verified_peer (peerUID (cn_peer cn)) of
        Inl err \<Rightarrow> cn\<lparr>cn_state := Ended\<rparr>
      | Inr uid \<Rightarrow> if uid \<noteq> srv_uid s then cn\<lparr>cn_state := Ended\<rparr> else cn\<lparr>cn_state := Verified\<rparr>)"

text \<open>One iteration of its loop, on the connection and the engine.\<close>

definition conn_request ::
  "'s engine \<Rightarrow> server \<Rightarrow> gotime \<Rightarrow> connection \<Rightarrow> 's \<Rightarrow> goerror option \<times> connection \<times> 's" where
  "conn_request E s now cn st =
     (case ReadMessage (cn_unread cn) of
        Inl err \<Rightarrow> (None, cn\<lparr>cn_state := Ended\<rparr>, st)
      | Inr (body, rest) \<Rightarrow>
          (case dispatch E s now body st of
             (Crash err, st) \<Rightarrow> (Some err, cn\<lparr>cn_unread := rest\<rparr>, st)
           | (Reply code payload, st) \<Rightarrow>
               (case WriteReply code payload (cn_sink cn) of
                  (err, out) \<Rightarrow>
                    (None,
                     cn\<lparr>cn_unread := rest, cn_sink := out, cn_log := cn_log cn @ [(body, code, payload)],
                        cn_state := (case err of Some _ \<Rightarrow> Ended | None \<Rightarrow> cn_state cn)\<rparr>,
                     st))))"

definition serve_request :: "'s engine \<Rightarrow> server \<Rightarrow> gotime \<Rightarrow> nat \<Rightarrow> 's serving \<Rightarrow> 's serving" where
  "serve_request E s now i sv =
     (case conn_request E s now (sv_conns sv ! i) (sv_engine sv) of
        (panic, cn, st) \<Rightarrow> sv\<lparr>sv_engine := st, sv_conns := (sv_conns sv)[i := cn], sv_panic := panic\<rparr>)"

inductive serve_step ::
  "'s engine \<Rightarrow> server \<Rightarrow> ('s \<Rightarrow> 's \<Rightarrow> bool) \<Rightarrow> 's serving \<Rightarrow> 's serving \<Rightarrow> bool"
  for E :: "'s engine" and s :: server and bg :: "'s \<Rightarrow> 's \<Rightarrow> bool" where
  accept: "sv_panic sv = None \<Longrightarrow> sv_result sv = None \<Longrightarrow>
    serve_step E s bg sv (Serve_accept (Inr (new_conn peer input writes)) sv)"
| closed: "sv_panic sv = None \<Longrightarrow> sv_result sv = None \<Longrightarrow> serve_step E s bg sv (Serve_accept (Inl err) sv)"
| verify: "sv_panic sv = None \<Longrightarrow> i < length (sv_conns sv) \<Longrightarrow> cn_state (sv_conns sv ! i) = Accepted \<Longrightarrow>
    serve_step E s bg sv (sv\<lparr>sv_conns := (sv_conns sv)[i := verify_peer s (sv_conns sv ! i)]\<rparr>)"
| request: "sv_panic sv = None \<Longrightarrow> i < length (sv_conns sv) \<Longrightarrow> cn_state (sv_conns sv ! i) = Verified \<Longrightarrow>
    serve_step E s bg sv (serve_request E s now i sv)"
| background: "sv_panic sv = None \<Longrightarrow> bg (sv_engine sv) st \<Longrightarrow> serve_step E s bg sv (sv\<lparr>sv_engine := st\<rparr>)"

section \<open>What a connection sees\<close>

text \<open>A failed write leaves part of the reply on the wire.\<close>

lemma Write_effect:
  "Write b w = (err, w') \<Longrightarrow> sent w' = sent w @ (if err = None then b else [])"
  by (auto simp: Write_def split: option.splits nat.splits)

lemma WriteReply_effect:
  assumes "WriteReply code payload w = (err, w')"
  shows "\<exists>rest. sent w @ reply_bytes code payload = sent w' @ rest \<and> (err = None \<longrightarrow> rest = [])"
proof -
  let ?a = "BigEndian_PutUint32 (4 + len32 payload)" and ?b = "BigEndian_PutUint32 (0 :: u32)"
    and ?c = "BigEndian_PutUint32 code"
  obtain e1 w1 where 1: "Write ?a w = (e1, w1)" by fastforce
  obtain e2 w2 where 2: "Write ?b w1 = (e2, w2)" by fastforce
  obtain e3 w3 where 3: "Write ?c w2 = (e3, w3)" by fastforce
  obtain e4 w4 where 4: "Write payload w3 = (e4, w4)" by fastforce
  note effects = Write_effect [OF 1] Write_effect [OF 2] Write_effect [OF 3] Write_effect [OF 4]
  show ?thesis
    using assms effects
    by (auto simp: WriteReply_def 1 2 3 4 reply_bytes_def PutUint32_def split: option.splits if_splits)
qed

definition conn_ok :: "server \<Rightarrow> connection \<Rightarrow> bool" where
  "conn_ok s cn \<longleftrightarrow>
     (verified_peer (peerUID (cn_peer cn)) \<noteq> Inr (srv_uid s) \<longrightarrow> cn_state cn \<noteq> Verified \<and> cn_log cn = []) \<and>
     (\<exists>rest. replies_bytes (map snd (cn_log cn)) = sent (cn_sink cn) @ rest \<and> (cn_state cn \<noteq> Ended \<longrightarrow> rest = [])) \<and>
     cn_input cn = concat (map (\<lambda>(body, _). message_bytes body) (cn_log cn)) @ cn_unread cn"

definition conns_ok :: "server \<Rightarrow> 's serving \<Rightarrow> bool" where
  "conns_ok s sv \<longleftrightarrow> (sv_panic sv = None \<longrightarrow> (\<forall>cn\<in>set (sv_conns sv). conn_ok s cn))"

lemma conn_ok_new: "conn_ok s (new_conn peer input writes)"
  by (simp add: conn_ok_def new_conn_def replies_bytes_def)

lemma conn_ok_verify: "conn_ok s cn \<Longrightarrow> cn_state cn = Accepted \<Longrightarrow> conn_ok s (verify_peer s cn)"
  by (auto simp: conn_ok_def verify_peer_def split: sum.splits)

lemma conn_ok_request:
  assumes "conn_ok s cn" "cn_state cn = Verified" "conn_request E s now cn st = (None, cn', st')"
  shows "conn_ok s cn'"
proof (cases "ReadMessage (cn_unread cn)")
  case (Inl err)
  with assms show ?thesis by (auto simp: conn_request_def conn_ok_def)
next
  case (Inr br)
  obtain body rest where br: "br = (body, rest)" by (cases br)
  then have read: "cn_unread cn = message_bytes body @ rest" using ReadMessage_canonical Inr by blast
  obtain code payload st1 where d: "dispatch E s now body st = (Reply code payload, st1)"
    using assms(3) Inr br by (auto simp: conn_request_def split: prod.splits reply.splits)
  obtain err out where w: "WriteReply code payload (cn_sink cn) = (err, out)" by fastforce
  obtain tail where tail: "sent (cn_sink cn) @ reply_bytes code payload = sent out @ tail" "err = None \<longrightarrow> tail = []"
    using WriteReply_effect [OF w] by blast
  have "replies_bytes (map snd (cn_log cn)) = sent (cn_sink cn)" using assms(1,2) by (auto simp: conn_ok_def)
  with tail have "replies_bytes (map snd (cn_log cn @ [(body, code, payload)])) = sent out @ tail"
    by (simp add: replies_bytes_def)
  moreover have "cn' = cn\<lparr>cn_unread := rest, cn_sink := out, cn_log := cn_log cn @ [(body, code, payload)],
      cn_state := (case err of Some _ \<Rightarrow> Ended | None \<Rightarrow> cn_state cn)\<rparr>"
    using assms(3) by (simp add: conn_request_def Inr br d w)
  ultimately show ?thesis
    using assms(1,2) tail(2) read by (auto simp: conn_ok_def split: option.splits)
qed

lemma serve_step_conns_ok:
  assumes "conns_ok s sv" "serve_step E s bg sv sv'"
  shows "conns_ok s sv'"
  using assms(2)
proof cases
  case (verify i)
  then have "conn_ok s (verify_peer s (sv_conns sv ! i))"
    using assms(1) conn_ok_verify by (simp add: conns_ok_def)
  with verify assms(1) show ?thesis
    by (auto simp: conns_ok_def dest: set_update_subset_insert [THEN subsetD])
next
  case (request i now)
  obtain p cn st where r: "conn_request E s now (sv_conns sv ! i) (sv_engine sv) = (p, cn, st)"
    using prod_cases3 by blast
  have "conn_ok s cn" if "p = None"
    using conn_ok_request [of s "sv_conns sv ! i"] r that request assms(1) by (auto simp: conns_ok_def)
  with request r assms(1) show ?thesis
    by (auto simp: conns_ok_def serve_request_def dest: set_update_subset_insert [THEN subsetD])
qed (use assms(1) in \<open>auto simp: conns_ok_def Serve_accept_def conn_ok_new\<close>)

interpretation connections: invariant_system "\<lambda>sv. \<exists>st. sv = start_serving st" "serve_step E s bg" "conns_ok s"
  for E :: "'s engine" and s :: server and bg :: "'s \<Rightarrow> 's \<Rightarrow> bool"
proof
  show "conns_ok s sv" if "\<exists>st. sv = start_serving st" for sv :: "'s serving"
    using that by (auto simp: start_serving_def conns_ok_def)
qed (rule serve_step_conns_ok)


section \<open>A connection served alone\<close>

lemma serve_conn_schedule:
  assumes "serve_conn E s clock n input out st = (Server.Closed, out', st')"
    "sv_conns sv = [cn]" "cn_state cn = Verified" "cn_unread cn = input" "cn_sink cn = out" "sv_engine sv = st"
    "sv_panic sv = None"
  shows "\<exists>sv' cn'. (serve_step E s bg)\<^sup>*\<^sup>* sv sv' \<and> sv_conns sv' = [cn'] \<and> cn_peer cn' = cn_peer cn \<and>
    cn_state cn' = Ended \<and> cn_sink cn' = out' \<and> sv_engine sv' = st' \<and> sv_panic sv' = None"
  using assms
proof (induction "length input" arbitrary: n input out st sv cn rule: less_induct)
  case less
  have step: "serve_step E s bg sv (serve_request E s (clock n) 0 sv)"
    using less.prems by (intro serve_step.request) simp_all
  show ?case
  proof (cases "ReadMessage input")
    case (Inl err)
    with less.prems step show ?thesis
      by (intro exI [of _ "serve_request E s (clock n) 0 sv"] exI [of _ "cn\<lparr>cn_state := Ended\<rparr>"])
        (auto simp: serve_conn.simps [of E s clock n input] serve_request_def conn_request_def)
  next
    case (Inr br)
    obtain body rest where br: "br = (body, rest)" by (cases br)
    then have shorter: "length rest < length input"
      using Inr by (auto dest!: ReadMessage_canonical simp: message_bytes_def)
    obtain code payload st1 where d: "dispatch E s (clock n) body st = (Reply code payload, st1)"
      using less.prems(1) Inr br
      by (auto simp: serve_conn.simps [of E s clock n input] split: prod.splits reply.splits)
    obtain err out1 where w: "WriteReply code payload out = (err, out1)" by fastforce
    let ?cn = "cn\<lparr>cn_unread := rest, cn_sink := out1, cn_log := cn_log cn @ [(body, code, payload)],
      cn_state := (case err of Some _ \<Rightarrow> Ended | None \<Rightarrow> cn_state cn)\<rparr>"
    let ?sv = "sv\<lparr>sv_engine := st1, sv_conns := [?cn], sv_panic := None\<rparr>"
    have sv: "serve_request E s (clock n) 0 sv = ?sv"
      using less.prems Inr br d w by (simp add: serve_request_def conn_request_def)
    show ?thesis
    proof (cases err)
      case (Some e)
      then have "out' = out1" "st' = st1"
        using less.prems(1) Inr br d w by (simp_all add: serve_conn.simps [of E s clock n input])
      with Some step sv show ?thesis by (intro exI [of _ ?sv] exI [of _ ?cn]) auto
    next
      case None
      then have "serve_conn E s clock (Suc n) rest out1 st1 = (Server.Closed, out', st')"
        using less.prems(1) Inr br d w by (simp add: serve_conn.simps [of E s clock n input])
      from less.hyps [OF shorter this, of ?sv ?cn] None less.prems(3) step sv show ?thesis
        by (auto intro: converse_rtranclp_into_rtranclp)
    qed
  qed
qed


section \<open>Invariants of the engine\<close>

text \<open>What every operation of the engine and every background round keeps, all interleavings keep.\<close>

locale background_engine = engine_invariant +
  fixes bg :: "'a \<Rightarrow> 'a \<Rightarrow> bool"
  assumes background_keeps: "I st \<Longrightarrow> bg st st' \<Longrightarrow> I st'"
begin

lemma conn_request_keeps:
  assumes "I st" "conn_request E s now cn st = (p, cn', st')"
  shows "I st'"
proof (cases "ReadMessage (cn_unread cn)")
  case (Inr br)
  obtain body rest where br: "br = (body, rest)" by (cases br)
  have "st' = snd (dispatch E s now body st)"
    using assms(2) Inr br by (auto simp: conn_request_def split: prod.splits reply.splits)
  then show ?thesis using dispatch_keeps [OF assms(1)] by simp
qed (use assms in \<open>simp add: conn_request_def\<close>)

lemma serve_step_keeps: "I (sv_engine sv) \<Longrightarrow> serve_step E s bg sv sv' \<Longrightarrow> I (sv_engine sv')"
  by (erule serve_step.cases)
    (auto simp: Serve_accept_def serve_request_def background_keeps split: sum.splits prod.splits dest: conn_request_keeps)

end

sublocale background_engine \<subseteq> interleaved: invariant_system
  "\<lambda>sv. \<exists>st. I st \<and> sv = start_serving st" "serve_step E s bg" "\<lambda>sv. I (sv_engine sv)"
  for s
  by unfold_locales (auto simp: start_serving_def intro: serve_step_keeps)

end
