(* ===== verification/Go_Path.thy ===== *)
theory Go_Path
  imports Main
begin

text \<open>
  Go's \<^verbatim>\<open>path/filepath\<close> on Unix, as far as \<^verbatim>\<open>cmd/kcmexd/main.go\<close> uses it: \<^verbatim>\<open>Join\<close>, \<^verbatim>\<open>Dir\<close> and \<^verbatim>\<open>Clean\<close>,
  which both end in. A path is split at its slashes, and \<^verbatim>\<open>Clean\<close> processes the elements from left to
  right: empty ones and \<^verbatim>\<open>.\<close> go, \<^verbatim>\<open>..\<close> takes back the element before it.
\<close>

abbreviation slash :: char where "slash \<equiv> CHR ''/''"

fun split_slash :: "string \<Rightarrow> string list" where
  "split_slash [] = [[]]"
| "split_slash (c # s) =
     (if c = slash then [] # split_slash s
      else (case split_slash s of e # es \<Rightarrow> (c # e) # es | [] \<Rightarrow> [[c]]))"

fun join_slash :: "string list \<Rightarrow> string" where
  "join_slash [] = []"
| "join_slash [e] = e"
| "join_slash (e # f # es) = e @ slash # join_slash (f # es)"

text \<open>One element; the ones kept so far are in reverse.\<close>

fun clean_step :: "bool \<Rightarrow> string \<Rightarrow> string list \<Rightarrow> string list" where
  "clean_step rooted e acc =
     (if e = [] \<or> e = ''.'' then acc
      else if e = ''..'' then
        (case acc of
           [] \<Rightarrow> if rooted then [] else [''..'']
         | f # fs \<Rightarrow> if f = ''..'' then ''..'' # acc else fs)
      else e # acc)"

declare clean_step.simps [simp del]

definition rooted :: "string \<Rightarrow> bool" where
  "rooted path \<longleftrightarrow> (case path of c # _ \<Rightarrow> c = slash | [] \<Rightarrow> False)"

definition clean_elems :: "bool \<Rightarrow> string list \<Rightarrow> string list" where
  "clean_elems r es = rev (fold (clean_step r) es [])"

definition print_path :: "bool \<Rightarrow> string list \<Rightarrow> string" where
  "print_path r es = (if r then slash # join_slash es else if es = [] then ''.'' else join_slash es)"

definition Clean :: "string \<Rightarrow> string" where
  "Clean path = (if path = [] then ''.'' else print_path (rooted path) (clean_elems (rooted path) (split_slash path)))"

fun Join :: "string list \<Rightarrow> string" where
  "Join [] = []"
| "Join (e # es) = (if e = [] then Join es else Clean (join_slash (e # es)))"

definition Dir :: "string \<Rightarrow> string" where
  "Dir path = Clean (rev (dropWhile (\<lambda>c. c \<noteq> slash) (rev path)))"

section \<open>Splitting and joining\<close>

lemma split_slash_nonempty [simp]: "split_slash s \<noteq> []"
  by (cases s) (auto split: list.split)

lemma split_slash_no_slash: "slash \<notin> set s \<Longrightarrow> split_slash s = [s]"
  by (induction s) auto

lemma split_slash_append: "split_slash (s @ slash # t) = split_slash s @ split_slash t"
  by (induction s) (auto split: list.split)

lemma split_slash_elems: "e \<in> set (split_slash s) \<Longrightarrow> slash \<notin> set e"
proof (induction s arbitrary: e)
  case (Cons c s)
  then show ?case by (cases "split_slash s") (auto split: if_splits)
qed simp

lemma join_slash_snoc: "es \<noteq> [] \<Longrightarrow> join_slash (es @ [e]) = join_slash es @ slash # e"
  by (induction es rule: join_slash.induct) auto

lemma split_join: "es \<noteq> [] \<Longrightarrow> \<forall>e\<in>set es. slash \<notin> set e \<Longrightarrow> split_slash (join_slash es) = es"
  by (induction es rule: join_slash.induct) (simp_all add: split_slash_append split_slash_no_slash)

section \<open>Normal forms\<close>

text \<open>What \<^verbatim>\<open>Clean\<close> leaves: no empty element and no \<^verbatim>\<open>.\<close>, and \<^verbatim>\<open>..\<close> only at the front of an unrooted path.
  The list is in reverse, as the loop builds it.\<close>

fun clean_rev :: "bool \<Rightarrow> string list \<Rightarrow> bool" where
  "clean_rev r [] \<longleftrightarrow> True"
| "clean_rev r (e # acc) \<longleftrightarrow>
     slash \<notin> set e \<and> e \<noteq> [] \<and> e \<noteq> ''.'' \<and> clean_rev r acc \<and>
     (e = ''..'' \<longrightarrow> \<not> r \<and> (case acc of [] \<Rightarrow> True | f # _ \<Rightarrow> f = ''..''))"

lemma clean_step_rev: "clean_rev r acc \<Longrightarrow> slash \<notin> set e \<Longrightarrow> clean_rev r (clean_step r e acc)"
  by (cases acc) (auto simp: clean_step.simps)

lemma fold_clean_rev:
  "clean_rev r acc \<Longrightarrow> \<forall>e\<in>set es. slash \<notin> set e \<Longrightarrow> clean_rev r (fold (clean_step r) es acc)"
  by (induction es arbitrary: acc) (simp_all add: clean_step_rev)

lemma clean_rev_step: "clean_rev r (e # acc) \<Longrightarrow> clean_step r e acc = e # acc"
  by (cases acc) (auto simp: clean_step.simps)

lemma fold_clean_id: "clean_rev r acc \<Longrightarrow> fold (clean_step r) (rev acc) [] = acc"
proof (induction acc)
  case (Cons e acc)
  then have "fold (clean_step r) (rev acc) [] = acc" by simp
  then show ?case using clean_rev_step [OF Cons.prems] by simp
qed simp

lemma clean_rev_no_slash: "clean_rev r acc \<Longrightarrow> e \<in> set acc \<Longrightarrow> slash \<notin> set e"
  by (induction acc) auto

lemma clean_step_empty [simp]: "clean_step r [] acc = acc"
  by (simp add: clean_step.simps)

text \<open>The elements of a printed path are the ones printed, up to empty ones.\<close>

lemma fold_print_path:
  assumes "clean_rev r acc"
  shows "fold (clean_step r) (split_slash (print_path r (rev acc))) [] = acc"
proof (cases "acc = []")
  case True
  then show ?thesis by (simp add: print_path_def clean_step.simps)
next
  case False
  then have "split_slash (join_slash (rev acc)) = rev acc"
    using split_join [of "rev acc"] clean_rev_no_slash [OF assms] by simp
  then show ?thesis
    using False fold_clean_id [OF assms] split_slash_append [of "[]"]
    by (cases r) (simp_all add: print_path_def)
qed

lemma rooted_append: "s \<noteq> [] \<Longrightarrow> rooted (s @ t) = rooted s"
  by (cases s) (simp_all add: rooted_def)

lemma hd_join: "clean_rev r acc \<Longrightarrow> acc \<noteq> [] \<Longrightarrow> \<not> rooted (join_slash (rev acc)) \<and> join_slash (rev acc) \<noteq> []"
proof (induction acc)
  case (Cons e acc)
  then show ?case
  proof (cases "acc = []")
    case True
    with Cons.prems show ?thesis by (cases e) (auto simp: rooted_def)
  next
    case False
    with Cons show ?thesis by (simp add: join_slash_snoc rooted_append)
  qed
qed simp

lemma rooted_print_path [simp]: "clean_rev r acc \<Longrightarrow> rooted (print_path r (rev acc)) = r"
  using hd_join [of r acc] by (cases r) (auto simp: print_path_def rooted_def [of "slash # _"] rooted_def [of "''.''"])

lemma print_path_nonempty [simp]: "clean_rev r acc \<Longrightarrow> print_path r (rev acc) \<noteq> []"
  using hd_join [of r acc] by (auto simp: print_path_def)

text \<open>The loop's result for a path.\<close>

definition clean_acc :: "string \<Rightarrow> string list" where
  "clean_acc path = fold (clean_step (rooted path)) (split_slash path) []"

lemma clean_acc_rev: "clean_rev (rooted path) (clean_acc path)"
  unfolding clean_acc_def using fold_clean_rev [of "rooted path" "[]" "split_slash path"] split_slash_elems by simp

lemma Clean_acc: "path \<noteq> [] \<Longrightarrow> Clean path = print_path (rooted path) (rev (clean_acc path))"
  by (simp add: Clean_def clean_elems_def clean_acc_def)

lemma clean_acc_print: "clean_rev r acc \<Longrightarrow> clean_acc (print_path r (rev acc)) = acc"
  by (simp add: clean_acc_def fold_print_path)

lemma Clean_print: "clean_rev r acc \<Longrightarrow> Clean (print_path r (rev acc)) = print_path r (rev acc)"
  by (simp add: Clean_acc clean_acc_print)

lemma Clean_idempotent: "Clean (Clean path) = Clean path"
proof (cases "path = []")
  case True
  then show ?thesis by (simp add: Clean_def print_path_def clean_elems_def clean_step.simps rooted_def)
next
  case False
  then show ?thesis using Clean_print [OF clean_acc_rev, of path] by (simp add: Clean_acc)
qed

section \<open>The directory of a joined path\<close>

lemma rev_dropWhile_slash:
  "slash \<notin> set e \<Longrightarrow> rev (dropWhile (\<lambda>c. c \<noteq> slash) (rev (s @ slash # e))) = s @ [slash]"
  by (induction e rule: rev_induct) auto

lemma clean_acc_slash: "path \<noteq> [] \<Longrightarrow> clean_acc (path @ slash # s) = fold (clean_step (rooted path)) (split_slash s) (clean_acc path)"
  by (simp add: clean_acc_def split_slash_append rooted_append)

text \<open>An element that \<^verbatim>\<open>Clean\<close> keeps.\<close>

definition plain :: "string \<Rightarrow> bool" where
  "plain e \<longleftrightarrow> slash \<notin> set e \<and> e \<notin> {[], ''.'', ''..''}"

lemma Dir_Clean_plain:
  assumes "path \<noteq> []" "plain e"
  shows "Dir (Clean (path @ slash # e)) = Clean path"
proof -
  let ?r = "rooted path" and ?acc = "clean_acc path"
  have acc: "clean_rev ?r ?acc" by (rule clean_acc_rev)
  have "clean_acc (path @ slash # e) = e # ?acc"
    using assms by (simp add: clean_acc_slash plain_def split_slash_no_slash clean_step.simps)
  then have *: "Clean (path @ slash # e) = print_path ?r (rev ?acc @ [e])"
    using assms(1) by (simp add: Clean_acc rooted_append)
  show ?thesis
  proof (cases "?acc = []")
    case True
    then have "Clean path = (if ?r then [slash] else ''.'')"
      using assms(1) by (simp add: Clean_acc print_path_def)
    moreover have "Dir (if ?r then slash # e else e) = (if ?r then [slash] else ''.'')"
    proof (cases ?r)
      case True
      then show ?thesis
        using rev_dropWhile_slash [of e "[]"] assms(2)
        by (simp add: plain_def Dir_def Clean_def print_path_def clean_elems_def rooted_def)
    next
      case False
      have "dropWhile (\<lambda>c. c \<noteq> slash) (rev e) = []" using assms(2) by (auto simp: plain_def)
      with False show ?thesis by (simp add: Dir_def Clean_def)
    qed
    ultimately show ?thesis using * True by (cases ?r) (simp_all add: print_path_def)
  next
    case False
    let ?p = "print_path ?r (rev ?acc)"
    have "print_path ?r (rev ?acc @ [e]) = ?p @ slash # e"
      using False by (simp add: print_path_def join_slash_snoc)
    then have "Dir (Clean (path @ slash # e)) = Clean (?p @ [slash])"
      using * rev_dropWhile_slash [of e ?p] assms(2) by (simp add: Dir_def plain_def)
    also have "clean_acc (?p @ [slash]) = ?acc"
      using clean_acc_slash [of ?p "[]"] acc by (simp add: clean_acc_print)
    then have "Clean (?p @ [slash]) = ?p"
      using acc by (simp add: Clean_acc rooted_append)
    finally show ?thesis using assms(1) by (simp add: Clean_acc)
  qed
qed

end
