(* ===== verification/Daemon.thy ===== *)
theory Daemon
  imports Serving Go_Path
begin

text \<open>
  The daemon as \<^verbatim>\<open>cmd/kcmexd/main.go\<close> puts it together: the engine is opened from the source file, then
  the requests of all connections and the rounds of the background loop (\<^verbatim>\<open>Run\<close>) interleave, as the step
  relation of \<open>Serving\<close> has it. Also here: the choice of the source file and of the socket path, the other
  small functions of \<^verbatim>\<open>main.go\<close>, and \<^verbatim>\<open>run\<close> itself with its deferred clean-up.
\<close>

section \<open>Start-up choices\<close>

text \<open>\<^verbatim>\<open>os.Getenv\<close> gives the empty string for an unset variable.\<close>

definition CutPrefix :: "string \<Rightarrow> string \<Rightarrow> string option" where
  "CutPrefix s pre = (if take (length pre) s = pre then Some (drop (length pre) s) else None)"

definition resolveCcachePath :: "string \<Rightarrow> string \<Rightarrow> int \<Rightarrow> goerror + string" where
  "resolveCcachePath flagVal KRB5CCNAME uid =
     (if flagVal \<noteq> [] then Inr flagVal
      else if KRB5CCNAME \<noteq> [] then
        (case CutPrefix KRB5CCNAME ''FILE:'' of
           Some rest \<Rightarrow> Inr rest
         | None \<Rightarrow>
             if CHR '':'' \<in> set KRB5CCNAME
             then Inl (PlainError (''KRB5CCNAME '' @ fmt_q KRB5CCNAME @
                    '' is not a FILE ccache; pass -ccache explicitly''))
             else Inr KRB5CCNAME)
      else Inr (''/tmp/krb5cc_'' @ fmt_int uid))"

definition checkOwnedByUID :: "stat_result \<Rightarrow> int \<Rightarrow> goerror option" where
  "checkOwnedByUID st uid =
     (case st of
        Inl err \<Rightarrow> Some err
      | Inr None \<Rightarrow> None
      | Inr (Some owner) \<Rightarrow>
          if owner \<noteq> uid
          then Some (PlainError (''ccache is owned by uid '' @ fmt_int owner @ '', not '' @ fmt_int uid))
          else None)"

datatype level = LevelDebug | LevelInfo | LevelWarn | LevelError

text \<open>\<^verbatim>\<open>strings.ToLower\<close> on the letters A to Z; no other text lowers to one of the level names, but for
  \<^verbatim>\<open>K\<close> (Kelvin sign), which none of them contains.\<close>

definition lower_char :: "char \<Rightarrow> char" where
  "lower_char c = (let n = of_char c :: nat in if 65 \<le> n \<and> n \<le> 90 then char_of (n + 32) else c)"

definition parseLevel :: "string \<Rightarrow> level" where
  "parseLevel s =
     (let l = map lower_char s in
      if l = ''debug'' then LevelDebug
      else if l = ''warn'' then LevelWarn
      else if l = ''error'' then LevelError
      else LevelInfo)"

text \<open>The start of \<^verbatim>\<open>run\<close>, up to the open engine: exit status 1, or the client.\<close>

record flags =
  f_ccache :: string
  f_socket :: string
  f_logLevel :: string
  f_minLife :: duration
  f_maxConc :: int

definition run_open ::
  "'w krb5_lib \<Rightarrow> flags \<Rightarrow> string \<Rightarrow> int \<Rightarrow> gotime \<Rightarrow> 'w \<Rightarrow> (int + client) \<times> 'w" where
  "run_open L f KRB5CCNAME uid now w =
     (case resolveCcachePath (f_ccache f) KRB5CCNAME uid of
        Inl err \<Rightarrow> (Inl 1, w)
      | Inr src \<Rightarrow>
     (case checkOwnedByUID (os_Stat L src w) uid of
        Some err \<Rightarrow> (Inl 1, w)
      | None \<Rightarrow>
     (case Open L src \<lparr>MinTicketLife = f_minLife f, OwnerUID = uid, MaxConcurrent = f_maxConc f\<rparr> now w of
        (Inl err, w) \<Rightarrow> (Inl 1, w)
      | (Inr c, w) \<Rightarrow> (Inr c, w))))"

section \<open>Reachable states\<close>

text \<open>A round of the background loop, as the steps beside the connections.\<close>

definition maintenance_round :: "'w krb5_lib \<Rightarrow> client \<times> 'w \<Rightarrow> client \<times> 'w \<Rightarrow> bool" where
  "maintenance_round L st st' \<longleftrightarrow> (\<exists>now r. run_round L now (fst st) (snd st) = (r, fst st', snd st'))"

context mem_ccache
begin

lemma guarded_run_open: "run_open L f env uid now w = (Inr c, w') \<Longrightarrow> guarded w'"
  by (auto simp: run_open_def split: op_splits dest: guarded_Open)

lemma guarded_run_round:
  "guarded w \<Longrightarrow> run_round L now c w = (r, c', w') \<Longrightarrow> guarded w'"
  by (auto simp: run_round_def split: op_splits dest: guarded_maintain)

end

sublocale mem_ccache \<subseteq> daemon: background_engine "krb5c_engine L" "\<lambda>(c, w). cache_guarded entries owner w"
  "maintenance_round L"
  by unfold_locales (auto simp: maintenance_round_def split_beta dest: guarded_run_round)

context mem_ccache
begin

lemma serving_guarded:
  assumes "guarded w" "(serve_step (krb5c_engine L) s (maintenance_round L))\<^sup>*\<^sup>* (start_serving (c, w)) sv"
  shows "guarded (snd (sv_engine sv))"
  using daemon.interleaved.reachable_inv [OF _ assms(2)] assms(1) by (auto simp: split_beta)

end

text \<open>C1: no service ticket is ever requested renewable. For every library that keeps the MEMORY cache
  contract, in every state the daemon reaches from start-up by any interleaving of requests (of any
  number of connections, from any peers) and of background rounds, every local TGT of the cache's own
  principal in the working cache has \<^verbatim>\<open>TKT_FLG_RENEWABLE\<close> cleared, whatever flags the source file, the
  KDC or a STORE request gave it.\<close>

theorem reachable_TGT_not_renewable:
  assumes "mem_ccache L entries owner" "run_open L f env uid now w0 = (Inr c0, w1)"
    "(serve_step (krb5c_engine L) s (maintenance_round L))\<^sup>*\<^sup>* (start_serving (c0, w1)) sv"
  shows "\<forall>e\<in>set (entries (snd (sv_engine sv))). local_tgt e \<longrightarrow>
           same_principal (cr_client e) (owner (snd (sv_engine sv))) \<longrightarrow>
           cr_ticket_flags e AND tktFlgRenewable = 0"
  using mem_ccache.serving_guarded [OF assms(1) mem_ccache.guarded_run_open [OF assms(1,2)] assms(3)]
  by (simp add: cache_guarded_def tgt_guarded_def)

section \<open>Start-up\<close>

text \<open>Which source is loaded. A nonempty \<^verbatim>\<open>-ccache\<close> flag is taken as it is, a \<^verbatim>\<open>FILE:\<close> prefix or
  another cache type included. Without the flag, the environment variable decides: a value with the
  prefix \<^verbatim>\<open>FILE:\<close>, or without any colon, names the file, any other type of cache is refused, and
  without a value the default file of the user is taken; there is no other outcome.\<close>

lemma resolveCcachePath_cases:
  "resolveCcachePath (x # flagVal) env uid = Inr (x # flagVal) \<and>
   (case resolveCcachePath [] env uid of
      Inl err \<Rightarrow> CHR '':'' \<in> set env \<and> take 5 env \<noteq> ''FILE:''
    | Inr path \<Rightarrow>
        env = [] \<and> path = ''/tmp/krb5cc_'' @ fmt_int uid \<or>
        env = ''FILE:'' @ path \<or>
        env \<noteq> [] \<and> CHR '':'' \<notin> set env \<and> path = env)"
proof -
  have "env = ''FILE:'' @ drop 5 env" if "take 5 env = ''FILE:''"
    using that by (metis append_take_drop_id)
  then show ?thesis
    by (auto simp: resolveCcachePath_def CutPrefix_def numeral_eq_Suc split: option.splits if_splits)
qed

text \<open>The daemon only starts on a file of its own user. If the file's owner can be determined and
  is not the daemon's user, \<^verbatim>\<open>run\<close> exits with status 1 and leaves the library untouched.\<close>

lemma run_open_refuses_foreign_file:
  assumes "resolveCcachePath (f_ccache f) env uid = Inr src" "os_Stat L src w = Inr (Some owner)"
    "owner \<noteq> uid"
  shows "run_open L f env uid now w = (Inl 1, w)"
  using assms by (simp add: run_open_def checkOwnedByUID_def)

section \<open>The socket and the life of the process\<close>

text \<open>\<^verbatim>\<open>os.TempDir\<close> is \<^verbatim>\<open>$TMPDIR\<close>, or \<^verbatim>\<open>/tmp\<close>.\<close>

definition TempDir :: "string \<Rightarrow> string" where
  "TempDir TMPDIR = (if TMPDIR = [] then ''/tmp'' else TMPDIR)"

definition defaultSocketPath :: "string \<Rightarrow> string \<Rightarrow> int \<Rightarrow> string" where
  "defaultSocketPath XDG_RUNTIME_DIR TMPDIR uid =
     (if XDG_RUNTIME_DIR \<noteq> [] then Join [XDG_RUNTIME_DIR, ''kcmex'', ''kcm.socket'']
      else Join [TempDir TMPDIR, ''kcmex-'' @ fmt_int uid, ''kcm.socket''])"

text \<open>\<^verbatim>\<open>strings.Contains\<close>.\<close>

fun Contains :: "string \<Rightarrow> string \<Rightarrow> bool" where
  "Contains [] sub \<longleftrightarrow> sub = []"
| "Contains (c # s) sub \<longleftrightarrow> take (length sub) (c # s) = sub \<or> Contains s sub"

definition closed_text :: string where "closed_text = ''use of closed network connection''"

fun isClosedErr :: "goerror \<Rightarrow> bool" where
  "isClosedErr (OpError text) = Contains text closed_text"
| "isClosedErr (WrapError _ err) = isClosedErr err"
| "isClosedErr _ = False"

text \<open>What \<^verbatim>\<open>run\<close> says of the credentials it loaded, if the cache has a principal. The path is the one the
  engine was opened with.\<close>

definition loaded_attrs :: "'w krb5_lib \<Rightarrow> ('w, (string \<times> attr) list) operation" where
  "loaded_attrs L c w =
     (case DefaultPrincipal L c w of
        (Inl err, c, w) \<Rightarrow> (Inl err, c, w)
      | (Inr p, c, w) \<Rightarrow>
          (let st = TGT c;
               attrs = [(''ccache'', AStr (srcPath c)), (''principal'', AStr (UnparseName p))];
               attrs = (if OK st
                        then attrs @ [(''tgt_expires'', ATime (Expires st))] @
                          (if \<not> IsZero (RenewUntil st) then [(''renew_until'', ATime (RenewUntil st))] else [])
                        else attrs)
           in (Inr attrs, c, w)))"

text \<open>What \<^verbatim>\<open>run\<close> does that others see. Functions deferred later run earlier.\<close>

datatype event =
    Opened | Loaded "(string \<times> attr) list" | Maintenance_started | Listening server | Served
  | Maintenance_stopped | Maintenance_ended | Client_closed

text \<open>
  \<^verbatim>\<open>run\<close>: the exit status, the events in order, and the system's state. \<open>accept_err\<close> is the error accepting
  connections ends with, or \<open>None\<close> when a signal arrives first: the goroutine waiting for it then closes the
  listener, and \<^verbatim>\<open>AcceptUnix\<close> returns the error of a closed connection.
\<close>

definition run ::
  "'w krb5_lib \<Rightarrow> 'o os \<Rightarrow> flags \<Rightarrow> string \<Rightarrow> int \<Rightarrow> gotime \<Rightarrow> goerror option \<Rightarrow> 'w \<Rightarrow> 'o \<Rightarrow> int \<times> event list \<times> 'o" where
  "run L S f KRB5CCNAME uid now accept_err w o0 =
     (case run_open L f KRB5CCNAME uid now w of
        (Inl code, w) \<Rightarrow> (code, [], o0)
      | (Inr c, w) \<Rightarrow>
          (let defers = [Client_closed];
               started = Opened # (case fst (loaded_attrs L c w) of Inl _ \<Rightarrow> [] | Inr attrs \<Rightarrow> [Loaded attrs]);
               started = started @ [Maintenance_started];
               defers = [Maintenance_stopped, Maintenance_ended] @ defers in
           case os_MkdirAll S (Dir (f_socket f)) mode_700 o0 of
             (Some err, o1) \<Rightarrow> (1, started @ defers, o1)
           | (None, o1) \<Rightarrow>
               (case Listen S (f_socket f) o1 of
                  (Inl err, o2) \<Rightarrow> (1, started @ defers, o2)
                | (Inr l, o2) \<Rightarrow>
                    (let srv = New (fmt_int uid) (word_of_int uid) (parseLevel (f_logLevel f) = LevelDebug);
                         (err, o3) = (case accept_err of
                                        None \<Rightarrow> (OpError closed_text, listener_Close S l o2)
                                      | Some err \<Rightarrow> (err, o2)) in
                     (if \<not> isClosedErr err then 1 else 0, started @ [Listening srv, Served] @ defers, o3)))))"

lemma Contains_refl [simp]: "Contains s s"
  by (cases s) simp_all

lemma run_open_code: "fst (run_open L f env uid now w) = Inl code \<Longrightarrow> code = 1"
  by (auto simp: run_open_def split: op_splits)

text \<open>The background loop is started once the engine is open, and ended before it is closed; each once.\<close>

definition orderly :: "event list \<Rightarrow> bool" where
  "orderly events \<longleftrightarrow>
     (\<exists>pre mid. events = Opened # pre @ Maintenance_started # mid @ [Maintenance_stopped, Maintenance_ended, Client_closed] \<and>
        (set pre \<union> set mid) \<inter> {Opened, Maintenance_started, Maintenance_stopped, Maintenance_ended, Client_closed} = {})"

lemma orderlyI:
  "set pre \<subseteq> range Loaded \<Longrightarrow> set mid \<subseteq> {Listening srv, Served} \<Longrightarrow>
     orderly (Opened # pre @ Maintenance_started # mid @ [Maintenance_stopped, Maintenance_ended, Client_closed])"
  unfolding orderly_def by (intro exI [of _ pre] exI [of _ mid]) auto

text \<open>C29: however \<^verbatim>\<open>run\<close> ends, its status is 0 or 1, and if the engine was opened then the background loop is
  started once, is stopped and has ended before the engine is closed, which is the last thing that happens,
  and happens once. After a signal the status is 0 if the daemon got as far as listening, and then the socket's
  file is gone and no listener that \<^verbatim>\<open>run\<close> opened is left; a daemon that fails before leaves no listener
  either.\<close>

theorem run_cleans_up:
  assumes "socket_files S mode listening" "run L S f env uid now accept_err w o0 = (code, events, o1)"
  shows "code \<in> {0, 1} \<and>
    (events = [] \<or> orderly events) \<and>
    (accept_err = None \<longrightarrow>
       (code = 0 \<longleftrightarrow> Served \<in> set events) \<and> (code = 0 \<longrightarrow> mode o1 (f_socket f) = None) \<and>
       listening o1 = listening o0)"
proof (cases "fst (run_open L f env uid now w)")
  case (Inl c)
  with assms(2) run_open_code [OF Inl] show ?thesis by (auto simp: run_def split: prod.splits)
next
  case (Inr c)
  then obtain w1 where opened: "run_open L f env uid now w = (Inr c, w1)" by (metis prod.collapse)
  define pre where "pre = (case fst (loaded_attrs L c w1) of Inl _ \<Rightarrow> [] | Inr attrs \<Rightarrow> [Loaded attrs])"
  have pre: "set pre \<subseteq> range Loaded" "Served \<notin> set pre" by (auto simp: pre_def split: sum.splits)
  note ends = orderlyI [OF pre(1), of "[]"]
  obtain e1 oa where mk: "os_MkdirAll S (Dir (f_socket f)) mode_700 o0 = (e1, oa)" by fastforce
  have la: "listening oa = listening o0" using socket_files.mkdir [OF assms(1) mk] by simp
  note run = assms(2) [unfolded run_def opened, simplified, folded pre_def] mk
  show ?thesis
  proof (cases e1)
    case (Some err)
    with run la pre(2) ends show ?thesis by auto
  next
    case made: None
    obtain r ob where li: "Listen S (f_socket f) oa = (r, ob)" by fastforce
    show ?thesis
    proof (cases r)
      case (Inl err)
      with run made la li socket_files.Listen_effect [OF assms(1) li] pre(2) ends show ?thesis by auto
    next
      case (Inr l)
      let ?srv = "New (fmt_int uid) (word_of_int uid) (parseLevel (f_logLevel f) = LevelDebug)"
      have "events = Opened # pre @ Maintenance_started # [Listening ?srv, Served] @
          [Maintenance_stopped, Maintenance_ended, Client_closed]" "code \<in> {0, 1}"
        using run made li Inr by (auto simp: Let_def split: prod.splits if_splits)
      moreover have "code = 0 \<and> o1 = listener_Close S l ob" if "accept_err = None"
        using that run made li Inr by simp
      ultimately show ?thesis
        using orderlyI [OF pre(1), of "[Listening ?srv, Served]" ?srv] socket_files.Listen_Close [OF assms(1) li [unfolded Inr]] la
        by auto
    qed
  qed
qed

text \<open>The directory \<^verbatim>\<open>run\<close> creates is the one the default socket is in, with its path in normal form,
  whatever \<^verbatim>\<open>XDG_RUNTIME_DIR\<close> and \<^verbatim>\<open>TMPDIR\<close> are: trailing and doubled slashes, \<^verbatim>\<open>.\<close> and \<^verbatim>\<open>..\<close> included.\<close>

lemma default_socket_dir:
  "Dir (defaultSocketPath xdg tmp uid) =
     (if xdg \<noteq> [] then Clean (xdg @ ''/kcmex'') else Clean (TempDir tmp @ ''/kcmex-'' @ fmt_int uid)) \<and>
   Clean (defaultSocketPath xdg tmp uid) = defaultSocketPath xdg tmp uid"
proof -
  have sock: "plain ''kcm.socket''" by (simp add: plain_def)
  have tmp: "TempDir tmp \<noteq> []" by (simp add: TempDir_def)
  show ?thesis
    using Dir_Clean_plain [OF _ sock, of "xdg @ ''/kcmex''"]
      Dir_Clean_plain [OF _ sock, of "TempDir tmp @ ''/kcmex-'' @ fmt_int uid"] tmp
    by (simp add: defaultSocketPath_def Clean_idempotent)
qed

end
