(* ===== verification/Ref_Krb5.thy ===== *)
theory Ref_Krb5
  imports Ops
begin

text \<open>
  A reference libkrb5: named caches, the version 4 encoding of credentials, principal names with
  MIT's quoting, and a KDC that issues a fixed set of service tickets and renewals. It is executable,
  it is shown to keep the contracts \<open>mem_ccache\<close> and \<open>reliable_ccache\<close>, and the concrete instances of
  the theorems about the engine are evaluated on it. It stands for the parameter only: no theorem
  about the program assumes this library.
\<close>

section \<open>The version 4 encoding of a credential\<close>

definition to_krb5 :: "principal \<Rightarrow> krb5_principal" where
  "to_krb5 p = \<lparr>kp_type = Type p, kp_realm = Realm p, kp_data = Components p\<rparr>"

definition get_data :: "byte list \<Rightarrow> goerror + byte list \<times> byte list" where
  "get_data r = and_then (ReadUint32 r) (\<lambda>(n, r). cut_data n r)"

fun get_entries :: "nat \<Rightarrow> byte list \<Rightarrow> goerror + typed_data \<times> byte list" where
  "get_entries 0 r = Inr ([], r)"
| "get_entries (Suc n) r =
     and_then (readUint16 r) (\<lambda>(t, r).
     and_then (get_data r) (\<lambda>(d, r).
     and_then (get_entries n r) (\<lambda>(es, r). Inr ((t, d) # es, r))))"

definition get_list :: "byte list \<Rightarrow> goerror + typed_data \<times> byte list" where
  "get_list r = and_then (ReadUint32 r) (\<lambda>(n, r). get_entries (unat n) r)"

definition put_cred :: "krb5_creds \<Rightarrow> byte list" where
  "put_cred cr =
     MarshalPrincipal (readPrincipal (cr_client cr)) @ MarshalPrincipal (readPrincipal (cr_server cr))
     @ BigEndian_PutUint16 (ucast (cr_enctype cr)) @ put_data (cr_key cr)
     @ PutUint32 (cr_authtime cr) @ PutUint32 (cr_starttime cr) @ PutUint32 (cr_endtime cr)
     @ PutUint32 (cr_renew_till cr) @ [of_bool (cr_is_skey cr)] @ PutUint32 (cr_ticket_flags cr)
     @ put_list (cr_addresses cr) @ put_list (cr_authdata cr)
     @ put_data (cr_ticket cr) @ put_data (cr_second_ticket cr)"

definition get_flag :: "byte list \<Rightarrow> goerror + bool \<times> byte list" where
  "get_flag r = (case r of [] \<Rightarrow> Inl ErrTruncated | b # r \<Rightarrow> Inr (b \<noteq> 0, r))"

definition get_cred :: "byte list \<Rightarrow> goerror + krb5_creds \<times> byte list" where
  "get_cred r =
     and_then (read_principal r) (\<lambda>(client, r).
     and_then (read_principal r) (\<lambda>(server, r).
     and_then (readUint16 r) (\<lambda>(enctype, r).
     and_then (get_data r) (\<lambda>(key, r).
     and_then (ReadUint32 r) (\<lambda>(authtime, r).
     and_then (ReadUint32 r) (\<lambda>(starttime, r).
     and_then (ReadUint32 r) (\<lambda>(endtime, r).
     and_then (ReadUint32 r) (\<lambda>(renew_till, r).
     and_then (get_flag r) (\<lambda>(is_skey, r).
     and_then (ReadUint32 r) (\<lambda>(flags, r).
     and_then (get_list r) (\<lambda>(addresses, r).
     and_then (get_list r) (\<lambda>(authdata, r).
     and_then (get_data r) (\<lambda>(ticket, r).
     and_then (get_data r) (\<lambda>(second_ticket, r).
       Inr (\<lparr>cr_client = Some (to_krb5 client), cr_server = Some (to_krb5 server),
             cr_enctype = ucast enctype, cr_key = key, cr_authtime = authtime,
             cr_starttime = starttime, cr_endtime = endtime, cr_renew_till = renew_till,
             cr_is_skey = is_skey, cr_ticket_flags = flags, cr_addresses = addresses,
             cr_authdata = authdata, cr_ticket = ticket, cr_second_ticket = second_ticket\<rparr>, r)))))))))))))))"

definition typed_encodable :: "typed_data \<Rightarrow> bool" where
  "typed_encodable es \<longleftrightarrow> length es < 2 ^ 32 \<and> list_all (\<lambda>(t, d). length d < 2 ^ 32) es"

definition cred_encodable :: "krb5_creds \<Rightarrow> bool" where
  "cred_encodable cr \<longleftrightarrow>
     cr_client cr \<noteq> None \<and> cr_server cr \<noteq> None \<and>
     principal_encodable (readPrincipal (cr_client cr)) \<and>
     principal_encodable (readPrincipal (cr_server cr)) \<and>
     typed_encodable (cr_addresses cr) \<and> typed_encodable (cr_authdata cr) \<and>
     length (put_cred cr) < 2 ^ 32"

lemma to_krb5_readPrincipal [simp]: "to_krb5 (readPrincipal (Some p)) = p"
  by (simp add: to_krb5_def readPrincipal_def)

lemma get_data_put: "length (put_data d @ r) < 2 ^ 32 \<Longrightarrow> get_data (put_data d @ r) = Inr (d, r)"
  by (simp add: get_data_def put_data_def cut_data_append)

lemma get_data_put_Nil: "length (put_data d) < 2 ^ 32 \<Longrightarrow> get_data (put_data d) = Inr (d, [])"
  using get_data_put [of d "[]"] by simp

lemma get_entries_put:
  "length (put_entries es @ r) < 2 ^ 32 \<Longrightarrow> get_entries (length es) (put_entries es @ r) = Inr (es, r)"
proof (induction es)
  case (Cons e es)
  obtain t d where e: "e = (t, d)" by (cases e)
  have "get_data (put_data d @ put_entries es @ r) = Inr (d, put_entries es @ r)"
    using Cons.prems by (intro get_data_put) (simp add: e)
  with Cons show ?case by (simp add: e)
qed simp

lemma get_list_put:
  assumes "typed_encodable es" "length (put_list es @ r) < 2 ^ 32"
  shows "get_list (put_list es @ r) = Inr (es, r)"
proof -
  have "unat (len32 es) = length es" using assms(1) by (simp add: typed_encodable_def)
  with get_entries_put [of es r] assms(2) show ?thesis by (simp add: get_list_def put_list_def)
qed

lemma get_flag_of_bool [simp]: "get_flag (of_bool b # r) = Inr (b, r)"
  by (simp add: get_flag_def)

lemma get_cred_put:
  assumes "cred_encodable cr"
  shows "get_cred (put_cred cr) = Inr (cr\<lparr>cr_enctype := ucast (ucast (cr_enctype cr) :: u16)\<rparr>, [])"
proof -
  obtain p q where pq: "cr_client cr = Some p" "cr_server cr = Some q"
    using assms by (auto simp: cred_encodable_def)
  have len: "length (put_cred cr) < 2 ^ 32" using assms by (simp add: cred_encodable_def)
  note enc = assms [unfolded cred_encodable_def pq]
  show ?thesis
    using len enc unfolding put_cred_def get_cred_def pq
    by (simp add: principal_codec.dec_enc get_data_put get_data_put_Nil get_list_put pq)
qed


section \<open>Caches, names and the KDC\<close>

record ref_cache =
  rc_owner :: "krb5_principal option"
  rc_creds :: "krb5_creds list"

text \<open>The caches by name (of the process and of the file system), the owners of files, the service
  tickets the KDC issues and the TGT it renews to.\<close>

record ref_world =
  rw_caches :: "string \<Rightarrow> ref_cache option"
  rw_uids :: "string \<Rightarrow> int option"
  rw_tickets :: "krb5_creds list"
  rw_renewed :: "krb5_creds option"

definition ref_cache :: "string \<Rightarrow> ref_world \<Rightarrow> ref_cache" where
  "ref_cache name w =
     (case rw_caches w name of None \<Rightarrow> \<lparr>rc_owner = None, rc_creds = []\<rparr> | Some c \<Rightarrow> c)"

definition ref_set :: "string \<Rightarrow> ref_cache \<Rightarrow> ref_world \<Rightarrow> ref_world" where
  "ref_set name c w = w\<lparr>rw_caches := (rw_caches w)(name := Some c)\<rparr>"

definition EINVAL :: i32 where "EINVAL = 22"
definition ENOENT :: i32 where "ENOENT = 2"
definition KDC_ERR :: i32 where "KDC_ERR = word_of_int (- 1765328377)"

definition ref_parse_name :: "string \<Rightarrow> i32 + krb5_principal" where
  "ref_parse_name s =
     (case name_of_text s of
        None \<Rightarrow> Inl EINVAL
      | Some (comps, realm) \<Rightarrow> Inr \<lparr>kp_type = 1, kp_realm = realm, kp_data = comps\<rparr>)"

definition ref_is_config :: "krb5_principal option \<Rightarrow> bool" where
  "ref_is_config p =
     (Realm (readPrincipal p) = ''X-CACHECONF:'' \<and>
      (case Components (readPrincipal p) of c # d # _ \<Rightarrow> c = ''krb5_ccache_conf_data'' | _ \<Rightarrow> False))"

definition ref_marshal :: "krb5_creds \<Rightarrow> i32 + byte list" where
  "ref_marshal cr = (if cred_encodable cr then Inr (put_cred cr) else Inl EINVAL)"

definition ref_unmarshal :: "byte list \<Rightarrow> i32 + krb5_creds" where
  "ref_unmarshal wire = (case get_cred wire of Inl _ \<Rightarrow> Inl EINVAL | Inr (cr, _) \<Rightarrow> Inr cr)"

definition ref_get_principal :: "string \<Rightarrow> ref_world \<Rightarrow> i32 + krb5_principal" where
  "ref_get_principal name w =
     (case rc_owner (ref_cache name w) of None \<Rightarrow> Inl ENOENT | Some p \<Rightarrow> Inr p)"

definition ref_store :: "string \<Rightarrow> krb5_creds \<Rightarrow> ref_world \<Rightarrow> i32 \<times> ref_world" where
  "ref_store name cr w =
     (0, ref_set name ((ref_cache name w)\<lparr>rc_creds := rc_creds (ref_cache name w) @ [cr]\<rparr>) w)"

definition ref_matches :: "i32 \<Rightarrow> krb5_creds \<Rightarrow> krb5_creds \<Rightarrow> bool" where
  "ref_matches flags m e \<longleftrightarrow>
     same_principal (cr_client m) (cr_client e) \<and> same_principal (cr_server m) (cr_server e) \<and>
     (flags = 8 \<longrightarrow> same_times m e)"

definition ref_remove :: "string \<Rightarrow> i32 \<Rightarrow> krb5_creds \<Rightarrow> ref_world \<Rightarrow> i32 \<times> ref_world" where
  "ref_remove name flags m w =
     (0, ref_set name
           ((ref_cache name w)\<lparr>rc_creds := filter (\<lambda>e. \<not> ref_matches flags m e) (rc_creds (ref_cache name w))\<rparr>) w)"

definition ref_initialize :: "string \<Rightarrow> krb5_principal option \<Rightarrow> ref_world \<Rightarrow> i32 \<times> ref_world" where
  "ref_initialize name p w = (0, ref_set name \<lparr>rc_owner = p, rc_creds = []\<rparr> w)"

definition ref_seq_get :: "string \<Rightarrow> ref_world \<Rightarrow> i32 + krb5_creds list \<times> i32 \<times> i32" where
  "ref_seq_get name w = Inr (rc_creds (ref_cache name w), CCEnd, 0)"

text \<open>A cached ticket is returned; otherwise, given a TGT in the cache, the KDC is asked and the
  answer cached.\<close>

definition ref_get_credentials ::
  "i32 \<Rightarrow> string \<Rightarrow> krb5_creds \<Rightarrow> ref_world \<Rightarrow> (i32 + krb5_creds) \<times> ref_world" where
  "ref_get_credentials options name m w =
     (case List.find (ref_matches 0 m) (rc_creds (ref_cache name w)) of
        Some cr \<Rightarrow> (Inr cr, w)
      | None \<Rightarrow>
          if list_ex local_tgt (rc_creds (ref_cache name w))
          then (case List.find (\<lambda>t. \<not> local_tgt t \<and> ref_matches 0 m t) (rw_tickets w) of
                  Some cr \<Rightarrow> (Inr cr, snd (ref_store name cr w))
                | None \<Rightarrow> (Inl KDC_ERR, w))
          else (Inl CCNotFound, w))"

definition ref_get_renewed ::
  "krb5_principal option \<Rightarrow> string \<Rightarrow> ref_world \<Rightarrow> (i32 + krb5_creds) \<times> ref_world" where
  "ref_get_renewed client name w =
     (case rw_renewed w of
        Some cr \<Rightarrow> (if local_tgt cr then Inr cr else Inl KDC_ERR, w)
      | None \<Rightarrow> (Inl KDC_ERR, w))"

definition ref_stat :: "string \<Rightarrow> ref_world \<Rightarrow> stat_result" where
  "ref_stat path w =
     (case rw_uids w path of
        None \<Rightarrow> Inl (PlainError ''no such file or directory'')
      | Some uid \<Rightarrow> Inr (Some uid))"

definition ref_lib :: "ref_world krb5_lib" where
  "ref_lib =
     \<lparr>krb5_init_context = (\<lambda>w. 0),
      krb5_get_error_message = (\<lambda>code. ''error '' @ fmt_int (sint code)),
      krb5_parse_name = ref_parse_name,
      krb5_is_config_principal = ref_is_config,
      krb5_marshal_credentials = ref_marshal,
      krb5_unmarshal_credentials = ref_unmarshal,
      krb5_cc_resolve = (\<lambda>name w. 0),
      krb5_cc_get_principal = ref_get_principal,
      krb5_cc_initialize = ref_initialize,
      krb5_cc_destroy = (\<lambda>name w. w\<lparr>rw_caches := (rw_caches w)(name := None)\<rparr>),
      krb5_cc_store_cred = ref_store,
      krb5_cc_remove_cred = ref_remove,
      krb5_cc_seq_get = ref_seq_get,
      krb5_get_credentials = ref_get_credentials,
      krb5_get_renewed_creds = ref_get_renewed,
      KRB5_TC_MATCH_TIMES_EXACT = 8,
      os_Stat = ref_stat\<rparr>"

definition ref_entries :: "ref_world \<Rightarrow> krb5_creds list" where
  "ref_entries w = rc_creds (ref_cache workingCacheName w)"

definition ref_owner :: "ref_world \<Rightarrow> krb5_principal option" where
  "ref_owner w = rc_owner (ref_cache workingCacheName w)"

lemmas ref_defs = ref_store_def ref_remove_def ref_initialize_def ref_seq_get_def ref_get_principal_def
  ref_get_renewed_def ref_entries_def ref_owner_def ref_set_def ref_cache_def

lemma cache_names_distinct [simp]: "workingCacheName \<noteq> renewCacheName" "renewCacheName \<noteq> workingCacheName"
  by (simp_all add: workingCacheName_def renewCacheName_def)

lemma ref_matches_cred_matches:
  "flags = 0 \<or> flags = 8 \<Longrightarrow> ref_matches flags m e = cred_matches ref_lib flags m e"
  by (auto simp: ref_matches_def cred_matches_def ref_lib_def)

lemma ref_get_credentials_effect:
  assumes "ref_get_credentials options workingCacheName m w = (r, w')"
  shows "ref_owner w' = ref_owner w \<and>
         (\<exists>new. ref_entries w' = ref_entries w @ new \<and> (\<forall>cr\<in>set new. \<not> local_tgt cr))"
proof (cases "w' = w")
  case False
  with assms obtain cr where "List.find (\<lambda>t. \<not> local_tgt t \<and> ref_matches 0 m t) (rw_tickets w) = Some cr"
    "w' = snd (ref_store workingCacheName cr w)"
    by (auto simp: ref_get_credentials_def split: option.splits if_splits)
  then show ?thesis by (auto simp: ref_defs find_Some_iff)
qed simp

interpretation ref: reliable_ccache ref_lib ref_entries ref_owner
proof (unfold_locales, goal_cases)
  case (4 flags m w code w')
  then show ?case
    by (auto simp: ref_matches_cred_matches) (auto simp: ref_lib_def ref_defs ref_matches_cred_matches)
next
  case (6 flags m w r w')
  then show ?case using ref_get_credentials_effect by (simp add: ref_lib_def)
next
  case (11 cr wire)
  then show ?case
    using get_cred_put [of cr]
    by (auto simp: ref_lib_def ref_marshal_def ref_unmarshal_def split: if_splits)
next
  case (12 p q)
  then show ?case by (simp add: ref_lib_def ref_is_config_def same_principal_def)
qed (auto simp: ref_lib_def ref_defs split: option.splits if_splits)

end
