(* ===== verification/Ref_Examples.thy ===== *)
theory Ref_Examples
  imports Ref_Krb5
begin

text \<open>
  Concrete instances of the theorems about the engine, on the reference library: a working cache
  with alice's TGT and two service tickets, and a source file with a newer TGT.
\<close>

definition ex_alice :: krb5_principal where
  "ex_alice = \<lparr>kp_type = 1, kp_realm = ''R'', kp_data = [''alice'']\<rparr>"

definition ex_cred :: "string list \<Rightarrow> i32 \<Rightarrow> i32 \<Rightarrow> krb5_creds" where
  "ex_cred server endtime flags =
     empty_creds\<lparr>cr_client := Some ex_alice,
       cr_server := Some \<lparr>kp_type = 2, kp_realm = ''R'', kp_data = server\<rparr>,
       cr_enctype := 18, cr_key := [1, 2, 3, 4], cr_authtime := 100, cr_endtime := endtime,
       cr_renew_till := 90000, cr_ticket_flags := flags, cr_ticket := [9, 9]\<rparr>"

definition ex_tgt :: "i32 \<Rightarrow> krb5_creds" where
  "ex_tgt endtime = ex_cred [''krbtgt'', ''R''] endtime 0x00800000"

definition ex_host :: "i32 \<Rightarrow> krb5_creds" where
  "ex_host endtime = ex_cred [''host'', ''h''] endtime 0"

lemmas ex_defs = ex_alice_def ex_cred_def ex_tgt_def ex_host_def empty_creds_def

lemma length_MarshalPrincipal: "length (MarshalPrincipal p) = 12 + length (Realm p) +
    sum_list (map (\<lambda>c. 4 + length c) (Components p))"
proof -
  have "length (put_components cs) = sum_list (map (\<lambda>c. 4 + length c) cs)" for cs
    by (induction cs) simp_all
  then show ?thesis by (simp add: MarshalPrincipal_def)
qed

lemma ex_marshal [simp]:
  "marshalCreds ref_lib (ex_tgt e) = Inr (put_cred (ex_tgt e))"
  "marshalCreds ref_lib (ex_host e) = Inr (put_cred (ex_host e))"
proof -
  have "cred_encodable (ex_tgt e)" "cred_encodable (ex_host e)"
    by (simp_all add: cred_encodable_def put_cred_def length_MarshalPrincipal put_list_def
        typed_encodable_def put_data_def principal_encodable_def readPrincipal_def ex_defs)
  then show "marshalCreds ref_lib (ex_tgt e) = Inr (put_cred (ex_tgt e))"
    "marshalCreds ref_lib (ex_host e) = Inr (put_cred (ex_host e))"
    by (simp_all add: marshalCreds_def ref_lib_def ref_marshal_def)
qed

lemma ex_local [simp]: "local_tgt (ex_tgt e)" "\<not> local_tgt (ex_host e)"
  "isTGTServer (readPrincipal (cr_server (ex_tgt e)))" "\<not> isTGTServer (readPrincipal (cr_server (ex_host e)))"
  by (simp_all add: local_tgt_def isLocalTGT_def isTGTServer_def readPrincipal_def ex_defs)

lemma ex_config [simp]:
  "\<not> krb5_is_config_principal ref_lib (cr_server (ex_tgt e))"
  "\<not> krb5_is_config_principal ref_lib (cr_server (ex_host e))"
  by (simp_all add: ref_lib_def ref_is_config_def readPrincipal_def ex_defs)

definition ex_world :: "krb5_creds list \<Rightarrow> krb5_creds list \<Rightarrow> ref_world" where
  "ex_world cache source =
     \<lparr>rw_caches = [workingCacheName \<mapsto> \<lparr>rc_owner = Some ex_alice, rc_creds = cache\<rparr>,
                   ''FILE:/tmp/cc'' \<mapsto> \<lparr>rc_owner = Some ex_alice, rc_creds = source\<rparr>],
      rw_uids = [''/tmp/cc'' \<mapsto> 1000], rw_tickets = [ex_host 40000], rw_renewed = Some (ex_tgt 80000)\<rparr>"

definition ex_info :: "i32 \<Rightarrow> tgtInfo" where
  "ex_info endtime =
     \<lparr>ti_wire = put_cred (ex_tgt endtime), ti_client = readPrincipal (Some ex_alice),
      ti_server = \<lparr>Type = 2, Realm = ''R'', Components = [''krbtgt'', ''R'']\<rparr>, ti_flags = 0x00800000,
      ti_authTime = krbTime 100, ti_startTime = krbTime 0, ti_endTime = krbTime endtime,
      ti_renewTill = krbTime 90000\<rparr>"

definition ex_client :: "(nat \<times> tgtInfo) option \<Rightarrow> client" where
  "ex_client held =
     \<lparr>cap_sem = 16, minLife = 300 * Second, srcPath = ''/tmp/cc'', ownerUID = 1000,
      lastFileCheck = zeroTime, tgt = held, renewRetryAt = zeroTime, renewBackoff = 0,
      renewing = False, idle = 1, next_tgt = 1\<rparr>"

lemma ex_tgtInfoFrom [simp]: "tgtInfoFrom ref_lib (ex_tgt e) = Inr (ex_info e)"
  by (simp add: tgtInfoFrom_def ex_info_def) (simp add: readPrincipal_def ex_defs)

lemma ex_names [simp]: "FILE_name ''/tmp/cc'' = ''FILE:/tmp/cc''" "''FILE:/tmp/cc'' \<noteq> workingCacheName"
  "workingCacheName \<noteq> ''FILE:/tmp/cc''"
  by (simp_all add: FILE_name_def CString_def workingCacheName_def)

lemma ex_entries [simp]: "ref_entries (ex_world cache source) = cache"
  by (simp add: ref_entries_def ref_cache_def ex_world_def)

lemma ex_endtime [simp]: "cr_endtime (ex_tgt e) = e" "cr_endtime (ex_host e) = e"
  by (simp_all add: ex_defs)

lemma ex_client_fields [simp]: "tgt (ex_client h) = h" "minLife (ex_client h) = 300 * Second"
  "idle (ex_client h) = 1" "srcPath (ex_client h) = ''/tmp/cc''" "renewing (ex_client h) = False"
  "next_tgt (ex_client h) = 1" "lastFileCheck (ex_client h) = zeroTime"
  by (simp_all add: ex_client_def)

text \<open>Two hours before the TGT ends, a ticket with four minutes left goes and one with an hour stays.\<close>

theorem sweep_exact_witness:
  "ref_entries (sweep ref_lib (GoTime (10000 * Second)) (ex_client (Some (0, ex_info 36000)))
       (ex_world [ex_tgt 36000, ex_host 10240, ex_host 13600] [])) = [ex_tgt 36000, ex_host 13600]"
  by (subst sweep_exact [OF ref.mem_ccache_axioms])
    (simp_all add: krbTime_def time_defs gotime_order ex_info_def)


lemma ref_lib_sel [simp]:
  "krb5_init_context ref_lib w = 0" "krb5_cc_resolve ref_lib name w = 0"
  "krb5_cc_get_principal ref_lib = ref_get_principal" "krb5_cc_initialize ref_lib = ref_initialize"
  "krb5_cc_store_cred ref_lib = ref_store" "krb5_cc_remove_cred ref_lib = ref_remove"
  "krb5_cc_seq_get ref_lib = ref_seq_get" "krb5_get_credentials ref_lib = ref_get_credentials"
  "krb5_get_renewed_creds ref_lib = ref_get_renewed" "krb5_parse_name ref_lib = ref_parse_name"
  "os_Stat ref_lib = ref_stat" "KRB5_TC_MATCH_TIMES_EXACT ref_lib = 8"
  by (simp_all add: ref_lib_def)

lemma ex_info_fields [simp]: "ti_endTime (ex_info e) = krbTime e" "ti_wire (ex_info e) = put_cred (ex_tgt e)"
  "ti_authTime (ex_info e) = krbTime 100" "ti_startTime (ex_info e) = krbTime 0"
  "ti_renewTill (ex_info e) = krbTime 90000" "ti_flags (ex_info e) = 0x00800000"
  by (simp_all add: ex_info_def)

lemma ref_stable_source: "src \<noteq> workingCacheName \<Longrightarrow> stable_source ref_lib src"
  by (simp add: stable_source_def ref_defs)

lemma ex_loadNewerTGT:
  "loadNewerTGT ref_lib (GoTime (35800 * Second)) (ex_client (Some (0, ex_info 36000)))
     (ex_world [ex_tgt 36000] [ex_tgt 50000])
   = (None, resetRenewBackoff (install_tgt (ex_info 50000)
        ((ex_client (Some (0, ex_info 36000)))\<lparr>lastFileCheck := GoTime (35800 * Second), tgt := None\<rparr>)),
      snd (ref_store workingCacheName (clear_renewable (ex_tgt 50000))
        (snd (ref_initialize workingCacheName (Some ex_alice) (ex_world [ex_tgt 36000] [ex_tgt 50000])))))"
proof -
  let ?w = "ex_world [ex_tgt 36000] [ex_tgt 50000]"
  obtain w1 where init: "ref_initialize workingCacheName (Some ex_alice) ?w = (0, w1)"
    by (simp add: ref_initialize_def)
  have seq: "ref_seq_get ''FILE:/tmp/cc'' ?w = Inr ([ex_tgt 50000], CCEnd, 0)"
    "ref_seq_get ''FILE:/tmp/cc'' w1 = Inr ([ex_tgt 50000], CCEnd, 0)"
    using init by (auto simp: ref_defs ex_world_def)
  have loc: "isLocalTGT (readPrincipal (cr_client (ex_tgt e))) (readPrincipal (cr_server (ex_tgt e)))" for e
    using ex_local(1) by (simp add: local_tgt_def)
  have peek: "peekTGT ref_lib ''FILE:/tmp/cc'' ?w = Inr (Some (ex_info 50000))"
    by (simp add: peekTGT_def seq loc newError_def)
  have load: "loadFrom ref_lib ''FILE:/tmp/cc'' now w1
      = (Inr (Some (ex_info 50000)), snd (ref_store workingCacheName (clear_renewable (ex_tgt 50000)) w1))" for now
    by (simp add: loadFrom_def seq loadOne_def loc newError_def storeTGT_def ref_store_def)
  have "owner_ok ref_lib (ex_client h) ?w" for h
    by (simp add: owner_ok_def ex_client_def fileOwner_def ref_stat_def ex_world_def)
  moreover have "ref_get_principal ''FILE:/tmp/cc'' ?w = Inr ex_alice"
    by (simp add: ref_defs ex_world_def)
  ultimately show ?thesis
    using load peek init
    by (simp add: loadNewerTGT_def adopt_file_def Let_def expired_def Sub_def fileCheckInterval_def
        krbTime_def time_defs gotime_order)
qed


lemma ex_unmarshal: "\<exists>e'. unmarshalCreds ref_lib (put_cred (ex_tgt e)) = Inr ((ex_tgt e)\<lparr>cr_enctype := e'\<rparr>)"
  using ref.unmarshalCreds_marshalCreds [OF ex_marshal(1)] by blast

lemma ex_held: "tgt_in_cache ref_lib ref_entries (ex_client (Some (0, ex_info e)))
    (ex_world (clear_renewable (ex_tgt e) # creds) source)"
  by (simp add: tgt_in_cache_def copy_in_cacheI [OF ex_tgtInfoFrom ex_local(1)])

lemma ex_renewTGT:
  "tgt (fst (snd (renewTGT ref_lib (GoTime (20000 * Second)) (ex_client (Some (0, ex_info 36000)))
     (ex_world [clear_renewable (ex_tgt 36000)] [])))) = Some (1, ex_info 80000)"
proof -
  let ?c = "ex_client (Some (0, ex_info 36000))"
  let ?w = "ex_world [clear_renewable (ex_tgt 36000)] []"
  obtain e where u: "unmarshalCreds ref_lib (put_cred (ex_tgt 36000)) = Inr ((ex_tgt 36000)\<lparr>cr_enctype := e\<rparr>)"
    using ex_unmarshal by blast
  have "\<exists>w1. renewExchange ref_lib (ti_wire (ex_info 36000)) ?w = (Inr (ex_info 80000), w1)"
    by (simp add: renewExchange_def u ref_defs ex_world_def)
  then obtain w1 where w1: "renewExchange ref_lib (ti_wire (ex_info 36000)) ?w = (Inr (ex_info 80000), w1)" ..
  obtain err c' w' where r: "renewTGT ref_lib (GoTime (20000 * Second)) ?c ?w = (err, c', w')"
    using prod_cases3 by blast
  have "tgt_in_cache ref_lib ref_entries ?c w1"
    using ref.renewExchange_effect(2) [OF w1] tgt_in_cache_entries [OF ex_held] by metis
  from ref.setTGT_ok [OF ex_tgtInfoFrom [of 80000] ex_local(1) this] have "err = None"
    using r w1 by (auto simp: renewTGT_def renew_start_def renew_finish_def ex_client_def)
  with renewTGT_outcome [OF _ _ w1 r] r show ?thesis by simp
qed


section \<open>Operations\<close>

lemma marshalCreds_ref: "cred_encodable cr \<Longrightarrow> marshalCreds ref_lib cr = Inr (put_cred cr)"
  by (simp add: marshalCreds_def ref_lib_def ref_marshal_def)

lemma ex_encodable:
  fixes e f :: i32
  assumes "length k \<le> 4"
  shows "cred_encodable ((ex_tgt e)\<lparr>cr_key := k, cr_ticket_flags := f\<rparr>)"
  using assms
  by (simp add: cred_encodable_def put_cred_def length_MarshalPrincipal put_list_def
      typed_encodable_def put_data_def principal_encodable_def readPrincipal_def ex_defs)

lemma ex_listed_wire:
  "marshalTGTForListing ref_lib (ex_client (Some (0, ex_info e))) ((ex_tgt e)\<lparr>cr_key := k\<rparr>)
     = Inr (put_cred ((ex_tgt e)\<lparr>cr_key := []\<rparr>))"
proof -
  have "(ex_tgt e)\<lparr>cr_key := [], cr_ticket_flags := 0x00800000\<rparr> = (ex_tgt e)\<lparr>cr_key := []\<rparr>"
    by (simp add: ex_defs)
  moreover have "local_tgt ((ex_tgt e)\<lparr>cr_key := []\<rparr>)"
    using ex_local(1) by (simp add: local_tgt_def)
  ultimately show ?thesis
    using marshalCreds_ref [OF ex_encodable [where k = "[]" and e = e and f = "0x00800000"]]
    by (simp add: marshalTGTForListing_def)
qed

lemma ex_list_entries:
  assumes "length k \<le> 4"
  shows "list_entries ref_lib (ex_client (Some (0, ex_info 36000)))
     (ex_world [(ex_tgt 36000)\<lparr>cr_key := k\<rparr>, ex_host 40000] [])
   = Inr [\<lparr>e_UUID = uuidOf (put_cred ((ex_tgt 36000)\<lparr>cr_key := k\<rparr>)),
           e_Server = readPrincipal (cr_server (ex_tgt 36000)), e_Wire = put_cred ((ex_tgt 36000)\<lparr>cr_key := []\<rparr>)\<rparr>,
          \<lparr>e_UUID = uuidOf (put_cred (ex_host 40000)),
           e_Server = readPrincipal (cr_server (ex_host 40000)), e_Wire = put_cred (ex_host 40000)\<rparr>]"
proof -
  have "marshalCreds ref_lib ((ex_tgt 36000)\<lparr>cr_key := k\<rparr>) = Inr (put_cred ((ex_tgt 36000)\<lparr>cr_key := k\<rparr>))"
    using marshalCreds_ref [OF ex_encodable [where e = 36000 and f = "cr_ticket_flags (ex_tgt 36000)", OF assms]] by simp
  then show ?thesis
    by (simp add: list_entries_def forEachEntry_def ref.seq_get [simplified] list_visitor_apply
        listed_wire_def ex_listed_wire newError_def)
qed

lemma ex_find_entry:
  "find_entry ref_lib (uuidOf (put_cred ((ex_tgt 36000)\<lparr>cr_key := [5]\<rparr>))) (ex_client (Some (0, ex_info 36000)))
     (ex_world [(ex_tgt 36000)\<lparr>cr_key := [5]\<rparr>, ex_host 40000] [])
   = Inr (Some \<lparr>e_UUID = uuidOf (put_cred ((ex_tgt 36000)\<lparr>cr_key := [5]\<rparr>)),
           e_Server = readPrincipal (cr_server (ex_tgt 36000)), e_Wire = put_cred ((ex_tgt 36000)\<lparr>cr_key := []\<rparr>)\<rparr>)"
  using find_entry_agrees_with_listing [OF ex_list_entries, of "[5]"] by simp


text \<open>A ticket for \<^verbatim>\<open>host/h@R\<close> is fetched from the KDC.\<close>

definition ex_mc :: match_credential where
  "ex_mc = empty_mc\<lparr>HasServer := True, Server := \<lparr>Type = 1, Realm = ''R'', Components = [''host'', ''h'']\<rparr>\<rparr>"

lemma ex_world_sel [simp]: "rc_creds (ref_cache workingCacheName (ex_world cache source)) = cache"
  "rw_tickets (ex_world cache source) = [ex_host 40000]"
  by (simp_all add: ref_cache_def ex_world_def)

lemma ex_template:
  "buildMatchTemplate ref_lib ex_mc (ex_world cache source)
     = Inr (empty_creds\<lparr>cr_client := Some ex_alice,
              cr_server := Some \<lparr>kp_type = 1, kp_realm = ''R'', kp_data = [''host'', ''h'']\<rparr>\<rparr>)"
proof -
  have "buildPrincipal ref_lib (Server ex_mc) = Inr \<lparr>kp_type = 1, kp_realm = ''R'', kp_data = [''host'', ''h'']\<rparr>"
    using name_of_text_UnparseName [of "Server ex_mc"]
    by (simp add: buildPrincipal_def parseName_def ref_parse_name_def ex_mc_def)
  then show ?thesis
    by (simp add: buildMatchTemplate_def template_client_def ref_defs ex_world_def)
      (simp add: ex_mc_def empty_mc_def)
qed

lemma ex_Retrieve:
  "\<exists>c' w'. Retrieve ref_lib (GoTime (10000 * Second)) ex_mc (ex_client (Some (0, ex_info 36000)))
       (ex_world [clear_renewable (ex_tgt 36000)] []) = (Inr (put_cred (ex_host 40000)), c', w')"
proof -
  let ?now = "GoTime (10000 * Second)"
  let ?c = "ex_client (Some (0, ex_info 36000))"
  let ?w = "ex_world [clear_renewable (ex_tgt 36000)] []"
  have pol: "renewDue (ex_info 36000) ?now = False" "remaining (ex_info 36000) ?now = 26000 * Second"
    "expired (ex_info 36000) ?now = False"
    by (simp_all add: renewDue_def canRenew_def renewPoint_def expired_def remaining_def half_def Sub_def Let_def
        krbTime_def time_defs gotime_order)
  have sweep: "sweep ref_lib ?now (?c\<lparr>idle := i\<rparr>) ?w = ?w" for i
    by (simp add: sweep_def ref.seq_get [simplified] stale_def local_tgt_def [symmetric])
  have m: "maintain ref_lib ?now (?c\<lparr>idle := i\<rparr>) ?w = (None, ?c\<lparr>idle := i\<rparr>, ?w)" for i
    using sweep [of i]
    by (simp add: maintain_def reload_due_def tgtNeedsAttention_def renewWanted_def pol) (simp add: time_defs)
  let ?m = "empty_creds\<lparr>cr_client := Some ex_alice,
              cr_server := Some \<lparr>kp_type = 1, kp_realm = ''R'', kp_data = [''host'', ''h'']\<rparr>\<rparr>"
  have "\<not> ref_matches 0 ?m (clear_renewable (ex_tgt 36000))" "ref_matches 0 ?m (ex_host 40000)"
    "\<not> krb5_is_config_principal ref_lib (cr_server ?m)"
    by (simp_all add: ref_matches_def same_principal_def readPrincipal_def ref_lib_def ref_is_config_def ex_defs)
  then have g: "\<exists>w'. getCredentials ref_lib ex_mc ?w = (Inr (put_cred (ex_host 40000)), w')"
    by (simp add: getCredentials_def ex_template ref_get_credentials_def ref_store_def)
  have "\<not> isTGTServer (Server ex_mc)" by (simp add: ex_mc_def isTGTServer_def)
  then show ?thesis
    using g m by (auto simp: Retrieve_def with_context_def maintained_def acquire_def tgtError_def pol)
qed

theorem Retrieve_success_witness:
  "\<exists>c' w'. Retrieve ref_lib (GoTime (10000 * Second)) ex_mc (ex_client (Some (0, ex_info 36000)))
       (ex_world [clear_renewable (ex_tgt 36000)] []) = (Inr (put_cred (ex_host 40000)), c', w') \<and>
     (\<exists>a t. tgt c' = Some (a, t) \<and> GoTime (10000 * Second) < ti_endTime t)"
proof -
  obtain c' w' where r: "Retrieve ref_lib (GoTime (10000 * Second)) ex_mc
      (ex_client (Some (0, ex_info 36000))) (ex_world [clear_renewable (ex_tgt 36000)] [])
      = (Inr (put_cred (ex_host 40000)), c', w')"
    using ex_Retrieve by blast
  with Retrieve_success [OF r] show ?thesis by blast
qed

lemma ex_bob:
  "buildPrincipal ref_lib \<lparr>Type = 1, Realm = ''R'', Components = [''bob'']\<rparr>
     = Inr \<lparr>kp_type = 1, kp_realm = ''R'', kp_data = [''bob'']\<rparr>"
  using name_of_text_UnparseName [of "\<lparr>Type = 1, Realm = ''R'', Components = [''bob'']\<rparr>"]
  by (simp add: buildPrincipal_def parseName_def ref_parse_name_def)

lemma ex_default_principal: "defaultPrincipal ref_lib (ex_world cache source) = Inr (readPrincipal (Some ex_alice))"
  by (simp add: defaultPrincipal_def ref_defs ex_world_def)

lemma unmarshal_put: "cred_encodable cr \<Longrightarrow> unmarshalCreds ref_lib (put_cred cr)
    = Inr (cr\<lparr>cr_enctype := ucast (ucast (cr_enctype cr) :: u16)\<rparr>)"
  by (simp add: unmarshalCreds_def ref_lib_def ref_unmarshal_def get_cred_put)

lemma ex_unmarshal_tgt: "unmarshalCreds ref_lib (put_cred (ex_tgt e)) = Inr (ex_tgt e)"
proof -
  have "(ex_tgt e)\<lparr>cr_key := cr_key (ex_tgt e), cr_ticket_flags := cr_ticket_flags (ex_tgt e)\<rparr> = ex_tgt e"
    by simp
  then have "cred_encodable (ex_tgt e)"
    using ex_encodable [where k = "cr_key (ex_tgt e)" and e = e and f = "cr_ticket_flags (ex_tgt e)"]
    by (simp add: ex_defs)
  from unmarshal_put [OF this] show ?thesis by (simp add: ex_defs)
qed

theorem Store_adopts_TGT_witness:
  "\<exists>c' w'. Store ref_lib (put_cred (ex_tgt 50000)) (ex_client (Some (0, ex_info 36000)))
       (ex_world [clear_renewable (ex_tgt 36000), ex_host 40000] []) = (Inr (), c', w') \<and>
     tgt c' = Some (1, ex_info 50000) \<and> copy_in_cache ref_lib (ref_entries w') (ex_info 50000)"
proof -
  have "UnparseName (readPrincipal (Some ex_alice)) = UnparseName (readPrincipal (cr_client (ex_tgt 50000)))"
    by (simp add: ex_defs)
  from Store_adopts_TGT [OF ref.reliable_ccache_axioms ex_held _ ex_unmarshal_tgt ex_local(1)
      ex_tgtInfoFrom ex_default_principal this] show ?thesis by fastforce
qed

lemma ex_RemoveByUUID:
  "\<exists>c' w'. RemoveByUUID ref_lib (uuidOf (put_cred (ex_tgt 36000))) (ex_client (Some (0, ex_info 36000)))
       (ex_world [ex_tgt 36000, ex_host 40000] []) = (Inr True, c', w')"
  by (simp add: RemoveByUUID_def with_context_def acquire_def remove_by_uuid_def forEachEntry_def
      ref.seq_get [simplified] wire_visitor_def newError_def ex_unmarshal_tgt ref_remove_def)



section \<open>A file that changes between the two reads\<close>

text \<open>The reference library beside another process that empties the source file while
  \<^verbatim>\<open>loadNewerTGT\<close> re-initialises the working cache.\<close>

definition racing_lib :: "ref_world krb5_lib" where
  "racing_lib = ref_lib\<lparr>krb5_cc_initialize := (\<lambda>name p w.
     (0, ref_set ''FILE:/tmp/cc'' \<lparr>rc_owner = Some ex_alice, rc_creds = []\<rparr> (snd (ref_initialize name p w))))\<rparr>"

text \<open>C38: the reload is not safe against a concurrent change of the source file. If the file's TGT
  disappears between the scan that decided to adopt it and the load, the load succeeds without a TGT
  and the log call that follows dereferences a nil pointer: the daemon panics.\<close>

theorem loadNewerTGT_race_panics:
  "\<exists>c' w'. loadNewerTGT racing_lib (GoTime (35800 * Second)) (ex_client None)
       (ex_world [] [ex_tgt 50000])
     = (Some (GoPanic ''invalid memory address or nil pointer dereference''), c', w')"
proof -
  let ?w = "ex_world [] [ex_tgt 50000]"
  have sel: "krb5_cc_seq_get racing_lib = ref_seq_get" "krb5_cc_resolve racing_lib n w = 0"
    "krb5_cc_get_principal racing_lib = ref_get_principal" "os_Stat racing_lib = ref_stat"
    "krb5_is_config_principal racing_lib = krb5_is_config_principal ref_lib" for n w
    by (simp_all add: racing_lib_def ref_lib_def)
  have info: "tgtInfoFrom racing_lib (ex_tgt 50000) = Inr (ex_info 50000)"
    using ex_tgtInfoFrom [of 50000]
    by (simp add: racing_lib_def tgtInfoFrom_def marshalCreds_def krbErr_def split: sum.splits)
  have loc: "isLocalTGT (readPrincipal (cr_client (ex_tgt e))) (readPrincipal (cr_server (ex_tgt e)))" for e
    using ex_local(1) by (simp add: local_tgt_def)
  have "peekTGT racing_lib ''FILE:/tmp/cc'' ?w = Inr (Some (ex_info 50000))"
    by (simp add: peekTGT_def sel ref_seq_get_def ref_cache_def ex_world_def loc info newError_def)
  moreover have "owner_ok racing_lib (ex_client h) ?w" for h
    by (simp add: owner_ok_def ex_client_def fileOwner_def sel ref_stat_def ex_world_def)
  moreover have "ref_get_principal ''FILE:/tmp/cc'' ?w = Inr ex_alice"
    by (simp add: ref_defs ex_world_def)
  moreover have "loadFrom racing_lib ''FILE:/tmp/cc'' now
      (snd (krb5_cc_initialize racing_lib workingCacheName (Some ex_alice) ?w)) = (Inr None, w'')"
    if "w'' = snd (krb5_cc_initialize racing_lib workingCacheName (Some ex_alice) ?w)" for now w''
    using that by (simp add: loadFrom_def sel ref_defs newError_def) (simp add: racing_lib_def ref_defs newError_def)
  moreover have "fst (krb5_cc_initialize racing_lib workingCacheName (Some ex_alice) ?w) = 0"
    by (simp add: racing_lib_def)
  ultimately show ?thesis
    by (cases "krb5_cc_initialize racing_lib workingCacheName (Some ex_alice) ?w")
      (simp add: loadNewerTGT_def adopt_file_def Let_def expired_def Sub_def fileCheckInterval_def
        krbTime_def time_defs gotime_order sel)
qed

end
