(* ===== verification/Renewal.thy ===== *)
theory Renewal
  imports Transitions Ops
begin

text \<open>
  Renewals beside everything else. \<^verbatim>\<open>renewTGT\<close> (\<^verbatim>\<open>internal/krb5c/tgt.go\<close>) holds the mutex only at its start
  and at its end; while the KDC is asked, other goroutines reload the source file, STORE, INITIALIZE or
  start renewals of their own. A step of the relation is one critical section of the write lock, one
  exchange with the KDC, or a change of the library's state by calls that need no write lock.
\<close>

datatype renewal =
    Asking "nat \<times> tgtInfo"
  | Answered "nat \<times> tgtInfo" "goerror + tgtInfo"

fun renewal_of :: "renewal \<Rightarrow> nat \<times> tgtInfo" where
  "renewal_of (Asking started) = started"
| "renewal_of (Answered started _) = started"

record 'w shared =
  sh_client :: client
  sh_lib :: 'w
  sh_renewals :: "renewal list" \<comment> \<open>calls of \<^verbatim>\<open>renewTGT\<close> between their critical sections\<close>

definition opened_shared :: "client \<Rightarrow> 'w \<Rightarrow> 'w shared" where
  "opened_shared c w = \<lparr>sh_client = c, sh_lib = w, sh_renewals = []\<rparr>"

inductive shared_step :: "'w krb5_lib \<Rightarrow> 'w shared \<Rightarrow> 'w shared \<Rightarrow> bool" for L :: "'w krb5_lib" where
  start: "renew_start (sh_client s) = (Inr started, c) \<Longrightarrow>
    shared_step L s (s\<lparr>sh_client := c, sh_renewals := sh_renewals s @ [Asking started]\<rparr>)"
| answer: "sh_renewals s = xs @ Asking started # ys \<Longrightarrow>
    renewExchange L (ti_wire (snd started)) (sh_lib s) = (res, w) \<Longrightarrow>
    shared_step L s (s\<lparr>sh_lib := w, sh_renewals := xs @ Answered started res # ys\<rparr>)"
| finish: "sh_renewals s = xs @ Answered started res # ys \<Longrightarrow>
    renew_finish L started now res (sh_client s) (sh_lib s) = (err, c, w) \<Longrightarrow>
    shared_step L s \<lparr>sh_client = c, sh_lib = w, sh_renewals = xs @ ys\<rparr>"
| reload: "reload_section L now (sh_client s) (sh_lib s) = (p, c, w) \<Longrightarrow>
    shared_step L s (s\<lparr>sh_client := c, sh_lib := w\<rparr>)"
| store: "store_creds L wire (sh_client s) (sh_lib s) = (r, c, w) \<Longrightarrow>
    shared_step L s (s\<lparr>sh_client := c, sh_lib := w\<rparr>)"
| initialize: "initialize_cache L p (sh_client s) (sh_lib s) = (r, c, w) \<Longrightarrow>
    shared_step L s (s\<lparr>sh_client := c, sh_lib := w\<rparr>)"
| library: "shared_step L s (s\<lparr>sh_lib := w\<rparr>)"

section \<open>What a critical section does to the held TGT\<close>

text \<open>It keeps the TGT, drops it, or installs one at a new address; it does not touch \<^verbatim>\<open>renewing\<close>.\<close>

definition tgt_moves :: "client \<Rightarrow> client \<Rightarrow> bool" where
  "tgt_moves c c' \<longleftrightarrow> renewing c' = renewing c \<and>
     (next_tgt c' = next_tgt c \<and> (tgt c' = tgt c \<or> tgt c' = None) \<or>
      next_tgt c' = Suc (next_tgt c) \<and> (\<exists>info. tgt c' = Some (next_tgt c, info)))"

lemmas tgt_moves_defs = tgt_moves_def install_tgt_def resetRenewBackoff_def

lemma tgt_moves_refl [simp]: "tgt_moves c c"
  by (simp add: tgt_moves_def)

lemma tgt_moves_lastFileCheck [simp]:
  "tgt_moves (c\<lparr>lastFileCheck := t\<rparr>) c' = tgt_moves c c'" "tgt_moves c (c'\<lparr>lastFileCheck := t\<rparr>) = tgt_moves c c'"
  by (simp_all add: tgt_moves_def)

lemma setTGT_moves: "setTGT L info c w = (err, c', w') \<Longrightarrow> tgt_moves c c'"
  by (auto simp: setTGT_def tgt_moves_defs split: op_splits)

lemma adopt_file_moves: "adopt_file L src princ now c w = (err, c', w') \<Longrightarrow> tgt_moves c c'"
  by (auto simp: adopt_file_def tgt_moves_defs Let_def split: op_splits)

lemma loadNewerTGT_moves: "loadNewerTGT L now c w = (err, c', w') \<Longrightarrow> tgt_moves c c'"
  by (auto simp: loadNewerTGT_def Let_def split: op_splits dest: adopt_file_moves)

lemma reload_section_moves: "reload_section L now c w = (err, c', w') \<Longrightarrow> tgt_moves c c'"
  by (auto simp: reload_section_def split: if_splits dest: loadNewerTGT_moves)

lemma store_creds_moves: "store_creds L wire c w = (r, c', w') \<Longrightarrow> tgt_moves c c'"
  by (auto simp: store_creds_def adopt_stored_def store_plain_def Let_def split: op_splits dest: setTGT_moves)

lemma initialize_cache_moves: "initialize_cache L p c w = (r, c', w') \<Longrightarrow> tgt_moves c c'"
  by (auto simp: initialize_cache_def tgt_moves_defs split: op_splits)

section \<open>The invariant\<close>

text \<open>Addresses are handed out in order, so an address says which TGT is held.\<close>

definition tgt_fresh :: "client \<Rightarrow> bool" where
  "tgt_fresh c \<longleftrightarrow> (\<forall>x. tgt c = Some x \<longrightarrow> fst x < next_tgt c)"

definition addr_ok :: "client \<Rightarrow> nat \<times> tgtInfo \<Rightarrow> bool" where
  "addr_ok c started \<longleftrightarrow> fst started < next_tgt c \<and> (\<forall>x. tgt c = Some x \<longrightarrow> fst x = fst started \<longrightarrow> x = started)"

definition shared_inv :: "'w shared \<Rightarrow> bool" where
  "shared_inv s \<longleftrightarrow> tgt_fresh (sh_client s) \<and>
     (case sh_renewals s of
        [] \<Rightarrow> \<not> renewing (sh_client s)
      | [r] \<Rightarrow> renewing (sh_client s) \<and> addr_ok (sh_client s) (renewal_of r)
      | _ \<Rightarrow> False)"

lemma moves_keep:
  assumes "tgt_moves c c'"
  shows "tgt_fresh c \<Longrightarrow> tgt_fresh c'" "addr_ok c started \<Longrightarrow> addr_ok c' started"
  using assms by (auto simp: tgt_moves_def tgt_fresh_def addr_ok_def)

lemma shared_inv_moves:
  assumes "shared_inv s" "tgt_moves (sh_client s) c"
  shows "shared_inv (s\<lparr>sh_client := c, sh_lib := w\<rparr>)"
  using assms moves_keep [OF assms(2)] by (auto simp: shared_inv_def tgt_moves_def split: list.splits)

lemma renew_finish_tgt:
  assumes "renew_finish L started now res c w = (err, c', w')"
  shows "\<not> renewing c'"
    "map_option fst (tgt c) \<noteq> Some (fst started) \<Longrightarrow> c' = c\<lparr>renewing := False\<rparr> \<and> err = None \<and> w' = w"
    "tgt_moves (c\<lparr>renewing := False\<rparr>) c'"
    "tgt c' \<noteq> tgt c \<Longrightarrow> \<exists>info. res = Inr info \<and> tgt c' = Some (next_tgt c, info)"
proof -
  have fail: "tgt_moves d c' \<Longrightarrow> tgt_moves d (noteRenewFailure now c')" for d c'
    by (simp add: noteRenewFailure_def tgt_moves_def Let_def)
  have set: "tgt d = tgt c'' \<or> err = None \<and> tgt c'' = Some (next_tgt d, info)"
    if "setTGT L info d w = (err, c'', w'')" for info d err c'' w''
    using that by (auto simp: setTGT_def install_tgt_def resetRenewBackoff_def split: op_splits)
  show moves: "tgt_moves (c\<lparr>renewing := False\<rparr>) c'"
    using assms by (auto simp: renew_finish_def Let_def fail split: op_splits dest: setTGT_moves)
  then show "\<not> renewing c'" by (simp add: tgt_moves_def)
  show "c' = c\<lparr>renewing := False\<rparr> \<and> err = None \<and> w' = w" if "map_option fst (tgt c) \<noteq> Some (fst started)"
    using assms that by (simp add: renew_finish_def Let_def)
  show "\<exists>info. res = Inr info \<and> tgt c' = Some (next_tgt c, info)" if "tgt c' \<noteq> tgt c"
    using assms that
    by (auto simp: renew_finish_def Let_def noteRenewFailure_def split: op_splits dest!: set)
qed

lemma shared_step_inv:
  assumes "shared_inv s" "shared_step L s s'"
  shows "shared_inv s'"
  using assms(2)
proof cases
  case (start started c)
  then show ?thesis
    using assms(1) by (cases started)
      (auto simp: shared_inv_def renew_start_def addr_ok_def tgt_fresh_def split: op_splits list.splits)
next
  case (answer xs started ys res w)
  then show ?thesis
    using assms(1) by (cases xs; cases ys) (auto simp: shared_inv_def split: list.splits)
next
  case (finish xs started res ys now err c w)
  then have "xs = []" "ys = []"
    using assms(1) by (cases xs; cases ys; auto simp: shared_inv_def split: list.splits)+
  moreover have "tgt_fresh c"
    using moves_keep(1) [OF renew_finish_tgt(3) [OF finish(3)]] assms(1) by (simp add: shared_inv_def tgt_fresh_def)
  ultimately show ?thesis
    using renew_finish_tgt(1) [OF finish(3)] finish(1) by (simp add: shared_inv_def)
next
  case (library w)
  then show ?thesis using assms(1) by (simp add: shared_inv_def split: list.splits)
qed (simp_all add: shared_inv_moves [OF assms(1)] reload_section_moves store_creds_moves initialize_cache_moves)

lemma Open_inv: "Open L path opts now w = (Inr c, w') \<Longrightarrow> shared_inv (opened_shared c w')"
  by (auto simp: Open_def Let_def new_client_def install_tgt_def shared_inv_def opened_shared_def tgt_fresh_def
      split: op_splits)

interpretation renewals: invariant_system
  "\<lambda>s. \<exists>path opts now w0 c w. Open L path opts now w0 = (Inr c, w) \<and> s = opened_shared c w" "shared_step L" shared_inv
  for L :: "'w krb5_lib"
  by unfold_locales (auto intro: Open_inv shared_step_inv)

text \<open>C13: However renewals interleave with reloads of the source file, STORE and INITIALIZE requests and other
  renewals: at most one renewal is under way at a time; one that ends after the TGT was replaced or dropped
  changes neither the held TGT nor the cache and reports no error, so that it never brings back an old
  identity; and one that changes the TGT installs exactly what the KDC answered, in place of the very TGT it
  started from.\<close>

theorem renewals_exclusive:
  assumes "Open L path opts now0 w0 = (Inr c0, w1)" "(shared_step L)\<^sup>*\<^sup>* (opened_shared c0 w1) s"
  shows "length (sh_renewals s) \<le> 1 \<and>
    (\<forall>started res now err c w. sh_renewals s = [Answered started res] \<longrightarrow>
       renew_finish L started now res (sh_client s) (sh_lib s) = (err, c, w) \<longrightarrow>
       \<not> renewing c \<and>
       (tgt (sh_client s) \<noteq> Some started \<longrightarrow> err = None \<and> tgt c = tgt (sh_client s) \<and> w = sh_lib s) \<and>
       (tgt c \<noteq> tgt (sh_client s) \<longrightarrow>
          tgt (sh_client s) = Some started \<and> (\<exists>info. res = Inr info \<and> map_option snd (tgt c) = Some info)))"
proof (intro conjI allI impI)
  have inv: "shared_inv s" by (rule renewals.reachable_inv [OF _ assms(2)]) (use assms(1) in blast)
  then show "length (sh_renewals s) \<le> 1" by (auto simp: shared_inv_def split: list.splits)
  fix started res now err c w
  assume a: "sh_renewals s = [Answered started res]"
    and f: "renew_finish L started now res (sh_client s) (sh_lib s) = (err, c, w)"
  show "\<not> renewing c" by (rule renew_finish_tgt(1) [OF f])
  have same: "tgt (sh_client s) = Some started" if "map_option fst (tgt (sh_client s)) = Some (fst started)"
    using inv a that by (auto simp: shared_inv_def addr_ok_def)
  note dropped = renew_finish_tgt(2) [OF f]
  show "err = None" "tgt c = tgt (sh_client s)" "w = sh_lib s" if "tgt (sh_client s) \<noteq> Some started"
    using that same dropped by fastforce+
  show "tgt (sh_client s) = Some started" if "tgt c \<noteq> tgt (sh_client s)"
    using that same dropped by fastforce
  show "\<exists>info. res = Inr info \<and> map_option snd (tgt c) = Some info" if "tgt c \<noteq> tgt (sh_client s)"
    using renew_finish_tgt(4) [OF f that] by auto
qed

end
