(* ===== verification/Replies.thy ===== *)
theory Replies
  imports Server
begin

text \<open>
  The types of replies. The protocol gives every opcode a type of payload; here each type is stated with the
  decoder a client reads it with, and the server is shown to send no payload of another type, to any request
  and with any library. Credentials have two types: what a listing or a lookup by UUID sends is an encoding
  that holds no session key if it is that of a ticket-granting ticket; what RETRIEVE sends is an encoding
  of the credential the library gave.
\<close>

datatype payload_type =
    No_payload
  | Cache_name
  | UUID_list
  | Principal_name
  | Listed_credential
  | Listed_credentials
  | Retrieved_credential
  | Clock_offset

definition reply_type :: "opcode \<Rightarrow> payload_type" where
  "reply_type op =
     (if op = OpGenNew \<or> op = OpGetDefaultCache \<or> op = OpGetCacheByUUID then Cache_name
      else if op = OpGetCacheUUIDList \<or> op = OpGetCredUUIDList then UUID_list
      else if op = OpGetPrincipal then Principal_name
      else if op = OpGetCredByUUID then Listed_credential
      else if op = OpGetCredList then Listed_credentials
      else if op = OpRetrieve then Retrieved_credential
      else if op = OpGetKDCOffset then Clock_offset
      else No_payload)"

fun has_type :: "(byte list \<Rightarrow> bool) \<Rightarrow> (byte list \<Rightarrow> bool) \<Rightarrow> payload_type \<Rightarrow> byte list \<Rightarrow> bool" where
  "has_type listed retrieved No_payload b \<longleftrightarrow> b = []"
| "has_type listed retrieved Cache_name b \<longleftrightarrow> (\<exists>name. SplitCName b = Inr (name, []))"
| "has_type listed retrieved UUID_list b \<longleftrightarrow> (\<exists>us. ReadUUIDList b = Inr us)"
| "has_type listed retrieved Principal_name b \<longleftrightarrow> (\<exists>p. b = MarshalPrincipal p)"
| "has_type listed retrieved Listed_credential b \<longleftrightarrow> listed b"
| "has_type listed retrieved Listed_credentials b \<longleftrightarrow>
     (\<exists>ws. list_all listed ws \<and> b = PutUint32 (len32 ws) @ concat (map put_data ws))"
| "has_type listed retrieved Retrieved_credential b \<longleftrightarrow> retrieved b"
| "has_type listed retrieved Clock_offset b \<longleftrightarrow> (\<exists>v. ReadUint32 b = Inr (v, []))"

text \<open>The opcode of a request.\<close>

definition request_op :: "byte list \<Rightarrow> opcode" where
  "request_op body = BigEndian_Uint16 (take 2 (drop 2 body))"

text \<open>What the server relies on of its engine, for its replies to be typed.\<close>

locale typed_engine =
  fixes E :: "'s engine" and listed retrieved :: "byte list \<Rightarrow> bool"
  assumes ListEntries_typed: "eng_ListEntries E now st = (Inr es, st') \<Longrightarrow>
      list_all (\<lambda>e. is_uuid (e_UUID e) \<and> listed (e_Wire e)) es"
    and EntryByUUID_typed: "eng_EntryByUUID E now u st = (Inr (Some e), st') \<Longrightarrow> listed (e_Wire e)"
    and Retrieve_typed: "eng_Retrieve E now mc st = (Inr wire, st') \<Longrightarrow> retrieved wire"
begin

text \<open>A reply with the payload type of its opcode.\<close>

definition well_typed :: "opcode \<Rightarrow> reply \<Rightarrow> bool" where
  "well_typed op r = (case r of
     Crash _ \<Rightarrow> True
   | Reply code b \<Rightarrow> b = [] \<or> code = 0 \<and> has_type listed retrieved (reply_type op) b)"

lemma well_typed_empty [simp]: "well_typed op (Reply code [])" "well_typed op (Crash err)"
  "well_typed op (refuse code err)" "well_typed op (failed err)"
  by (simp_all add: well_typed_def refuse_def failed_def)

lemma well_typed_finish:
  "(\<And>x. fst r = Inr x \<Longrightarrow> payload x = [] \<or> has_type listed retrieved (reply_type op) (payload x)) \<Longrightarrow>
     well_typed op (fst (finish payload r))"
  by (cases r; cases "fst r") (auto simp: finish_def, simp add: well_typed_def)

lemma put_wires_concat: "put_wires es = concat (map put_data (map e_Wire es))"
  by (induction es) (simp_all add: put_data_def)

lemma UUIDs_typed: "list_all is_uuid us \<Longrightarrow> has_type listed retrieved UUID_list (PutUUIDList us)"
  by (auto simp: ReadUUIDList_iff)

lemma name_typed: "CHR 0x00 \<notin> set name \<Longrightarrow> has_type listed retrieved Cache_name (PutCName name)"
  using SplitCName_Put [of name "[]"] by auto

lemma lists_typed:
  assumes "fst (eng_ListEntries E now st) = Inr es"
  shows "has_type listed retrieved UUID_list (PutUUIDList (map e_UUID es))"
    "has_type listed retrieved Listed_credentials (PutUint32 (len32 es) @ put_wires es)"
proof -
  have es: "list_all (\<lambda>e. is_uuid (e_UUID e) \<and> listed (e_Wire e)) es"
    using assms ListEntries_typed [of now st es] by (metis prod.collapse)
  then show "has_type listed retrieved UUID_list (PutUUIDList (map e_UUID es))"
    by (intro UUIDs_typed) (simp add: list.pred_set)
  have "list_all listed (map e_Wire es) \<and> PutUint32 (len32 es) @ put_wires es =
      PutUint32 (len32 (map e_Wire es)) @ concat (map put_data (map e_Wire es))"
    using es by (simp add: put_wires_concat list.pred_set)
  then show "has_type listed retrieved Listed_credentials (PutUint32 (len32 es) @ put_wires es)"
    unfolding has_type.simps by blast
qed

lemma GetCredByUUID_typed:
  assumes "reply_type op = Listed_credential"
  shows "well_typed op (fst (handle_GetCredByUUID E now rest st))"
proof -
  have "well_typed op (fst (case eng_EntryByUUID E now u st of
      (Inl err, st) \<Rightarrow> (failed err, st)
    | (Inr None, st) \<Rightarrow> (Reply CCNotFound [], st)
    | (Inr (Some e), st) \<Rightarrow> (Reply 0 (e_Wire e), st)))" for u
    using EntryByUUID_typed [of now u st]
    by (auto simp: assms well_typed_def [of op "Reply 0 b" for b] split: prod.split sum.split option.split)
  then show ?thesis by (simp add: handle_GetCredByUUID_def split: sum.split)
qed

lemma Destroy_typed: "well_typed op (fst (handle_Destroy E st))"
  by (simp add: handle_Destroy_def split: prod.split sum.split)

lemma Initialize_typed: "well_typed op (fst (handle_Initialize E rest st))"
  by (auto simp: handle_Initialize_def intro: well_typed_finish split: sum.split)

lemma with_match_typed: "(\<And>mc. well_typed op (fst (act mc st))) \<Longrightarrow> well_typed op (fst (with_match rest act st))"
  by (simp add: with_match_def split: sum.split)

text \<open>The server's own name and UUID.\<close>

definition typed_server :: "server \<Rightarrow> bool" where
  "typed_server s \<longleftrightarrow> CHR 0x00 \<notin> set (cacheName s) \<and> is_uuid (cacheUUID s)"

lemma well_typed_if: "well_typed op (fst (if b then x else y)) \<longleftrightarrow>
    (if b then well_typed op (fst x) else well_typed op (fst y))"
  by simp

lemma handle_typed:
  assumes "typed_server s"
  shows "well_typed op (fst (handle E s now op rest st))"
proof -
  have name: "reply_type op = Cache_name \<Longrightarrow> well_typed op (Reply 0 (PutCName (cacheName s)))"
    and uuid: "reply_type op = UUID_list \<Longrightarrow> well_typed op (Reply 0 (PutUUIDList [cacheUUID s]))"
    and offset: "reply_type op = Clock_offset \<Longrightarrow> well_typed op (Reply 0 (PutUint32 0))" for op
    using assms name_typed [of "cacheName s"] UUIDs_typed [of "[cacheUUID s]"]
    by (simp_all add: well_typed_def typed_server_def)
  have cache: "reply_type op = Cache_name \<Longrightarrow> well_typed op (fst (handle_GetCacheByUUID s rest st))" for op
    using name by (simp add: handle_GetCacheByUUID_def split: sum.split)
  have princ: "reply_type op = Principal_name \<Longrightarrow> well_typed op (fst (finish MarshalPrincipal (eng_DefaultPrincipal E st)))" for op
    by (rule well_typed_finish) auto
  have uuids: "reply_type op = UUID_list \<Longrightarrow>
      well_typed op (fst (finish (\<lambda>es. PutUUIDList (map e_UUID es)) (eng_ListEntries E now st)))" for op
    using lists_typed(1) by (intro well_typed_finish) (simp only: simp_thms)
  have creds: "reply_type op = Listed_credentials \<Longrightarrow>
      well_typed op (fst (finish (\<lambda>es. PutUint32 (len32 es) @ put_wires es) (eng_ListEntries E now st)))" for op
    using lists_typed(2) by (intro well_typed_finish) (simp only: simp_thms)
  have retr: "reply_type op = Retrieved_credential \<Longrightarrow>
      well_typed op (fst (with_match rest (\<lambda>mc st. finish (\<lambda>wire. wire) (eng_Retrieve E now mc st)) st))" for op
    using Retrieve_typed by (intro with_match_typed well_typed_finish) (auto, metis prod.collapse)
  have rem: "well_typed op (fst (with_match rest (\<lambda>mc st. finish (\<lambda>_. []) (eng_RemoveMatching E mc st)) st))" for op
    by (intro with_match_typed well_typed_finish) simp
  have store: "well_typed op (fst (finish (\<lambda>_. []) (eng_Store E rest st)))" for op by (rule well_typed_finish) simp
  note branches = name uuid offset cache princ uuids creds retr rem store GetCredByUUID_typed Destroy_typed Initialize_typed
  show ?thesis
    unfolding handle_def well_typed_if fst_conv
    by (auto simp: reply_type_def opcode_defs intro!: branches)
qed

end

section \<open>The engine of the program\<close>

text \<open>An encoding that may be listed, and one that may be retrieved.\<close>

definition listed_encoding :: "'w krb5_lib \<Rightarrow> byte list \<Rightarrow> bool" where
  "listed_encoding L wire \<longleftrightarrow>
     (\<exists>cr. marshalCreds L cr = Inr wire \<and> (isTGTServer (readPrincipal (cr_server cr)) \<longrightarrow> cr_key cr = []))"

definition retrieved_encoding :: "'w krb5_lib \<Rightarrow> byte list \<Rightarrow> bool" where
  "retrieved_encoding L wire \<longleftrightarrow>
     (\<exists>cr flags m w w'. krb5_get_credentials L flags workingCacheName m w = (Inr cr, w') \<and> marshalCreds L cr = Inr wire)"

lemma listed_wire_encoding:
  assumes "marshalCreds L cr = Inr wire" "listed_wire L c cr wire = Inr b"
  shows "listed_encoding L b"
proof (cases "isTGTServer (readPrincipal (cr_server cr))")
  case True
  define red where "red = (case tgt c of
      Some (_, t) \<Rightarrow> if local_tgt (cr\<lparr>cr_key := []\<rparr>) then cr\<lparr>cr_key := [], cr_ticket_flags := ti_flags t\<rparr> else cr\<lparr>cr_key := []\<rparr>
    | None \<Rightarrow> cr\<lparr>cr_key := []\<rparr>)"
  have "marshalCreds L red = Inr b"
    using assms(2) True by (auto simp: listed_wire_def marshalTGTForListing_def Let_def red_def split: option.split_asm)
  moreover have "cr_key red = []" by (simp add: red_def split: option.split)
  ultimately show ?thesis by (auto simp: listed_encoding_def)
qed (use assms in \<open>auto simp: listed_wire_def listed_encoding_def\<close>)

lemma list_entries_typed:
  assumes "list_entries L c w = Inr es"
  shows "list_all (\<lambda>e. is_uuid (e_UUID e) \<and> listed_encoding L (e_Wire e)) es"
proof -
  obtain creds code endcode where "walk L (list_visitor L c) creds code ([], None) = (None, es, None)"
    using assms by (rule list_entries_cases)
  from walk_list [OF this] obtain crs where "list_all2 (shows_cred L c) crs es" by auto
  then have "\<forall>e\<in>set es. \<exists>cr. shows_cred L c cr e" by (metis in_set_conv_nth list_all2_conv_all_nth)
  then show ?thesis by (auto simp: list.pred_set shows_cred_def dest: listed_wire_encoding)
qed

lemma walk_find_typed:
  "walk L (find_visitor L c u) creds code (f0, r0) = (err, Some e, r) \<Longrightarrow> f0 = Some e \<or> listed_encoding L (e_Wire e)"
proof (induction creds)
  case (Cons cr creds)
  then show ?case
    by (auto simp: find_visitor_apply split: if_splits sum.splits dest: listed_wire_encoding)
qed auto

lemma find_entry_typed: "find_entry L u c w = Inr (Some e) \<Longrightarrow> listed_encoding L (e_Wire e)"
  by (auto simp: find_entry_def forEachEntry_def split: op_splits sum.splits dest: walk_find_typed)

lemma getCredentials_typed: "getCredentials L mc w = (Inr wire, w') \<Longrightarrow> retrieved_encoding L wire"
  unfolding retrieved_encoding_def getCredentials_def by (simp split: sum.splits if_splits prod.splits) blast

text \<open>Where the result of an operation comes from.\<close>

lemma maintained_result:
  assumes "with_context L (maintained L now f) c w = (Inr x, c', w')"
  obtains c1 w1 c2 where "f c1 w1 = (Inr x, c2, w')"
  using assms by (rule with_context_cases) (auto simp: maintained_def split: op_splits intro: that)

interpretation krb5c: typed_engine "krb5c_engine L" "listed_encoding L" "retrieved_encoding L"
  for L :: "'w krb5_lib"
proof
  fix now and st st' :: "client \<times> 'w"
  show "list_all (\<lambda>e. is_uuid (e_UUID e) \<and> listed_encoding L (e_Wire e)) es"
    if "eng_ListEntries (krb5c_engine L) now st = (Inr es, st')" for es
    using that
    by (cases st; cases st') (auto simp: krb5c_engine_sel on_pair_def ListEntries_def
        elim!: maintained_result dest: list_entries_typed)
  show "listed_encoding L (e_Wire e)" if "eng_EntryByUUID (krb5c_engine L) now u st = (Inr (Some e), st')" for u e
    using that
    by (cases st; cases st') (auto simp: krb5c_engine_sel on_pair_def EntryByUUID_def
        elim!: maintained_result dest: find_entry_typed)
  show "retrieved_encoding L wire" if "eng_Retrieve (krb5c_engine L) now mc st = (Inr wire, st')" for mc wire
    using that
    by (cases st; cases st') (auto simp: krb5c_engine_sel on_pair_def Retrieve_def
        split: op_splits elim!: maintained_result dest: getCredentials_typed)
qed

text \<open>C6: Replies are typed. For every library, every state and every request body, a reply that reports an error
  has no payload, and one that has a payload reports success and has the type of its opcode: a NUL-terminated
  name, whole UUIDs, a principal, a count with as many length-prefixed credentials, a 4-byte offset. In
  particular no reply but that to a RETRIEVE holds a session key of a ticket-granting ticket.\<close>

theorem dispatch_reply_typed:
  assumes "CHR 0x00 \<notin> set name"
    and "dispatch (krb5c_engine L) (New name uid debug) now body st = (Reply code payload, st')"
  shows "payload = [] \<or>
    code = 0 \<and> has_type (listed_encoding L) (retrieved_encoding L) (reply_type (request_op body)) payload"
proof -
  have "krb5c.typed_server (New name uid debug)" using assms(1) by (simp add: krb5c.typed_server_def New_def)
  note typed = krb5c.handle_typed [OF this, unfolded krb5c.well_typed_def]
  have h: "payload = [] \<or> code = 0 \<and>
      has_type (listed_encoding L) (retrieved_encoding L) (reply_type op) payload"
    if "handle (krb5c_engine L) (New name uid debug) now op rest st1 = (Reply code payload, st2)" for op rest st1 st2
    using typed [of L op now rest st1] unfolding that by simp
  show ?thesis
  proof (cases "ParseRequestHeader body")
    case (Inr opr)
    then have opr: "opr = (request_op body, drop 4 body)"
      by (auto simp: ParseRequestHeader_def request_op_def split: if_splits)
    show ?thesis
    proof (cases "split_name (request_op body) (drop 4 body)")
      case named: (Inr cr)
      obtain rest st1 where d: "dispatch (krb5c_engine L) (New name uid debug) now body st =
          (if \<not> Supported (request_op body) then (Reply CCNoSupp [], st1)
           else (case handle (krb5c_engine L) (New name uid debug) now (request_op body) rest st1 of
               (Crash err, st) \<Rightarrow> (Crash err, st)
             | (Reply code payload, st) \<Rightarrow> (Reply code payload, snd (eng_ErrorMessage (krb5c_engine L) code st))))"
        using Inr opr named by (cases cr) (simp add: dispatch_def Let_def)
      obtain r st2 where r: "handle (krb5c_engine L) (New name uid debug) now (request_op body) rest st1 = (r, st2)"
        by (rule prod.exhaust)
      have "payload = [] \<or> r = Reply code payload"
        using assms(2) unfolding d r by (cases r) (auto split: if_splits)
      then show ?thesis using h r by blast
    qed (use Inr opr assms(2) in \<open>auto simp: dispatch_def refuse_def split: if_splits\<close>)
  qed (use assms(2) in \<open>auto simp: dispatch_def refuse_def split: if_splits\<close>)
qed

end
