(* ===== verification/Vault.thy ===== *)
theory Vault
  imports Transitions Replies
begin

text \<open>
  An abstract specification of the daemon's credential store, and the proof that the engine implements it.
  A \<open>vault\<close> has an owner, a list of credentials and the TGT in use; it changes by eight kinds of actions only,
  described here without libkrb5 and without the code. Every request and every round of maintenance is shown
  to be a sequence of these actions, of the kinds its opcode allows.
\<close>

record vault =
  v_owner :: "krb5_principal option"
  v_creds :: "krb5_creds list"
  v_tgt :: "tgtInfo option"

datatype action =
    Evict   \<comment> \<open>drop service tickets\<close>
  | Renew   \<comment> \<open>replace the TGT by a renewed one\<close>
  | Reload  \<comment> \<open>start over with the contents of a file\<close>
  | Fetch   \<comment> \<open>add service tickets from the KDC\<close>
  | Put     \<comment> \<open>add a credential a client sent\<close>
  | Adopt   \<comment> \<open>replace the TGT by one a client sent\<close>
  | Remove  \<comment> \<open>remove what matches a template\<close>
  | Reset   \<comment> \<open>start over, empty\<close>

text \<open>A new TGT takes the place of the one in use: the copy in the list is exchanged for one that cannot be
  renewed, and the TGT itself is remembered as it is.\<close>

definition swaps :: "'w krb5_lib \<Rightarrow> krb5_creds \<Rightarrow> tgtInfo \<Rightarrow> vault \<Rightarrow> vault \<Rightarrow> bool" where
  "swaps L cr info v v' \<longleftrightarrow>
     tgtInfoFrom L cr = Inr info \<and> local_tgt cr \<and>
     (\<exists>e kept. v' = v\<lparr>v_creds := kept @ [(clear_renewable cr)\<lparr>cr_enctype := e\<rparr>], v_tgt := Some info\<rparr> \<and>
        (case v_tgt v of
           None \<Rightarrow> kept = v_creds v
         | Some old \<Rightarrow> \<exists>oc. tgtInfoFrom L oc = Inr old \<and> kept = filter (\<lambda>e. \<not> exact_match L oc e) (v_creds v)))"

inductive vault_step :: "'w krb5_lib \<Rightarrow> action \<Rightarrow> vault \<Rightarrow> vault \<Rightarrow> bool" for L :: "'w krb5_lib" where
  evict: "\<forall>cr. local_tgt cr \<longrightarrow> keep cr \<Longrightarrow> vault_step L Evict v (v\<lparr>v_creds := filter keep (v_creds v)\<rparr>)"
| renew: "v_tgt v \<noteq> None \<Longrightarrow> swaps L cr info v v' \<Longrightarrow> vault_step L Renew v v'"
| reload: "\<forall>cr\<in>set cs. local_tgt cr \<longrightarrow> cr_ticket_flags cr AND tktFlgRenewable = 0 \<Longrightarrow>
    \<forall>info. t = Some info \<longrightarrow> copy_in_cache L cs info \<Longrightarrow>
    vault_step L Reload v \<lparr>v_owner = Some p, v_creds = cs, v_tgt = t\<rparr>"
| fetch: "\<forall>cr\<in>set new. \<not> local_tgt cr \<Longrightarrow> vault_step L Fetch v (v\<lparr>v_creds := v_creds v @ new\<rparr>)"
| put: "\<not> (local_tgt cr \<and> same_principal (cr_client cr) (v_owner v)) \<Longrightarrow>
    vault_step L Put v (v\<lparr>v_creds := v_creds v @ [cr]\<rparr>)"
| adopt: "swaps L cr info v v' \<Longrightarrow> vault_step L Adopt v v'"
| remove: "vault_step L Remove v (v\<lparr>v_creds := filter (\<lambda>e. \<not> cred_matches L 0 m e) (v_creds v)\<rparr>)"
| reset: "vault_step L Reset v \<lparr>v_owner = Some p, v_creds = [], v_tgt = None\<rparr>"

text \<open>What maintenance may do, and what a request with a given opcode may do.\<close>

definition upkeep :: "action set" where "upkeep = {Evict, Renew, Reload}"

definition allowed :: "opcode \<Rightarrow> action set" where
  "allowed op =
     (if op = OpRetrieve then insert Fetch upkeep
      else if op = OpGetCredUUIDList \<or> op = OpGetCredByUUID \<or> op = OpGetCredList then upkeep
      else if op = OpRemoveCred then {Remove}
      else if op = OpStore then {Put, Adopt}
      else if op = OpInitialize \<or> op = OpDestroy then {Reset}
      else {})"

definition acts :: "'w krb5_lib \<Rightarrow> action set \<Rightarrow> vault \<Rightarrow> vault \<Rightarrow> bool" where
  "acts L A v v' \<longleftrightarrow> (\<exists>a\<in>A. vault_step L a v v')"

section \<open>The specification keeps the TGT guarded\<close>

definition vault_guarded :: "vault \<Rightarrow> bool" where
  "vault_guarded v \<longleftrightarrow> (\<forall>cr\<in>set (v_creds v). tgt_guarded (v_owner v) cr)"

lemma swaps_guarded: "vault_guarded v \<Longrightarrow> swaps L cr info v v' \<Longrightarrow> vault_guarded v'"
proof -
  have "tgt_guarded own ((clear_renewable cr)\<lparr>cr_enctype := e\<rparr>)" for own e
    by (simp add: tgt_guarded_def)
  then show "vault_guarded v \<Longrightarrow> swaps L cr info v v' \<Longrightarrow> vault_guarded v'"
    by (auto simp: vault_guarded_def swaps_def split: option.splits)
qed

lemma vault_step_guarded: "vault_step L a v v' \<Longrightarrow> vault_guarded v \<Longrightarrow> vault_guarded v'"
proof (induction rule: vault_step.induct)
  case (renew v cr info v')
  then show ?case by (blast intro: swaps_guarded)
next
  case (adopt cr info v v')
  then show ?case by (blast intro: swaps_guarded)
qed (auto simp: vault_guarded_def tgt_guarded_def)

interpretation vault: invariant_system vault_guarded "acts L A" vault_guarded
  for L :: "'w krb5_lib" and A :: "action set"
  by unfold_locales (auto simp: acts_def intro: vault_step_guarded)

section \<open>The vault behind the engine\<close>

text \<open>The TGT in use was captured from a local TGT.\<close>

definition tgt_known :: "'w krb5_lib \<Rightarrow> client \<Rightarrow> bool" where
  "tgt_known L c \<longleftrightarrow> (\<forall>a t. tgt c = Some (a, t) \<longrightarrow> (\<exists>cr. tgtInfoFrom L cr = Inr t \<and> local_tgt cr))"

definition vault_of ::
  "('w \<Rightarrow> krb5_creds list) \<Rightarrow> ('w \<Rightarrow> krb5_principal option) \<Rightarrow> client \<Rightarrow> 'w \<Rightarrow> vault" where
  "vault_of entries owner c w = \<lparr>v_owner = owner w, v_creds = entries w, v_tgt = map_option snd (tgt c)\<rparr>"

text \<open>The engine is at a vault that actions of the kinds \<open>A\<close> lead to from \<open>v\<close>.\<close>

definition refines ::
  "'w krb5_lib \<Rightarrow> ('w \<Rightarrow> krb5_creds list) \<Rightarrow> ('w \<Rightarrow> krb5_principal option) \<Rightarrow> action set \<Rightarrow> vault \<Rightarrow>
     client \<Rightarrow> 'w \<Rightarrow> bool" where
  "refines L entries owner A v c w \<longleftrightarrow> tgt_known L c \<and> (acts L A)\<^sup>*\<^sup>* v (vault_of entries owner c w)"

lemma refines_start: "tgt_known L c \<Longrightarrow> refines L entries owner A (vault_of entries owner c w) c w"
  by (simp add: refines_def)

lemma refines_idle: "refines L entries owner A v (c\<lparr>idle := i\<rparr>) w = refines L entries owner A v c w"
  by (simp add: refines_def tgt_known_def vault_of_def)

lemma refines_same:
  assumes "refines L entries owner A v c w" "tgt c' = tgt c" "owner w' = owner w" "entries w' = entries w"
  shows "refines L entries owner A v c' w'"
  using assms by (simp add: refines_def tgt_known_def vault_of_def)

lemma refines_step:
  assumes "refines L entries owner A v c w" "a \<in> A" "tgt_known L c'"
    "vault_step L a (vault_of entries owner c w) (vault_of entries owner c' w')"
  shows "refines L entries owner A v c' w'"
proof -
  have "acts L A (vault_of entries owner c w) (vault_of entries owner c' w')"
    using assms(2,4) by (auto simp: acts_def)
  with assms(1,3) show ?thesis unfolding refines_def by (meson rtranclp.rtrancl_into_rtrancl)
qed

text \<open>So whatever refines a guarded vault is guarded.\<close>

lemma refines_guarded:
  "refines L entries owner A v c w \<Longrightarrow> vault_guarded v \<Longrightarrow> vault_guarded (vault_of entries owner c w)"
  by (auto simp: refines_def dest: vault.reachable_inv)

context mem_ccache
begin

lemma remove_refines:
  assumes "refines L entries owner A v c w" "Remove \<in> A"
    "krb5_cc_remove_cred L workingCacheName 0 m w = (code, w')"
  shows "refines L entries owner A v c w'"
proof (rule refines_step [OF assms(1,2)])
  show "tgt_known L c" using assms(1) by (simp add: refines_def)
  show "vault_step L Remove (vault_of entries owner c w) (vault_of entries owner c w')"
    using vault_step.remove [of L "vault_of entries owner c w" m] remove_cred [OF assms(3)]
    by (simp add: vault_of_def)
qed

lemma fetch_refines:
  assumes "refines L entries owner A v c w" "Fetch \<in> A"
    "krb5_get_credentials L flags workingCacheName m w = (r, w')"
  shows "refines L entries owner A v c w'"
proof (rule refines_step [OF assms(1,2)])
  show "tgt_known L c" using assms(1) by (simp add: refines_def)
  obtain new where "owner w' = owner w" "entries w' = entries w @ new" "\<forall>cr\<in>set new. \<not> local_tgt cr"
    using get_credentials [OF assms(3)] by blast
  then show "vault_step L Fetch (vault_of entries owner c w) (vault_of entries owner c w')"
    using vault_step.fetch [of new L "vault_of entries owner c w"] by (simp add: vault_of_def)
qed

lemma put_refines:
  assumes "refines L entries owner A v c w" "Put \<in> A"
    "\<not> (local_tgt cr \<and> same_principal (cr_client cr) (owner w))" "store_plain L cr c w = (r, c', w')"
  shows "refines L entries owner A v c' w'"
proof -
  obtain code where st: "krb5_cc_store_cred L workingCacheName cr w = (code, w')" and c: "c' = c"
    using assms(4) by (auto simp: store_plain_def split: prod.splits option.splits)
  show ?thesis
  proof (cases "code = 0")
    case True
    have "vault_step L Put (vault_of entries owner c w) (vault_of entries owner c w')"
      using vault_step.put [of cr "vault_of entries owner c w" L] store_cred [OF st] assms(3) True
      by (simp add: vault_of_def)
    with assms(1,2) c show ?thesis using refines_step by (metis refines_def)
  next
    case False
    with store_cred [OF st] c show ?thesis using refines_same [OF assms(1)] by simp
  qed
qed

lemma reset_refines:
  assumes "refines L entries owner A v c w" "Reset \<in> A" "initialize_cache L p c w = (r, c', w')"
  shows "refines L entries owner A v c' w'"
proof (cases r)
  case (Inr x)
  then obtain princ where "krb5_cc_initialize L workingCacheName (Some princ) w = (0, w')" "tgt c' = None"
    using assms(3) by (auto simp: initialize_cache_def resetRenewBackoff_def split: op_splits)
  with initialize [of "Some princ" w 0 w'] show ?thesis
    using refines_step [OF assms(1,2), of c' w'] vault_step.reset [of L "vault_of entries owner c w" princ]
    by (simp add: vault_of_def tgt_known_def)
next
  case (Inl err)
  then have "c' = c" "owner w' = owner w" "entries w' = entries w"
    using assms(3) initialize [of _ w _ w'] by (auto simp: initialize_cache_def split: op_splits)
  then show ?thesis using refines_same [OF assms(1)] by simp
qed

lemma stale_not_tgt: "stale L c now cr \<Longrightarrow> \<not> local_tgt cr"
  by (simp add: stale_def local_tgt_def Let_def)

lemma stale_wires_creds:
  "\<exists>crs. list_all2 (\<lambda>cr wire. marshalCreds L cr = Inr wire) crs (stale_wires L c now creds) \<and>
     (\<forall>cr\<in>set crs. \<not> local_tgt cr)"
proof (induction creds)
  case (Cons cr creds)
  then obtain crs where crs: "list_all2 (\<lambda>cr wire. marshalCreds L cr = Inr wire) crs (stale_wires L c now creds)"
    "\<forall>cr\<in>set crs. \<not> local_tgt cr" by blast
  show ?case
  proof (cases "stale L c now cr \<and> (\<exists>wire. marshalCreds L cr = Inr wire)")
    case True
    with crs show ?thesis by (intro exI [of _ "cr # crs"]) (auto simp: stale_not_tgt)
  next
    case False
    with crs show ?thesis by (intro exI [of _ crs]) (auto split: sum.split)
  qed
qed auto

lemma evict_refines:
  assumes "refines L entries owner A v c w" "Evict \<in> A"
  shows "refines L entries owner A v c (sweep L now c w)"
proof -
  obtain crs where crs: "list_all2 (\<lambda>cr wire. marshalCreds L cr = Inr wire) crs (stale_wires L c now (entries w))"
    "\<forall>cr\<in>set crs. \<not> local_tgt cr" using stale_wires_creds by blast
  have e: "entries (sweep L now c w) = filter (\<lambda>e. \<forall>m\<in>set crs. \<not> exact_match L m e) (entries w)"
    using fold_remove_effect [OF crs(1), of w] by (simp add: sweep_def seq_get)
  have "\<forall>cr. local_tgt cr \<longrightarrow> (\<forall>m\<in>set crs. \<not> exact_match L m cr)"
    using crs(2) cred_matches_local_tgt by blast
  from vault_step.evict [OF this, of L "vault_of entries owner c w"] show ?thesis
    using refines_step [OF assms, of c "sweep L now c w"] assms(1) e sweep_owner [of now c w]
    by (simp add: vault_of_def refines_def)
qed

end

context reliable_ccache
begin

abbreviation refines_to :: "action set \<Rightarrow> vault \<Rightarrow> client \<Rightarrow> 'a \<Rightarrow> bool" where
  "refines_to \<equiv> refines L entries owner"

lemma setTGT_swaps:
  assumes "tgtInfoFrom L cr = Inr info" "local_tgt cr" "tgt_known L c" "setTGT L info c w = (err, c', w')"
  shows "err = None \<and> tgt_known L c' \<and> swaps L cr info (vault_of entries owner c w) (vault_of entries owner c' w')"
proof -
  obtain e where u: "unmarshalCreds L (ti_wire info) = Inr (cr\<lparr>cr_enctype := e\<rparr>)"
    using unmarshalCreds_marshalCreds tgtInfoFrom_Inr(1) [OF assms(1)] by blast
  let ?rem = "case tgt c of None \<Rightarrow> (None, w) | Some (_, t) \<Rightarrow> removeCredExact L (ti_wire t) w"
  obtain w1 where w1: "?rem = (None, w1)" "owner w1 = owner w"
    "case map_option snd (tgt c) of
       None \<Rightarrow> entries w1 = entries w
     | Some old \<Rightarrow> \<exists>oc. tgtInfoFrom L oc = Inr old \<and> entries w1 = filter (\<lambda>e. \<not> exact_match L oc e) (entries w)"
  proof (cases "tgt c")
    case (Some at)
    obtain a t where at: "at = (a, t)" by (cases at)
    then obtain oc where oc: "tgtInfoFrom L oc = Inr t" using assms(3) Some by (auto simp: tgt_known_def)
    obtain e1 w1 where r: "removeCredExact L (ti_wire t) w = (e1, w1)" by fastforce
    from removeCredExact_effect [OF r tgtInfoFrom_Inr(1) [OF oc]] that [of w1] oc Some at r show ?thesis by auto
  qed simp
  have clear: "clear_renewable (cr\<lparr>cr_enctype := e\<rparr>) = (clear_renewable cr)\<lparr>cr_enctype := e\<rparr>"
    by (simp add: clear_renewable_def)
  obtain w2 where w2: "storeTGT L (cr\<lparr>cr_enctype := e\<rparr>) w1 = (None, w2)"
    "entries w2 = entries w1 @ [(clear_renewable cr)\<lparr>cr_enctype := e\<rparr>]" "owner w2 = owner w1"
    using storeTGT_ok [of "cr\<lparr>cr_enctype := e\<rparr>" w1] storeTGT_effect(1) clear by metis
  have "err = None" "c' = resetRenewBackoff (install_tgt info c)" "w' = w2"
    using assms(4) u w1(1) w2(1) by (auto simp: setTGT_def)
  moreover have "swaps L cr info (vault_of entries owner c w) (vault_of entries owner c' w2)"
    unfolding swaps_def using assms(1,2) w1(2,3) w2(2,3) calculation(2)
    by (auto simp: vault_of_def split: option.splits)
  ultimately show ?thesis using assms(1,2) by (auto simp: tgt_known_def)
qed

lemma renew_finish_refines:
  assumes "refines_to A v c w" "Renew \<in> A" "renew_finish L started now res c w = (err, c', w')"
    "\<And>info. res = Inr info \<Longrightarrow> \<exists>cr. tgtInfoFrom L cr = Inr info \<and> local_tgt cr"
  shows "refines_to A v c' w'"
proof (cases "map_option fst (tgt c) = Some (fst started) \<and> (\<exists>info. res = Inr info)")
  case True
  then obtain info cr where info: "res = Inr info" "tgtInfoFrom L cr = Inr info" "local_tgt cr"
    using assms(4) by blast
  let ?c = "c\<lparr>renewing := False\<rparr>"
  have c: "refines_to A v ?c w" using refines_same [OF assms(1)] by simp
  obtain e2 c2 w2 where s: "setTGT L info ?c w = (e2, c2, w2)" using prod_cases3 by blast
  have sw: "e2 = None" "tgt_known L c2" "swaps L cr info (vault_of entries owner ?c w) (vault_of entries owner c2 w2)"
    using setTGT_swaps [OF info(2,3) _ s] c by (auto simp: refines_def)
  have "vault_step L Renew (vault_of entries owner ?c w) (vault_of entries owner c2 w2)"
    using sw(3) True by (intro vault_step.renew) (auto simp: vault_of_def)
  from refines_step [OF c assms(2) sw(2) this] show ?thesis
    using assms(3) True info(1) s sw(1) by (auto simp: renew_finish_def Let_def)
next
  case False
  then have "tgt c' = tgt c" "w' = w"
    using assms(3) by (auto simp: renew_finish_def Let_def noteRenewFailure_def split: op_splits)
  then show ?thesis using refines_same [OF assms(1)] by simp
qed

lemma renewTGT_refines:
  assumes "refines_to A v c w" "Renew \<in> A" "renewTGT L now c w = (err, c', w')"
  shows "refines_to A v c' w'"
proof -
  obtain r c1 where st: "renew_start c = (r, c1)" by fastforce
  then have c1: "refines_to A v c1 w"
    using refines_same [OF assms(1)] by (auto simp: renew_start_def split: op_splits)
  show ?thesis
  proof (cases r)
    case (Inr started)
    obtain res w1 where ex: "renewExchange L (ti_wire (snd started)) w = (res, w1)" by fastforce
    then have "refines_to A v c1 w1" using refines_same [OF c1] renewExchange_effect [OF ex] by simp
    moreover have "renew_finish L started now res c1 w1 = (err, c', w')"
      using assms(3) st Inr ex by (simp add: renewTGT_def)
    ultimately show ?thesis using renew_finish_refines [OF _ assms(2)] renewExchange_local ex by blast
  qed (use assms(3) st c1 in \<open>simp add: renewTGT_def\<close>)
qed

text \<open>What loading a file does to an empty cache.\<close>

definition clean_tgts :: "krb5_creds list \<Rightarrow> bool" where
  "clean_tgts cs \<longleftrightarrow> (\<forall>cr\<in>set cs. local_tgt cr \<longrightarrow> cr_ticket_flags cr AND tktFlgRenewable = 0)"

lemma loadOne_clean:
  assumes "loadOne L now cred found w = (r, w')" "clean_tgts (entries w)"
  shows "clean_tgts (entries w') \<and> owner w' = owner w"
  using assms storeTGT_effect [of cred w] store_cred [of cred w]
  by (auto simp: loadOne_def clean_tgts_def local_tgt_def [symmetric] split: op_splits)

lemma load_creds_clean:
  "load_creds L now creds code found w = (r, w') \<Longrightarrow> clean_tgts (entries w) \<Longrightarrow>
     clean_tgts (entries w') \<and> owner w' = owner w"
proof (induction creds arbitrary: found w)
  case (Cons cred creds)
  obtain r1 w1 where one: "loadOne L now cred found w = (r1, w1)" by fastforce
  from loadOne_clean [OF one Cons.prems(2)] Cons one show ?case by (cases r1) auto
qed (auto split: if_splits)

lemma loadFrom_clean:
  "loadFrom L src now w = (r, w') \<Longrightarrow> clean_tgts (entries w) \<Longrightarrow> clean_tgts (entries w') \<and> owner w' = owner w"
  by (auto simp: loadFrom_def split: op_splits dest: load_creds_clean)

lemma adopt_file_refines:
  assumes "refines_to A v c w" "Reload \<in> A" "adopt_file L src princ now c w = (err, c', w')"
  shows "refines_to A v c' w'"
proof -
  obtain code w1 where i: "krb5_cc_initialize L workingCacheName (Some princ) w = (code, w1)" by fastforce
  show ?thesis
  proof (cases "code = 0")
    case False
    with assms(3) i initialize [OF i] show ?thesis using refines_same [OF assms(1)] by (simp add: adopt_file_def)
  next
    case True
    obtain r w2 where l: "loadFrom L src now w1 = (r, w2)" by fastforce
    have "owner w2 = Some princ" "clean_tgts (entries w2)"
      using loadFrom_clean [OF l] initialize [OF i] True by (simp_all add: clean_tgts_def)
    moreover have "w' = w2" using assms(3) i l True by (auto simp: adopt_file_def Let_def split: op_splits)
    moreover have copy: "copy_in_cache L (entries w2) t" if "tgt c' = Some (a, t)" for a t
      using assms(3) i l True that loadFrom_copy [of src now w1 _ w2]
      by (auto simp: adopt_file_def Let_def split: op_splits)
    ultimately have "vault_step L Reload (vault_of entries owner c w) (vault_of entries owner c' w')"
      using vault_step.reload [of "entries w2" "map_option snd (tgt c')" L "vault_of entries owner c w" princ]
      by (auto simp: vault_of_def clean_tgts_def)
    moreover have "tgt_known L c'" using copy by (auto simp: tgt_known_def copy_in_cache_def)
    ultimately show ?thesis using refines_step [OF assms(1,2)] by blast
  qed
qed

lemma loadNewerTGT_refines:
  assumes "refines_to A v c w" "Reload \<in> A" "loadNewerTGT L now c w = (err, c', w')"
  shows "refines_to A v c' w'"
proof -
  have "refines_to A v (c\<lparr>lastFileCheck := now\<rparr>) w" using refines_same [OF assms(1)] by simp
  with assms show ?thesis
    by (auto simp: loadNewerTGT_def Let_def split: op_splits dest: adopt_file_refines)
qed

lemma maintain_refines:
  assumes "refines_to A v c w" "upkeep \<subseteq> A" "maintain L now c w = (err, c', w')"
  shows "refines_to A v c' w'"
proof -
  have A: "Evict \<in> A" "Renew \<in> A" "Reload \<in> A" using assms(2) by (auto simp: upkeep_def)
  show ?thesis
    using assms(1,3)
    by (auto simp: maintain_def reload_section_def Let_def split: op_splits
        dest: loadNewerTGT_refines [OF _ A(3)] renewTGT_refines [OF _ A(2)] intro: evict_refines [OF _ A(1)])
qed

section \<open>Requests\<close>

abbreviation at_vault :: "action set \<Rightarrow> vault \<Rightarrow> client \<times> 'a \<Rightarrow> bool" where
  "at_vault A v st \<equiv> (case st of (c, w) \<Rightarrow> refines_to A v c w)"

lemma keeps_context: "keeps (refines_to A v) f \<Longrightarrow> keeps (refines_to A v) (with_context L f)"
  by (rule keeps_with_context) (simp_all add: refines_idle)

lemma keeps_upkeep: "upkeep \<subseteq> A \<Longrightarrow> keeps (refines_to A v) f \<Longrightarrow> keeps (refines_to A v) (maintained L now f)"
  by (rule keeps_maintained) (auto dest: maintain_refines)

lemma keeps_lookups:
  "keeps (refines_to A v) (DefaultPrincipal L)"
  "upkeep \<subseteq> A \<Longrightarrow> keeps (refines_to A v) (ListEntries L now)"
  "upkeep \<subseteq> A \<Longrightarrow> keeps (refines_to A v) (EntryByUUID L now uuid)"
  by (simp_all add: DefaultPrincipal_def ListEntries_def EntryByUUID_def keeps_context keeps_upkeep)

lemma keeps_Retrieve:
  assumes "insert Fetch upkeep \<subseteq> A"
  shows "keeps (refines_to A v) (Retrieve L now mc)"
proof -
  have "Fetch \<in> A" "upkeep \<subseteq> A" using assms by auto
  then have "keeps (refines_to A v) (with_context L (maintained L now (\<lambda>c w.
      case tgtError c now of
        Some err \<Rightarrow> (Inl err, c, w)
      | None \<Rightarrow> (case getCredentials L mc w of (r, w) \<Rightarrow> (r, c, w)))))"
    by (intro keeps_context keeps_upkeep)
      (auto simp: keeps_def getCredentials_def split: op_splits dest: fetch_refines)
  then show ?thesis by (auto simp: keeps_def Retrieve_def)
qed

lemma keeps_RemoveMatching: "Remove \<in> A \<Longrightarrow> keeps (refines_to A v) (RemoveMatching L mc)"
  unfolding RemoveMatching_def
  by (rule keeps_context) (auto simp: keeps_def remove_matching_def split: op_splits dest: remove_refines)

lemma keeps_RemoveByUUID: "Remove \<in> A \<Longrightarrow> keeps (refines_to A v) (RemoveByUUID L uuid)"
  unfolding RemoveByUUID_def
  by (rule keeps_context) (auto simp: keeps_def remove_by_uuid_def split: op_splits dest: remove_refines)

lemma adopt_refines:
  assumes "refines_to A v c w" "Adopt \<in> A" "local_tgt cr" "adopt_stored L cr c w = (r, c', w')"
  shows "refines_to A v c' w'"
proof (cases "tgtInfoFrom L cr")
  case (Inr info)
  obtain e c2 w2 where s: "setTGT L info c w = (e, c2, w2)" using prod_cases3 by blast
  have "tgt_known L c" using assms(1) by (simp add: refines_def)
  from setTGT_swaps [OF Inr assms(3) this s] refines_step [OF assms(1,2)] assms(4) Inr s show ?thesis
    by (auto simp: adopt_stored_def intro: vault_step.adopt)
qed (use assms in \<open>simp add: adopt_stored_def\<close>)

lemma foreign_principal:
  assumes "defaultPrincipal L w = Inr mine" "UnparseName mine \<noteq> UnparseName (readPrincipal (cr_client cr))"
  shows "\<not> same_principal (cr_client cr) (owner w)"
  using assms get_principal [of w] same_principal_UnparseName [of "cr_client cr" "owner w"]
  by (auto simp: defaultPrincipal_def split: sum.splits)

lemma keeps_Store:
  assumes "{Put, Adopt} \<subseteq> A"
  shows "keeps (refines_to A v) (Store L wire)"
proof -
  have A: "Put \<in> A" "Adopt \<in> A" using assms by auto
  have "keeps (refines_to A v) (store_creds L wire)"
    unfolding keeps_def store_creds_def
    by (auto simp: Let_def local_tgt_def [symmetric] split: op_splits
        intro: put_refines [OF _ A(1)] adopt_refines [OF _ A(2)] dest: foreign_principal)
  then show ?thesis unfolding Store_def by (rule keeps_context)
qed

lemma keeps_Initialize: "Reset \<in> A \<Longrightarrow> keeps (refines_to A v) (Initialize L p)"
  unfolding Initialize_def by (rule keeps_context) (auto simp: keeps_def dest: reset_refines)

lemma engine_keeps: "keeps (refines_to A v) f \<Longrightarrow> at_vault A v st \<Longrightarrow> at_vault A v (snd (on_pair f st))"
  by (rule on_pair_snd)

end

text \<open>The kinds of actions a handler needs.\<close>

definition suffices :: "opcode \<Rightarrow> action set \<Rightarrow> bool" where
  "suffices op A \<longleftrightarrow>
     (op = OpRetrieve \<longrightarrow> insert Fetch upkeep \<subseteq> A) \<and>
     (op = OpGetCredUUIDList \<or> op = OpGetCredByUUID \<or> op = OpGetCredList \<longrightarrow> upkeep \<subseteq> A) \<and>
     (op = OpRemoveCred \<longrightarrow> Remove \<in> A) \<and> (op = OpStore \<longrightarrow> {Put, Adopt} \<subseteq> A) \<and>
     (op = OpInitialize \<or> op = OpDestroy \<longrightarrow> Reset \<in> A)"

text \<open>Which engine operation a handler ends with.\<close>

lemma finish_snd: "snd (finish f r) = snd r"
  by (simp add: finish_def split_beta)

lemma with_match_snd: "snd (with_match rest act st) = st \<or> (\<exists>mc. snd (with_match rest act st) = snd (act mc st))"
  by (auto simp: with_match_def split: sum.splits)

lemma GetCredByUUID_snd:
  "snd (handle_GetCredByUUID E now rest st) = st \<or>
   (\<exists>u. snd (handle_GetCredByUUID E now rest st) = snd (eng_EntryByUUID E now u st))"
proof (cases "ReadUUIDList rest")
  case (Inr us)
  then show ?thesis
    by (cases "eng_EntryByUUID E now (us ! 0) st")
      (auto simp: handle_GetCredByUUID_def split: sum.split option.split intro!: exI [of _ "us ! 0"])
qed (simp add: handle_GetCredByUUID_def)

lemma GetCacheByUUID_snd: "snd (handle_GetCacheByUUID s rest st) = st"
  by (simp add: handle_GetCacheByUUID_def split: sum.split)

lemma Initialize_snd:
  "snd (handle_Initialize E rest st) = st \<or> (\<exists>p. snd (handle_Initialize E rest st) = snd (eng_Initialize E p st))"
  by (auto simp: handle_Initialize_def finish_snd split: sum.splits prod.splits)

lemma Destroy_snd:
  "snd (handle_Destroy E st) = snd (eng_DefaultPrincipal E st) \<or>
   (\<exists>p. snd (handle_Destroy E st) = snd (eng_Initialize E p (snd (eng_DefaultPrincipal E st))))"
proof (cases "eng_DefaultPrincipal E st")
  case (Pair r st1)
  show ?thesis
  proof (cases r)
    case (Inr p)
    with Pair show ?thesis
      by (cases "eng_Initialize E p st1") (auto simp: handle_Destroy_def split: sum.split intro!: exI [of _ p])
  qed (use Pair in \<open>simp add: handle_Destroy_def\<close>)
qed

context reliable_ccache
begin

lemma handle_at:
  assumes "suffices op A" "at_vault A v st"
  shows "at_vault A v (snd (handle (krb5c_engine L) s now op rest st))"
proof -
  let ?E = "krb5c_engine L"
  note keeps = engine_keeps [OF _ assms(2)]
  have eng: "eng_DefaultPrincipal ?E = on_pair (DefaultPrincipal L)" "eng_ListEntries ?E now = on_pair (ListEntries L now)"
    "eng_EntryByUUID ?E now u = on_pair (EntryByUUID L now u)" "eng_RemoveMatching ?E mc = on_pair (RemoveMatching L mc)"
    "eng_Retrieve ?E now mc = on_pair (Retrieve L now mc)" "eng_Store ?E wire = on_pair (Store L wire)"
    "eng_Initialize ?E p = on_pair (Initialize L p)" for u mc wire p
    by (simp_all add: krb5c_engine_def)
  have get: "at_vault A v (snd (eng_DefaultPrincipal ?E st))" by (simp add: eng keeps keeps_lookups)
  have lists: "upkeep \<subseteq> A \<Longrightarrow> at_vault A v (snd (eng_ListEntries ?E now st))"
    by (simp add: eng keeps keeps_lookups)
  have uuid: "upkeep \<subseteq> A \<Longrightarrow> at_vault A v (snd (handle_GetCredByUUID ?E now rest st))"
    using GetCredByUUID_snd [of ?E now rest st] keeps [OF keeps_lookups(3)] assms(2)
    unfolding eng by metis
  have rem: "Remove \<in> A \<Longrightarrow> at_vault A v (snd (with_match rest (\<lambda>mc st. finish f (eng_RemoveMatching ?E mc st)) st))" for f
    using with_match_snd [of rest "\<lambda>mc st. finish f (eng_RemoveMatching ?E mc st)" st]
      keeps [OF keeps_RemoveMatching] assms(2) unfolding eng finish_snd by metis
  have retr: "insert Fetch upkeep \<subseteq> A \<Longrightarrow>
      at_vault A v (snd (with_match rest (\<lambda>mc st. finish f (eng_Retrieve ?E now mc st)) st))" for f
    using with_match_snd [of rest "\<lambda>mc st. finish f (eng_Retrieve ?E now mc st)" st]
      keeps [OF keeps_Retrieve] assms(2) unfolding eng finish_snd by metis
  have store: "{Put, Adopt} \<subseteq> A \<Longrightarrow> at_vault A v (snd (eng_Store ?E rest st))"
    by (simp add: eng keeps keeps_Store)
  have init: "Reset \<in> A \<Longrightarrow> at_vault A v (snd (handle_Initialize ?E rest st))"
    using Initialize_snd [of ?E rest st] keeps [OF keeps_Initialize] assms(2) unfolding eng by metis
  have destroy: "Reset \<in> A \<Longrightarrow> at_vault A v (snd (handle_Destroy ?E st))"
    using Destroy_snd [of ?E st] get engine_keeps [OF keeps_Initialize get] unfolding eng by metis
  show ?thesis
    using assms(1) get lists uuid rem retr store init destroy assms(2)
    unfolding suffices_def handle_def by (simp add: finish_snd GetCacheByUUID_snd split del: prod.split)
qed

lemma requestAttrs_at: "at_vault A v st \<Longrightarrow> at_vault A v (snd (requestAttrs (krb5c_engine L) op rest st))"
proof -
  assume st: "at_vault A v st"
  have "at_vault A v (snd (on_pair (SummarizeCredential L rest) st))"
    by (rule engine_keeps [OF keeps_SummarizeCredential st]) (simp add: refines_idle)
  moreover have "snd (requestAttrs (krb5c_engine L) op rest st) \<in> {st, snd (on_pair (SummarizeCredential L rest) st)}"
    by (cases "on_pair (SummarizeCredential L rest) st")
      (auto simp: requestAttrs_def krb5c_engine_def Let_def split: sum.split)
  ultimately show ?thesis using st by auto
qed

lemma ErrorMessage_at: "at_vault A v st \<Longrightarrow> at_vault A v (snd (eng_ErrorMessage (krb5c_engine L) code st))"
  using ErrorMessage_idle [of "refines_to A v" st L code] by (simp add: krb5c_engine_def refines_idle)

lemma dispatch_at:
  assumes "at_vault A v st" "\<And>op rest. ParseRequestHeader body = Inr (op, rest) \<Longrightarrow> suffices op A"
  shows "at_vault A v (snd (dispatch (krb5c_engine L) s now body st))"
proof (cases "ParseRequestHeader body")
  case (Inl err)
  with assms(1) show ?thesis by (simp add: dispatch_def)
next
  case (Inr opr)
  obtain op rest where opr: "opr = (op, rest)" by (cases opr)
  have handled: "at_vault A v (snd (case handle (krb5c_engine L) s now op rest' st' of
      (Crash err, st) \<Rightarrow> (Crash err, st)
    | (Reply code payload, st) \<Rightarrow> (Reply code payload, snd (eng_ErrorMessage (krb5c_engine L) code st))))"
    if "at_vault A v st'" for rest' st'
  proof -
    obtain r st2 where h: "handle (krb5c_engine L) s now op rest' st' = (r, st2)" by (rule prod.exhaust)
    have "suffices op A" using assms(2) Inr opr by simp
    from handle_at [OF this that, of s now rest'] have "at_vault A v st2" unfolding h by simp
    then show ?thesis unfolding h using ErrorMessage_at by (cases r) simp_all
  qed
  show ?thesis
  proof (cases "split_name op rest")
    case (Inl err)
    with Inr opr assms(1) show ?thesis by (simp add: dispatch_def)
  next
    case named: (Inr cr)
    obtain cname rest' where cr: "cr = (cname, rest')" by (cases cr)
    let ?st = "if srv_debug s then snd (requestAttrs (krb5c_engine L) op rest' st) else st"
    have st: "at_vault A v ?st" using assms(1) requestAttrs_at by simp
    have "dispatch (krb5c_engine L) s now body st = (if \<not> Supported op then (Reply CCNoSupp [], ?st)
      else (case handle (krb5c_engine L) s now op rest' ?st of
          (Crash err, st) \<Rightarrow> (Crash err, st)
        | (Reply code payload, st) \<Rightarrow> (Reply code payload, snd (eng_ErrorMessage (krb5c_engine L) code st))))"
      using Inr opr named cr by (simp add: dispatch_def Let_def)
    then show ?thesis using handled [OF st, of rest'] st
      by (cases "Supported op")
        (simp_all only: if_True if_False not_True_eq_False not_False_eq_True snd_conv)
  qed
qed

end

lemma allowed_suffices: "suffices op (allowed op)"
  by (simp add: suffices_def allowed_def OpRetrieve_def OpGetCredUUIDList_def OpGetCredByUUID_def OpGetCredList_def
      OpRemoveCred_def OpStore_def OpInitialize_def OpDestroy_def OpMITExtensionBase_def)

text \<open>C3: The engine implements the vault. For every library that keeps the contract of a reliable cache: whatever
  the body of a request is, dispatching it changes the owner, the credentials and the TGT by a sequence of
  vault actions of the kinds its opcode allows. So no request but RETRIEVE adds tickets of the KDC, only STORE
  brings in what a client sends, only REMOVE_CRED removes by template, only INITIALIZE and DESTROY empty the
  cache, listings do no more than maintenance, and every other request, malformed ones included, nothing.\<close>

theorem dispatch_refines_vault:
  assumes "reliable_ccache L entries owner" "tgt_known L c"
    "dispatch (krb5c_engine L) s now body (c, w) = (r, c', w')"
  shows "(acts L (allowed (request_op body)))\<^sup>*\<^sup>* (vault_of entries owner c w) (vault_of entries owner c' w') \<and>
    tgt_known L c'"
proof -
  have "suffices op (allowed (request_op body))" if "ParseRequestHeader body = Inr (op, rest)" for op rest
    using that allowed_suffices by (auto simp: ParseRequestHeader_def request_op_def split: if_splits)
  moreover have "case (c, w) of (c, w) \<Rightarrow> refines L entries owner (allowed (request_op body)) (vault_of entries owner c w) c w"
    using refines_start [OF assms(2)] by simp
  ultimately show ?thesis
    using reliable_ccache.dispatch_at [OF assms(1), of "allowed (request_op body)" "vault_of entries owner c w" "(c, w)"
        body s now] assms(3)
    by (simp add: refines_def)
qed

end
