(* ===== verification/Daemon_Examples.thy ===== *)
theory Daemon_Examples
  imports Daemon Ref_Examples Renewal Vault
begin

text \<open>
  Concrete instances of the theorems about the server and the daemon, on the reference library.
\<close>

definition ex_server :: server where
  "ex_server = \<lparr>cacheName = ''1000'', cacheUUID = replicate 16 7, srv_uid = 1000, srv_debug = False\<rparr>"


lemma ex_stable: "stable_source ref_lib (FILE_name (srcPath (ex_client h)))"
  by (simp add: ref_stable_source)


definition ex_tgt_mc :: match_credential where
  "ex_tgt_mc = empty_mc\<lparr>HasServer := True,
     Server := \<lparr>Type = 2, Realm = ''R'', Components = [''krbtgt'', ''OTHER'']\<rparr>\<rparr>"

theorem dispatch_refuses_TGT_witness:
  "\<exists>i. dispatch (krb5c_engine ref_lib) ex_server (GoTime 0)
     (request_bytes 2 0 OpRetrieve ''1000'' (PutUint32 1 @ marshal_mcred (ex_tgt_mc, None, None)))
     (ex_client (Some (0, ex_info 36000)), ex_world [ex_tgt 36000] [])
   = (Reply FCCPerm [], (ex_client (Some (0, ex_info 36000)))\<lparr>idle := i\<rparr>, ex_world [ex_tgt 36000] [])"
  by (rule dispatch_refuses_TGT [where mc = ex_tgt_mc and addrs = None and authdata = None, OF refl])
    (simp_all add: ex_tgt_mc_def empty_mc_def encoding_defs isTGTServer_def)

text \<open>NOOP, then GET_DEFAULT_CACHE, in one write.\<close>

lemma ex_serve_all:
  "serve_all (krb5c_engine ref_lib) ex_server clock 0 [[2, 0, 0, 0], [2, 0, 0, 20]] (c, w)
     = ([(0, []), (0, PutCName ''1000'')], c, w)"
proof -
  have "BigEndian_Uint16 [0, 0] = OpNoop" "BigEndian_Uint16 [0, 20] = OpGetDefaultCache"
    by (simp_all add: BigEndian_Uint16_def opcode_defs)
  moreover have "\<not> HasLeadingName OpNoop" "\<not> HasLeadingName OpGetDefaultCache"
    "Supported OpNoop" "Supported OpGetDefaultCache"
    by (simp_all add: HasLeadingName_def opcodesWithName_def Supported_def opcode_defs)
  moreover have "OpGetDefaultCache \<noteq> OpNoop" by (simp add: opcode_defs)
  ultimately show ?thesis
    by (simp add: dispatch_def ParseRequestHeader_def split_name_def handle_def ex_server_def
        krb5c_engine_sel on_pair_def ErrorMessage_def)
qed

theorem handleConn_pipelined_witness:
  "handleConn (krb5c_engine ref_lib) ex_server (\<lambda>_. GoTime 0) (Inr (srv_uid ex_server))
     (concat (map message_bytes [[2, 0, 0, 0], [2, 0, 0, 20]])) \<lparr>sent = [], budget = None\<rparr>
     (ex_client None, ex_world [] [])
   = (Closed, \<lparr>sent = reply_bytes 0 [] @ reply_bytes 0 (PutCName ''1000''), budget = None\<rparr>,
      ex_client None, ex_world [] [])"
  using handleConn_pipelined [where out = "\<lparr>sent = [], budget = None\<rparr>", OF ex_stable [of None] _ _
      ex_serve_all [where clock = "\<lambda>_. GoTime 0" and w = "ex_world [] []"]]
  by (simp add: replies_bytes_def)

text \<open>GET_DEFAULT_CACHE gives a name.\<close>

theorem dispatch_reply_typed_witness:
  "\<exists>payload st. dispatch (krb5c_engine ref_lib) (New ''1000'' 1000 False) (GoTime 0) [2, 0, 0, 20] (ex_client None, ex_world [] [])
      = (Reply 0 payload, st) \<and> payload \<noteq> [] \<and>
     has_type (listed_encoding ref_lib) (retrieved_encoding ref_lib) Cache_name payload"
proof -
  have op: "request_op [2, 0, 0, 20] = OpGetDefaultCache" "reply_type OpGetDefaultCache = Cache_name"
    by (simp_all add: request_op_def BigEndian_Uint16_def reply_type_def opcode_defs)
  have "\<not> HasLeadingName OpGetDefaultCache" "Supported OpGetDefaultCache" "OpGetDefaultCache \<noteq> OpNoop"
    by (simp_all add: HasLeadingName_def opcodesWithName_def Supported_def opcode_defs)
  then have d: "dispatch (krb5c_engine ref_lib) (New ''1000'' 1000 False) (GoTime 0) [2, 0, 0, 20] (ex_client None, ex_world [] [])
      = (Reply 0 (PutCName ''1000''), ex_client None, ex_world [] [])"
    using op(1) by (simp add: dispatch_def ParseRequestHeader_def request_op_def split_name_def handle_def New_def
        krb5c_engine_sel on_pair_def ErrorMessage_def)
  from dispatch_reply_typed [OF _ d] op d show ?thesis by (auto simp: PutCName_def)
qed

text \<open>DESTROY on a cache that holds the TGT in use.\<close>

theorem dispatch_refines_vault_witness:
  "\<exists>r c' w'. dispatch (krb5c_engine ref_lib) ex_server (GoTime 0) [2, 0, 0, 5, 0]
       (ex_client (Some (0, ex_info 36000)), ex_world [ex_tgt 36000] []) = (r, c', w') \<and>
     (acts ref_lib {Reset})\<^sup>*\<^sup>*
       (vault_of ref_entries ref_owner (ex_client (Some (0, ex_info 36000))) (ex_world [ex_tgt 36000] []))
       (vault_of ref_entries ref_owner c' w')"
proof -
  obtain r c' w' where d: "dispatch (krb5c_engine ref_lib) ex_server (GoTime 0) [2, 0, 0, 5, 0]
      (ex_client (Some (0, ex_info 36000)), ex_world [ex_tgt 36000] []) = (r, c', w')"
    using prod_cases3 by blast
  have "tgt_known ref_lib (ex_client (Some (0, ex_info 36000)))"
    by (auto simp: tgt_known_def ex_client_def intro!: exI [of _ "ex_tgt 36000"])
  moreover have "allowed (request_op [2, 0, 0, 5, 0]) = {Reset}"
    by (simp add: allowed_def request_op_def BigEndian_Uint16_def opcode_defs)
  ultimately show ?thesis using dispatch_refines_vault [OF ref.reliable_ccache_axioms _ d] d by auto
qed

section \<open>Start-up\<close>

definition ex_flags :: flags where
  "ex_flags = \<lparr>f_ccache = ''/tmp/cc'', f_socket = ''/run/kcm.socket'', f_logLevel = ''info'', f_minLife = 300 * Second, f_maxConc = 16\<rparr>"

definition ex_options :: options where
  "ex_options = \<lparr>MinTicketLife = f_minLife ex_flags, OwnerUID = 1000, MaxConcurrent = f_maxConc ex_flags\<rparr>"

lemma ex_open:
  "\<exists>c w. Open ref_lib ''/tmp/cc'' ex_options (GoTime 0) (ex_world [] [ex_tgt 50000]) = (Inr c, w) \<and>
     ref_entries w = [clear_renewable (ex_tgt 50000)] \<and> ref_owner w = Some ex_alice \<and> tgt c = Some (0, ex_info 50000)"
proof -
  let ?w = "ex_world [] [ex_tgt 50000]"
  have loc: "isLocalTGT (readPrincipal (cr_client (ex_tgt e))) (readPrincipal (cr_server (ex_tgt e)))" for e
    using ex_local(1) by (simp add: local_tgt_def)
  obtain w1 where init: "ref_initialize workingCacheName (Some ex_alice) ?w = (0, w1)"
    by (simp add: ref_initialize_def)
  then have seq: "ref_seq_get ''FILE:/tmp/cc'' w1 = Inr ([ex_tgt 50000], CCEnd, 0)" "ref_entries w1 = []"
    by (auto simp: ref_defs ex_world_def)
  let ?w2 = "snd (ref_store workingCacheName (clear_renewable (ex_tgt 50000)) w1)"
  have "loadFrom ref_lib ''FILE:/tmp/cc'' now w1 = (Inr (Some (ex_info 50000)), ?w2)" for now
    by (simp add: loadFrom_def seq loadOne_def loc newError_def storeTGT_def ref_store_def)
  moreover have "ref_entries ?w2 = [clear_renewable (ex_tgt 50000)]"
    using seq(2) by (simp add: ref_defs)
  moreover have "ref_owner ?w2 = Some ex_alice"
    using init by (auto simp: ref_defs ref_owner_def)
  moreover have "ref_get_principal ''FILE:/tmp/cc'' ?w = Inr ex_alice"
    "ref_stat ''/tmp/cc'' ?w = Inr (Some 1000)"
    by (simp_all add: ref_defs ref_stat_def ex_world_def)
  ultimately show ?thesis
    using init
    by (simp add: ex_options_def ex_flags_def Open_def open_defaults_def fileOwner_def newKctx_def Let_def
        install_tgt_def new_client_def)
qed

lemma ex_run_open:
  "\<exists>c w. run_open ref_lib ex_flags [] 1000 (GoTime 0) (ex_world [] [ex_tgt 50000]) = (Inr c, w) \<and>
     ref_entries w = [clear_renewable (ex_tgt 50000)]"
proof -
  have "ref_stat ''/tmp/cc'' (ex_world [] [ex_tgt 50000]) = Inr (Some 1000)"
    by (simp add: ref_stat_def ex_world_def)
  then show ?thesis
    using ex_open by (auto simp: run_open_def resolveCcachePath_def checkOwnedByUID_def ex_flags_def ex_options_def)
qed

definition ex_peer :: "u32 \<Rightarrow> peer_calls" where
  "ex_peer uid = \<lparr>pc_SyscallConn = None, pc_Control = None, pc_GetsockoptUcred = Inr uid\<rparr>"

text \<open>One connection is accepted after start-up.\<close>

theorem reachable_TGT_not_renewable_witness:
  "\<exists>c w sv. run_open ref_lib ex_flags [] 1000 (GoTime 0) (ex_world [] [ex_tgt 50000]) = (Inr c, w) \<and>
     (serve_step (krb5c_engine ref_lib) ex_server (maintenance_round ref_lib))\<^sup>*\<^sup>* (start_serving (c, w)) sv \<and>
     sv_conns sv \<noteq> [] \<and> ref_entries (snd (sv_engine sv)) = [clear_renewable (ex_tgt 50000)] \<and>
     (\<forall>e\<in>set (ref_entries (snd (sv_engine sv))). local_tgt e \<longrightarrow>
        same_principal (cr_client e) (ref_owner (snd (sv_engine sv))) \<longrightarrow> cr_ticket_flags e AND tktFlgRenewable = 0)"
proof -
  obtain c w where o: "run_open ref_lib ex_flags [] 1000 (GoTime 0) (ex_world [] [ex_tgt 50000]) = (Inr c, w)"
    "ref_entries w = [clear_renewable (ex_tgt 50000)]"
    using ex_run_open by blast
  let ?sv = "Serve_accept (Inr (new_conn (ex_peer 1000) [] None)) (start_serving (c, w))"
  have s: "(serve_step (krb5c_engine ref_lib) ex_server (maintenance_round ref_lib))\<^sup>*\<^sup>* (start_serving (c, w)) ?sv"
    by (intro r_into_rtranclp serve_step.accept) (simp_all add: start_serving_def)
  have "sv_engine ?sv = (c, w)" "sv_conns ?sv \<noteq> []" by (simp_all add: Serve_accept_def start_serving_def)
  with o reachable_TGT_not_renewable [OF ref.mem_ccache_axioms o(1) s] s show ?thesis by (metis snd_conv)
qed

text \<open>A NOOP from the owner is answered; a foreign peer gets nothing.\<close>

definition ex_conn :: "u32 \<Rightarrow> connection" where
  "ex_conn uid = new_conn (ex_peer uid) [0, 0, 0, 4, 2, 0, 0, 0] None"

lemma ex_foreign:
  "(serve_step (krb5c_engine ref_lib) ex_server bg)\<^sup>*\<^sup>* (start_serving st)
     ((start_serving st)\<lparr>sv_conns := [(ex_conn 1001)\<lparr>cn_state := Ended\<rparr>]\<rparr>)"
proof -
  let ?a = "(start_serving st)\<lparr>sv_conns := [ex_conn 1001]\<rparr>"
  have "serve_step (krb5c_engine ref_lib) ex_server bg (start_serving st) ?a"
    using serve_step.accept [of "start_serving st" "krb5c_engine ref_lib" ex_server bg "ex_peer 1001"
        "[0, 0, 0, 4, 2, 0, 0, 0]" None]
    by (simp add: Serve_accept_def start_serving_def ex_conn_def)
  moreover have "verify_peer ex_server (ex_conn 1001) = (ex_conn 1001)\<lparr>cn_state := Ended\<rparr>"
    by (simp add: verify_peer_def ex_conn_def new_conn_def ex_peer_def ex_server_def verified_peer_def peerUID_def)
  then have "serve_step (krb5c_engine ref_lib) ex_server bg ?a
      ((start_serving st)\<lparr>sv_conns := [(ex_conn 1001)\<lparr>cn_state := Ended\<rparr>]\<rparr>)"
    using serve_step.verify [of ?a 0 "krb5c_engine ref_lib" ex_server bg]
    by (simp add: start_serving_def ex_conn_def new_conn_def)
  ultimately show ?thesis by simp
qed



text \<open>A daemon that is stopped by a signal.\<close>

theorem run_cleans_up_witness:
  "\<exists>events o1. run ref_lib ref_os ex_flags [] 1000 (GoTime 0) None (ex_world [] [ex_tgt 50000]) ex_os = (0, events, o1) \<and>
     Served \<in> set events \<and> orderly events \<and> ro_mode o1 ''/run/kcm.socket'' = None"
proof -
  obtain c w where o: "run_open ref_lib ex_flags [] 1000 (GoTime 0) (ex_world [] [ex_tgt 50000]) = (Inr c, w)"
    using ex_run_open by blast
  have sock: "f_socket ex_flags = ''/run/kcm.socket''" by (simp add: ex_flags_def)
  have dir: "Dir ''/run/kcm.socket'' = ''/run''"
    by (simp add: Dir_def Clean_def rooted_def clean_elems_def clean_step.simps print_path_def)
  obtain events o1 where
    r: "run ref_lib ref_os ex_flags [] 1000 (GoTime 0) None (ex_world [] [ex_tgt 50000]) ex_os = (0, events, o1)"
    and served: "Served \<in> set events"
    by (simp add: run_def o sock dir Listen_def ref_os_defs ex_os_def)
  moreover from served have "events \<noteq> []" by auto
  ultimately show ?thesis
    using run_cleans_up [OF ref_socket.socket_files_axioms r] by (auto simp: ex_flags_def)
qed

text \<open>A renewal is started, an INITIALIZE request drops the TGT, and the KDC's answer then leaves it dropped.\<close>

theorem renewals_exclusive_witness:
  "\<exists>(s :: ref_world shared) started res. sh_renewals s = [Answered started res] \<and> tgt (sh_client s) = None \<and>
     (\<forall>now. tgt (fst (snd (renew_finish ref_lib started now res (sh_client s) (sh_lib s)))) = None)"
proof -
  obtain c w where o: "Open ref_lib ''/tmp/cc'' ex_options (GoTime 0) (ex_world [] [ex_tgt 50000]) = (Inr c, w)"
    "tgt c = Some (0, ex_info 50000)"
    using ex_open by blast
  let ?st = "(0::nat, ex_info 50000)"
  let ?s1 = "\<lparr>sh_client = c\<lparr>renewing := True\<rparr>, sh_lib = w, sh_renewals = [Asking ?st]\<rparr>"
  have "renew_start c = (Inr ?st, c\<lparr>renewing := True\<rparr>)"
    using o(2) Open_inv [OF o(1)] by (simp add: renew_start_def shared_inv_def opened_shared_def)
  then have 1: "shared_step ref_lib (opened_shared c w) ?s1"
    using shared_step.start [of "opened_shared c w" ?st "c\<lparr>renewing := True\<rparr>" ref_lib] by (simp add: opened_shared_def)
  obtain c2 w2 where i: "initialize_cache ref_lib \<lparr>Type = 1, Realm = ''R'', Components = [''bob'']\<rparr> (c\<lparr>renewing := True\<rparr>) w = (Inr (), c2, w2)"
    "tgt c2 = None"
    by (simp add: initialize_cache_def ex_bob ref_initialize_def resetRenewBackoff_def)
  let ?s2 = "\<lparr>sh_client = c2, sh_lib = w2, sh_renewals = [Asking ?st]\<rparr>"
  have 2: "shared_step ref_lib ?s1 ?s2"
    using shared_step.initialize [of ref_lib _ ?s1, simplified, OF i(1)] by simp
  obtain res w3 where r: "renewExchange ref_lib (ti_wire (ex_info 50000)) w2 = (res, w3)" by force
  let ?s3 = "\<lparr>sh_client = c2, sh_lib = w3, sh_renewals = [Answered ?st res]\<rparr>"
  have 3: "shared_step ref_lib ?s2 ?s3"
    using shared_step.answer [of ?s2 "[]" ?st "[]" ref_lib res w3] r by simp
  have "(shared_step ref_lib)\<^sup>*\<^sup>* (opened_shared c w) ?s3"
    using 1 2 3 by (meson converse_rtranclp_into_rtranclp rtranclp.rtrancl_refl)
  note * = renewals_exclusive [OF o(1) this]
  have "tgt (fst (snd (renew_finish ref_lib ?st now res c2 w3))) = None" for now
    using * i(2) by (cases "renew_finish ref_lib ?st now res c2 w3") auto
  then show ?thesis using i(2) by (intro exI [of _ ?s3]) auto
qed

end
