(* ===== verification/Flight.thy ===== *)
theory Flight
  imports Transitions Kcm_Prelude
begin

text \<open>
  \<^verbatim>\<open>internal/krb5c/flight.go\<close>: any number of goroutines inside \<^verbatim>\<open>flightGroup.do\<close>. A goroutine's
  position in the function is its \<open>phase\<close>; a step of the relation is one critical section, the return
  of \<^verbatim>\<open>fn\<close>, the closing of \<^verbatim>\<open>done\<close> or the wake-up of a waiting caller. \<open>runs\<close> records every execution of
  a \<^verbatim>\<open>fn\<close> that was started, in order, with its key. A flight is an address into \<open>store\<close>.
\<close>

type_synonym result = "goerror + byte list"

record flight =
  fl_done :: bool
  fl_result :: "result option" \<comment> \<open>\<^verbatim>\<open>val, err\<close> once \<^verbatim>\<open>fn\<close> returned\<close>

datatype phase =
    Outside
  | Leading string nat  \<comment> \<open>running \<^verbatim>\<open>fn\<close>, outside the mutex\<close>
  | Landed string nat   \<comment> \<open>\<^verbatim>\<open>fn\<close> returned, key still in the map\<close>
  | Closing string nat  \<comment> \<open>key deleted, \<^verbatim>\<open>done\<close> not yet closed\<close>
  | Waiting string nat  \<comment> \<open>joined a flight\<close>
  | Returned string nat result

record group =
  g_m :: "string \<Rightarrow> nat option"
  joined :: nat
  store :: "nat \<Rightarrow> flight"
  next_flight :: nat
  phases :: "nat \<Rightarrow> phase" \<comment> \<open>by goroutine\<close>
  runs :: "(string \<times> nat) list"

definition new_group :: group where
  "new_group = \<lparr>g_m = (\<lambda>_. None), joined = 0, store = (\<lambda>_. \<lparr>fl_done = False, fl_result = None\<rparr>),
     next_flight = 0, phases = (\<lambda>_. Outside), runs = []\<rparr>"

text \<open>The first critical section of \<^verbatim>\<open>do\<close>.\<close>

definition enter :: "nat \<Rightarrow> string \<Rightarrow> group \<Rightarrow> group" where
  "enter t key g =
     (case g_m g key of
        Some f \<Rightarrow> g\<lparr>joined := joined g + 1, phases := (phases g)(t := Waiting key f)\<rparr>
      | None \<Rightarrow>
          (let f = next_flight g in
           g\<lparr>g_m := (g_m g)(key := Some f), store := (store g)(f := \<lparr>fl_done = False, fl_result = None\<rparr>),
             next_flight := Suc f, phases := (phases g)(t := Leading key f),
             runs := runs g @ [(key, f)]\<rparr>))"

text \<open>\<^verbatim>\<open>f.val, f.err = fn()\<close>.\<close>

definition land :: "nat \<Rightarrow> string \<Rightarrow> nat \<Rightarrow> result \<Rightarrow> group \<Rightarrow> group" where
  "land t key f r g =
     g\<lparr>store := (store g)(f := (store g f)\<lparr>fl_result := Some r\<rparr>),
       phases := (phases g)(t := Landed key f)\<rparr>"

text \<open>The second critical section.\<close>

definition delete_key :: "nat \<Rightarrow> string \<Rightarrow> nat \<Rightarrow> group \<Rightarrow> group" where
  "delete_key t key f g = g\<lparr>g_m := (g_m g)(key := None), phases := (phases g)(t := Closing key f)\<rparr>"

text \<open>\<^verbatim>\<open>close(f.done)\<close> and the leader's return.\<close>

definition close_done :: "nat \<Rightarrow> string \<Rightarrow> nat \<Rightarrow> group \<Rightarrow> group" where
  "close_done t key f g =
     g\<lparr>store := (store g)(f := (store g f)\<lparr>fl_done := True\<rparr>),
       phases := (phases g)(t := Returned key f (the (fl_result (store g f))))\<rparr>"

text \<open>\<^verbatim>\<open><-f.done\<close> and the joiner's return.\<close>

definition wake :: "nat \<Rightarrow> string \<Rightarrow> nat \<Rightarrow> group \<Rightarrow> group" where
  "wake t key f g = g\<lparr>phases := (phases g)(t := Returned key f (the (fl_result (store g f))))\<rparr>"

text \<open>The steps of calls that have begun, and with them the first step of a call. A goroutine may call \<^verbatim>\<open>do\<close>
  again after it returned.\<close>

inductive flight_go :: "group \<Rightarrow> group \<Rightarrow> bool" where
  land: "phases g t = Leading key f \<Longrightarrow> flight_go g (land t key f r g)"
| delete: "phases g t = Landed key f \<Longrightarrow> flight_go g (delete_key t key f g)"
| close: "phases g t = Closing key f \<Longrightarrow> flight_go g (close_done t key f g)"
| wake: "phases g t = Waiting key f \<Longrightarrow> fl_done (store g f) \<Longrightarrow> flight_go g (wake t key f g)"

inductive flight_step :: "group \<Rightarrow> group \<Rightarrow> bool" where
  enter: "phases g t = Outside \<or> (\<exists>k f r. phases g t = Returned k f r) \<Longrightarrow> flight_step g (enter t key g)"
| go: "flight_go g g' \<Longrightarrow> flight_step g g'"

section \<open>The invariant\<close>

fun leader_of :: "phase \<Rightarrow> (string \<times> nat) option" where
  "leader_of (Leading key f) = Some (key, f)"
| "leader_of (Landed key f) = Some (key, f)"
| "leader_of (Closing key f) = Some (key, f)"
| "leader_of _ = None"

fun in_map :: "phase \<Rightarrow> (string \<times> nat) option" where
  "in_map (Leading key f) = Some (key, f)"
| "in_map (Landed key f) = Some (key, f)"
| "in_map _ = None"

text \<open>What a phase says about the flight it refers to.\<close>

definition phase_ok :: "group \<Rightarrow> phase \<Rightarrow> bool" where
  "phase_ok g p =
     (case p of
        Outside \<Rightarrow> True
      | Leading key f \<Rightarrow> g_m g key = Some f \<and> \<not> fl_done (store g f) \<and> (key, f) \<in> set (runs g)
      | Landed key f \<Rightarrow>
          g_m g key = Some f \<and> \<not> fl_done (store g f) \<and> fl_result (store g f) \<noteq> None \<and> (key, f) \<in> set (runs g)
      | Closing key f \<Rightarrow>
          (\<forall>k. g_m g k \<noteq> Some f) \<and> \<not> fl_done (store g f) \<and> fl_result (store g f) \<noteq> None \<and>
          (key, f) \<in> set (runs g)
      | Waiting key f \<Rightarrow> (key, f) \<in> set (runs g)
      | Returned key f r \<Rightarrow>
          fl_done (store g f) \<and> fl_result (store g f) = Some r \<and> (key, f) \<in> set (runs g))"

text \<open>The map and the store: flights are numbered in the order they start, and every flight that is not
  finished has exactly one leader, which is in the map until it deletes its key.\<close>

definition runs_ok :: "group \<Rightarrow> bool" where
  "runs_ok g \<longleftrightarrow>
     (\<forall>key f. (key, f) \<in> set (runs g) \<longrightarrow> f < next_flight g) \<and> distinct (map snd (runs g)) \<and>
     (\<forall>f. fl_done (store g f) \<longrightarrow> fl_result (store g f) \<noteq> None)"

definition leaders_ok :: "group \<Rightarrow> bool" where
  "leaders_ok g \<longleftrightarrow>
     (\<forall>t t' key key' f. leader_of (phases g t) = Some (key, f) \<longrightarrow>
        leader_of (phases g t') = Some (key', f) \<longrightarrow> t = t') \<and>
     (\<forall>key f. g_m g key = Some f \<longrightarrow> (\<exists>t. in_map (phases g t) = Some (key, f))) \<and>
     (\<forall>key f. (key, f) \<in> set (runs g) \<longrightarrow>
        fl_done (store g f) \<or> (\<exists>t. leader_of (phases g t) = Some (key, f)))"

definition flight_inv :: "group \<Rightarrow> bool" where
  "flight_inv g \<longleftrightarrow> (\<forall>t. phase_ok g (phases g t)) \<and> runs_ok g \<and> leaders_ok g"

lemma flight_invI:
  assumes "\<And>u. phase_ok g (phases g u)" "runs_ok g"
    "\<And>u u' k k' f. leader_of (phases g u) = Some (k, f) \<Longrightarrow> leader_of (phases g u') = Some (k', f) \<Longrightarrow> u = u'"
    "\<And>k f. g_m g k = Some f \<Longrightarrow> \<exists>u. in_map (phases g u) = Some (k, f)"
    "\<And>k f. (k, f) \<in> set (runs g) \<Longrightarrow> \<not> fl_done (store g f) \<Longrightarrow> \<exists>u. leader_of (phases g u) = Some (k, f)"
  shows "flight_inv g"
  using assms unfolding flight_inv_def leaders_ok_def by metis

lemma flight_invD:
  assumes "flight_inv g"
  shows "phase_ok g (phases g u)" "runs_ok g"
    "leader_of (phases g u) = Some (k, f) \<Longrightarrow> leader_of (phases g u') = Some (k', f) \<Longrightarrow> u = u'"
    "g_m g k = Some f \<Longrightarrow> \<exists>u. in_map (phases g u) = Some (k, f)"
    "(k, f) \<in> set (runs g) \<Longrightarrow> \<not> fl_done (store g f) \<Longrightarrow> \<exists>u. leader_of (phases g u) = Some (k, f)"
  using assms unfolding flight_inv_def leaders_ok_def by metis+

lemma in_map_leader: "in_map p = Some kf \<Longrightarrow> leader_of p = Some kf"
  by (cases p) auto

lemma leader_run:
  assumes "flight_inv g" "leader_of (phases g u) = Some (k, f)"
  shows "(k, f) \<in> set (runs g)" "\<not> fl_done (store g f)" "f < next_flight g"
proof -
  show r: "(k, f) \<in> set (runs g)" and "\<not> fl_done (store g f)"
    using flight_invD(1) [OF assms(1), of u] assms(2) by (auto simp: phase_ok_def split: phase.splits)
  then show "f < next_flight g" using flight_invD(2) [OF assms(1)] by (auto simp: runs_ok_def)
qed

lemma map_run:
  assumes "flight_inv g" "g_m g k = Some f"
  shows "(k, f) \<in> set (runs g)"
proof -
  obtain u where "in_map (phases g u) = Some (k, f)" using flight_invD(4) [OF assms] ..
  then show ?thesis using leader_run(1) [OF assms(1)] in_map_leader by blast
qed

text \<open>A flight is in the map under one key only.\<close>

lemma g_m_inject:
  assumes "flight_inv g" "g_m g k = Some f" "g_m g k' = Some f"
  shows "k = k'"
proof -
  obtain u u' where u: "in_map (phases g u) = Some (k, f)" "in_map (phases g u') = Some (k', f)"
    using flight_invD(4) [OF assms(1)] assms(2,3) by metis
  then have "u = u'" using flight_invD(3) [OF assms(1)] in_map_leader by metis
  with u show ?thesis by simp
qed

text \<open>The flight a phase refers to was started before.\<close>

lemma phase_bound:
  assumes "flight_inv g"
  shows "phases g u \<noteq> Leading k (next_flight g)" "phases g u \<noteq> Landed k (next_flight g)"
    "phases g u \<noteq> Closing k (next_flight g)" "phases g u \<noteq> Waiting k (next_flight g)"
    "phases g u \<noteq> Returned k (next_flight g) r"
proof -
  have "(k, next_flight g) \<notin> set (runs g)" for k
    using flight_invD(2) [OF assms] unfolding runs_ok_def by blast
  then show "phases g u \<noteq> Leading k (next_flight g)" "phases g u \<noteq> Landed k (next_flight g)"
    "phases g u \<noteq> Closing k (next_flight g)" "phases g u \<noteq> Waiting k (next_flight g)"
    "phases g u \<noteq> Returned k (next_flight g) r"
    using flight_invD(1) [OF assms, of u] by (auto simp: phase_ok_def)
qed

section \<open>Every step keeps it\<close>

text \<open>A step moves one goroutine \<open>t\<close> to the phase \<open>p\<close>. It keeps the invariant if \<open>p\<close> leads what \<open>t\<close> led
  before or a flight nobody leads, and every key of the map and every unfinished flight is led by \<open>t\<close> or
  was there before, led by another goroutine.\<close>

lemma flight_inv_moveI:
  assumes inv: "flight_inv g" and ph: "phases g' = (phases g)(t := p)"
    and ok: "\<And>u. phase_ok g' (phases g' u)" "runs_ok g'"
    and lead: "\<And>k f. leader_of p = Some (k, f) \<Longrightarrow>
      leader_of (phases g t) = Some (k, f) \<or> (\<forall>u k'. leader_of (phases g u) \<noteq> Some (k', f))"
    and m: "\<And>k f. g_m g' k = Some f \<Longrightarrow>
      in_map p = Some (k, f) \<or> g_m g k = Some f \<and> in_map (phases g t) \<noteq> Some (k, f)"
    and run: "\<And>k f. (k, f) \<in> set (runs g') \<Longrightarrow> \<not> fl_done (store g' f) \<Longrightarrow>
      leader_of p = Some (k, f) \<or>
      (k, f) \<in> set (runs g) \<and> \<not> fl_done (store g f) \<and> leader_of (phases g t) \<noteq> Some (k, f)"
  shows "flight_inv g'"
proof (rule flight_invI [OF ok])
  show "u = u'" if u: "leader_of (phases g' u) = Some (k, f)" and u': "leader_of (phases g' u') = Some (k', f)"
    for u u' k k' f
  proof (rule ccontr)
    assume "u \<noteq> u'"
    then consider "u = t" "u' \<noteq> t" | "u' = t" "u \<noteq> t" | "u \<noteq> t" "u' \<noteq> t" by blast
    then show False
      using lead flight_invD(3) [OF inv] u u' \<open>u \<noteq> u'\<close>
      by cases (simp_all add: ph, metis+)
  qed
  show "\<exists>u. in_map (phases g' u) = Some (k, f)" if "g_m g' k = Some f" for k f
    using m [OF that] flight_invD(4) [OF inv, of k f] unfolding ph by (metis fun_upd_other fun_upd_same)
  show "\<exists>u. leader_of (phases g' u) = Some (k, f)" if "(k, f) \<in> set (runs g')" "\<not> fl_done (store g' f)" for k f
    using run [OF that] flight_invD(5) [OF inv, of k f] unfolding ph by (metis fun_upd_other fun_upd_same)
qed

lemma enter_join_inv:
  assumes "flight_inv g" "leader_of (phases g t) = None" "g_m g key = Some f"
  shows "flight_inv (enter t key g)"
proof (rule flight_inv_moveI [OF assms(1), of _ t "Waiting key f"])
  have g': "enter t key g = g\<lparr>joined := joined g + 1, phases := (phases g)(t := Waiting key f)\<rparr>"
    using assms(3) by (simp add: enter_def)
  show "phase_ok (enter t key g) (phases (enter t key g) u)" for u
    using flight_invD(1) [OF assms(1), of u] map_run [OF assms(1,3)]
    by (auto simp: g' phase_ok_def split: phase.splits)
  show "runs_ok (enter t key g)"
    using flight_invD(2) [OF assms(1)] by (simp add: g' runs_ok_def)
  show "phases (enter t key g) = (phases g)(t := Waiting key f)" by (simp add: g')
qed (use assms in_map_leader [of "phases g t"] in \<open>auto simp: enter_def\<close>)

lemma enter_lead_inv:
  assumes "flight_inv g" "leader_of (phases g t) = None" "g_m g key = None"
  shows "flight_inv (enter t key g)"
proof (rule flight_inv_moveI [OF assms(1), of _ t "Leading key (next_flight g)"])
  let ?f = "next_flight g"
  have g': "enter t key g =
      g\<lparr>g_m := (g_m g)(key := Some ?f), store := (store g)(?f := \<lparr>fl_done = False, fl_result = None\<rparr>),
        next_flight := Suc ?f, phases := (phases g)(t := Leading key ?f), runs := runs g @ [(key, ?f)]\<rparr>"
    using assms(3) by (simp add: enter_def Let_def)
  show "phase_ok (enter t key g) (phases (enter t key g) u)" for u
    using flight_invD(1) [OF assms(1), of u] phase_bound [OF assms(1), of u] assms(3)
    by (auto simp: g' phase_ok_def split: phase.splits)
  show "runs_ok (enter t key g)"
    using flight_invD(2) [OF assms(1)] by (fastforce simp: g' runs_ok_def)
  show "phases (enter t key g) = (phases g)(t := Leading key ?f)" by (simp add: g')
  show "leader_of (phases g t) = Some (k, f) \<or> (\<forall>u k'. leader_of (phases g u) \<noteq> Some (k', f))"
    if "leader_of (Leading key ?f) = Some (k, f)" for k f
    using that leader_run(3) [OF assms(1)] by fastforce
  show "in_map (Leading key ?f) = Some (k, f) \<or> g_m g k = Some f \<and> in_map (phases g t) \<noteq> Some (k, f)"
    if "g_m (enter t key g) k = Some f" for k f
    using that assms(2) in_map_leader [of "phases g t"] by (auto simp: g' split: if_splits)
  show "leader_of (Leading key ?f) = Some (k, f) \<or>
      (k, f) \<in> set (runs g) \<and> \<not> fl_done (store g f) \<and> leader_of (phases g t) \<noteq> Some (k, f)"
    if "(k, f) \<in> set (runs (enter t key g))" "\<not> fl_done (store (enter t key g) f)" for k f
    using that assms(2) flight_invD(2) [OF assms(1)] by (fastforce simp: g' runs_ok_def split: if_splits)
qed

lemma land_inv:
  assumes "flight_inv g" "phases g t = Leading key f"
  shows "flight_inv (land t key f r g)"
proof (rule flight_inv_moveI [OF assms(1), of _ t "Landed key f"])
  let ?g = "land t key f r g"
  have others: "leader_of (phases g u) \<noteq> Some (k, f)" if "u \<noteq> t" for u k
    using that assms(2) flight_invD(3) [OF assms(1), of t key f] by fastforce
  show "phase_ok ?g (phases ?g u)" for u
    using flight_invD(1) [OF assms(1), of u] flight_invD(1) [OF assms(1), of t] assms(2) others [of u]
    by (auto simp: land_def phase_ok_def split: phase.splits)
  show "runs_ok ?g"
    using flight_invD(2) [OF assms(1)] by (auto simp: land_def runs_ok_def)
qed (use assms(2) in \<open>auto simp: land_def split: if_splits\<close>)

lemma delete_key_inv:
  assumes "flight_inv g" "phases g t = Landed key f"
  shows "flight_inv (delete_key t key f g)"
proof (rule flight_inv_moveI [OF assms(1), of _ t "Closing key f"])
  let ?g = "delete_key t key f g"
  have t: "phase_ok g (Landed key f)" using flight_invD(1) [OF assms(1), of t] assms(2) by simp
  then have m: "g_m g key = Some f" by (simp add: phase_ok_def)
  have gone: "g_m ?g k \<noteq> Some f" for k
    using g_m_inject [OF assms(1) m] by (auto simp: delete_key_def)
  have other: "in_map (phases g u) \<noteq> Some (key, f')" if "u \<noteq> t" for u f'
  proof
    assume u: "in_map (phases g u) = Some (key, f')"
    then have "g_m g key = Some f'"
      using flight_invD(1) [OF assms(1), of u] by (cases "phases g u") (auto simp: phase_ok_def)
    with u m have "leader_of (phases g u) = Some (key, f)" by (simp add: in_map_leader)
    with that assms(2) flight_invD(3) [OF assms(1), of t key f] show False by fastforce
  qed
  show "phase_ok ?g (phases ?g u)" for u
  proof (cases "u = t")
    case True
    then show ?thesis using t gone by (simp add: delete_key_def phase_ok_def)
  next
    case False
    then show ?thesis
      using flight_invD(1) [OF assms(1), of u] other [OF False]
      by (cases "phases g u") (auto simp: delete_key_def phase_ok_def)
  qed
  show "runs_ok ?g"
    using flight_invD(2) [OF assms(1)] by (simp add: delete_key_def runs_ok_def)
qed (use assms(2) in \<open>auto simp: delete_key_def split: if_splits\<close>)

lemma close_done_inv:
  assumes "flight_inv g" "phases g t = Closing key f"
  shows "flight_inv (close_done t key f g)"
proof (rule flight_inv_moveI [OF assms(1), of _ t "Returned key f (the (fl_result (store g f)))"])
  let ?g = "close_done t key f g"
  have t: "phase_ok g (Closing key f)" using flight_invD(1) [OF assms(1), of t] assms(2) by simp
  have others: "leader_of (phases g u) \<noteq> Some (k, f)" if "u \<noteq> t" for u k
    using that assms(2) flight_invD(3) [OF assms(1), of t key f] by fastforce
  show "phase_ok ?g (phases ?g u)" for u
    using flight_invD(1) [OF assms(1), of u] t others [of u]
    by (auto simp: close_done_def phase_ok_def split: phase.splits)
  show "runs_ok ?g"
    using flight_invD(2) [OF assms(1)] t by (auto simp: close_done_def runs_ok_def phase_ok_def)
qed (use assms(2) in \<open>auto simp: close_done_def split: if_splits\<close>)

lemma wake_inv:
  assumes "flight_inv g" "phases g t = Waiting key f" "fl_done (store g f)"
  shows "flight_inv (wake t key f g)"
proof (rule flight_inv_moveI [OF assms(1), of _ t "Returned key f (the (fl_result (store g f)))"])
  let ?g = "wake t key f g"
  have "fl_result (store g f) \<noteq> None" using flight_invD(2) [OF assms(1)] assms(3) by (auto simp: runs_ok_def)
  then show "phase_ok ?g (phases ?g u)" for u
    using flight_invD(1) [OF assms(1), of u] flight_invD(1) [OF assms(1), of t] assms(2,3)
    by (auto simp: wake_def phase_ok_def split: phase.splits)
  show "runs_ok ?g"
    using flight_invD(2) [OF assms(1)] by (simp add: wake_def runs_ok_def)
qed (use assms(2) in \<open>auto simp: wake_def split: if_splits\<close>)

lemma flight_go_inv: "flight_inv g \<Longrightarrow> flight_go g g' \<Longrightarrow> flight_inv g'"
  by (erule flight_go.cases) (simp_all add: land_inv delete_key_inv close_done_inv wake_inv)

lemma flight_step_inv:
  assumes "flight_inv g" "flight_step g g'"
  shows "flight_inv g'"
  using assms(2)
proof cases
  case (enter t key)
  then have "leader_of (phases g t) = None" by auto
  with enter assms(1) show ?thesis
    by (cases "g_m g key") (simp_all add: enter_join_inv enter_lead_inv)
qed (rule flight_go_inv [OF assms(1)])

lemma new_group_inv: "flight_inv new_group"
  by (simp add: flight_inv_def new_group_def phase_ok_def runs_ok_def leaders_ok_def)

interpretation coalescing: invariant_system "\<lambda>g. g = new_group" flight_step flight_inv
  by unfold_locales (auto simp: new_group_inv intro: flight_step_inv)

section \<open>What callers see\<close>

lemma runs_key_unique:
  assumes "runs_ok g" "(k, f) \<in> set (runs g)" "(k', f) \<in> set (runs g)"
  shows "k = k'"
  using assms unfolding runs_ok_def by (metis distinct_map inj_on_def prod.sel(2) prod.inject)

lemma count_list_distinct: "distinct xs \<Longrightarrow> x \<in> set xs \<Longrightarrow> count_list xs x = 1"
  by (induction xs) (auto simp: count_list_0_iff)

text \<open>C15: In every state that concurrent calls of \<^verbatim>\<open>flightGroup.do\<close> can reach, at most one \<^verbatim>\<open>fn\<close> runs for a
  key; a call never joins a flight that is already done; and all calls that returned from one flight asked
  for the same key and got the same result, that of the single \<^verbatim>\<open>fn\<close> started for it.\<close>

theorem do_coalesces:
  assumes "flight_step\<^sup>*\<^sup>* new_group g"
  shows "(\<forall>t t' key f f'. phases g t = Leading key f \<longrightarrow> phases g t' = Leading key f' \<longrightarrow> t = t') \<and>
    (\<forall>key f. g_m g key = Some f \<longrightarrow> \<not> fl_done (store g f)) \<and>
    (\<forall>t t' key key' f r r'. phases g t = Returned key f r \<longrightarrow> phases g t' = Returned key' f r' \<longrightarrow>
      key = key' \<and> r = r' \<and> fl_result (store g f) = Some r \<and> count_list (runs g) (key, f) = 1)"
proof (intro conjI allI impI)
  have inv: "flight_inv g" using coalescing.reachable_inv [OF refl assms] .
  show "t = t'" if t: "phases g t = Leading key f" "phases g t' = Leading key f'" for t t' key f f'
  proof -
    have "f = f'" using flight_invD(1) [OF inv, of t] flight_invD(1) [OF inv, of t'] t by (simp add: phase_ok_def)
    then show ?thesis using flight_invD(3) [OF inv, of t key f t' key] t by simp
  qed
  show "\<not> fl_done (store g f)" if "g_m g key = Some f" for key f
    using flight_invD(4) [OF inv that] in_map_leader leader_run(2) [OF inv] by blast
  fix t t' key key' f r r'
  assume t: "phases g t = Returned key f r" "phases g t' = Returned key' f r'"
  have ok: "phase_ok g (Returned key f r)" "phase_ok g (Returned key' f r')"
    using flight_invD(1) [OF inv, of t] flight_invD(1) [OF inv, of t'] t by simp_all
  then show "fl_result (store g f) = Some r" "r = r'" by (simp_all add: phase_ok_def)
  show "key = key'" using ok runs_key_unique [OF flight_invD(2) [OF inv]] by (auto simp: phase_ok_def)
  have "distinct (runs g)" using flight_invD(2) [OF inv] by (simp add: runs_ok_def distinct_map)
  then show "count_list (runs g) (key, f) = 1" using ok by (simp add: phase_ok_def count_list_distinct)
qed

section \<open>Every call returns\<close>

fun phases_left :: "phase \<Rightarrow> nat" where
  "phases_left (Leading _ _) = 3"
| "phases_left (Landed _ _) = 2"
| "phases_left (Closing _ _) = 1"
| "phases_left (Waiting _ _) = 1"
| "phases_left _ = 0"

definition active :: "group \<Rightarrow> nat set" where
  "active g = {t. phases_left (phases g t) \<noteq> 0}"

definition flight_effort :: "group \<Rightarrow> nat" where
  "flight_effort g = (\<Sum>t\<in>active g. phases_left (phases g t))"

definition live_group :: "group \<Rightarrow> bool" where
  "live_group g \<longleftrightarrow> flight_inv g \<and> finite (active g)"

lemma active_move: "phases g' = (phases g)(t := p) \<Longrightarrow> active g' \<subseteq> insert t (active g)"
  by (auto simp: active_def)

lemma flight_effort_move:
  assumes "finite (active g)" "phases g' = (phases g)(t := p)" "phases_left p < phases_left (phases g t)"
  shows "flight_effort g' < flight_effort g"
proof -
  have t: "t \<in> active g" using assms(3) by (simp add: active_def)
  then have "active g' \<subseteq> active g" using active_move [OF assms(2)] by auto
  then have "flight_effort g' = (\<Sum>t\<in>active g. phases_left (phases g' t))"
    unfolding flight_effort_def using assms(1) by (intro sum.mono_neutral_left) (auto simp: active_def)
  also have "\<dots> < flight_effort g"
    unfolding flight_effort_def using assms t by (intro sum_strict_mono_ex1) auto
  finally show ?thesis .
qed

text \<open>Every step moves one goroutine, and a step of a call in progress moves it closer to its return.\<close>

lemma flight_go_moves:
  assumes "flight_go g g'"
  obtains t p where "phases g' = (phases g)(t := p)" "phases_left p < phases_left (phases g t)"
  using assms
  by cases (auto simp: land_def delete_key_def close_done_def wake_def intro: that)

lemma flight_step_active:
  assumes "flight_step g g'" "finite (active g)"
  shows "finite (active g')"
  using assms(1)
proof cases
  case (enter t key)
  then obtain p where "phases g' = (phases g)(t := p)" by (cases "g_m g key") (simp_all add: enter_def Let_def)
  then have "active g' \<subseteq> insert t (active g)" by (rule active_move)
  then show ?thesis using assms(2) by (simp add: finite_subset)
next
  case go
  then obtain t p where "phases g' = (phases g)(t := p)" by (rule flight_go_moves)
  then show ?thesis using active_move assms(2) by (metis finite_insert finite_subset)
qed

definition all_returned :: "group \<Rightarrow> bool" where
  "all_returned g \<longleftrightarrow> active g = {}"

lemma flight_go_progress:
  assumes "flight_inv g" "\<not> all_returned g"
  shows "\<exists>g'. flight_go g g'"
proof -
  have leader: "\<exists>g'. flight_go g g'" if "leader_of (phases g t) = Some (key, f)" for t key f
    using that by (cases "phases g t") (auto intro: flight_go.intros)
  obtain t where "phases_left (phases g t) \<noteq> 0" using assms(2) by (auto simp: all_returned_def active_def)
  then show ?thesis
  proof (cases "phases g t")
    case (Waiting key f)
    then have "(key, f) \<in> set (runs g)" using flight_invD(1) [OF assms(1), of t] by (simp add: phase_ok_def)
    then show ?thesis
      using flight_go.wake [OF Waiting] flight_invD(5) [OF assms(1)] leader by blast
  qed (use leader [of t] in auto)
qed

lemma new_group_live: "live_group new_group"
proof -
  have "active new_group = {}" by (simp add: active_def new_group_def)
  then show ?thesis by (simp add: live_group_def new_group_inv)
qed

lemma flight_go_effort: "live_group g \<Longrightarrow> flight_go g g' \<Longrightarrow> flight_effort g' < flight_effort g"
  by (erule flight_go_moves) (simp add: live_group_def flight_effort_move)

interpretation live: invariant_system "\<lambda>g. g = new_group" flight_step live_group
  by unfold_locales (auto simp: new_group_live, auto simp: live_group_def intro: flight_step_inv flight_step_active)

interpretation flight_calls: terminating_system live_group flight_go live_group flight_effort all_returned
  by unfold_locales
    (auto simp: flight_go_effort live_group_def flight_go_inv flight_go_progress
      intro: flight_step_active [OF flight_step.go])

text \<open>C16: No caller of \<^verbatim>\<open>flightGroup.do\<close> is left waiting. From every state that concurrent calls can reach, if no new
  call begins and every \<^verbatim>\<open>fn\<close> that was started returns, then the calls in progress make only so many steps, in
  whatever order; and as long as one of them has not returned, one of them can move on.\<close>

theorem do_terminates:
  assumes "flight_step\<^sup>*\<^sup>* new_group g" "(flight_go ^^ k) g g'"
  shows "k \<le> flight_effort g \<and>
    ((\<forall>t. phases g' t = Outside \<or> (\<exists>key f r. phases g' t = Returned key f r)) \<or> (\<exists>g''. flight_go g' g''))"
proof -
  have "phases_left p = 0 \<Longrightarrow> p = Outside \<or> (\<exists>key f r. p = Returned key f r)" for p by (cases p) auto
  then have "all_returned g' \<Longrightarrow> phases g' t = Outside \<or> (\<exists>key f r. phases g' t = Returned key f r)" for t
    by (simp add: all_returned_def active_def)
  then show ?thesis using flight_calls.run_stops [OF assms(2)] live.reachable_inv [OF refl assms(1)] by blast
qed

section \<open>A run\<close>

definition joined_group :: group where
  "joined_group = enter 1 ''k'' (enter 0 ''k'' new_group)"

definition served_group :: group where
  "served_group = wake 1 ''k'' 0 (close_done 0 ''k'' 0 (delete_key 0 ''k'' 0 (land 0 ''k'' 0 (Inr [7]) joined_group)))"

lemmas flight_eval = joined_group_def served_group_def new_group_def enter_def land_def delete_key_def
  close_done_def wake_def

lemma joined_group_reachable: "flight_step\<^sup>*\<^sup>* new_group joined_group"
proof -
  have "flight_step new_group (enter 0 ''k'' new_group)"
    by (rule flight_step.enter) (simp add: flight_eval)
  moreover have "flight_step (enter 0 ''k'' new_group) joined_group"
    unfolding joined_group_def by (rule flight_step.enter) (simp add: flight_eval)
  ultimately show ?thesis by (rule rtranclp.rtrancl_into_rtrancl [OF r_into_rtranclp])
qed

lemma joined_group_run: "(flight_go ^^ 4) joined_group served_group"
proof -
  let ?a = "land 0 ''k'' 0 (Inr [7]) joined_group"
  let ?b = "delete_key 0 ''k'' 0 ?a"
  let ?c = "close_done 0 ''k'' 0 ?b"
  have "flight_go joined_group ?a" by (rule flight_go.land) (simp add: flight_eval)
  moreover have "flight_go ?a ?b" by (rule flight_go.delete) (simp add: flight_eval)
  moreover have "flight_go ?b ?c" by (rule flight_go.close) (simp add: flight_eval)
  moreover have "flight_go ?c served_group"
    unfolding served_group_def by (rule flight_go.wake) (simp_all add: flight_eval)
  moreover have "(4 :: nat) = Suc (Suc (Suc (Suc 0)))" by simp
  ultimately show ?thesis by (auto simp only: relpowp.simps)
qed

lemma served_group_reachable: "flight_step\<^sup>*\<^sup>* new_group served_group"
proof -
  have "flight_go\<^sup>*\<^sup>* joined_group served_group" using joined_group_run by (rule relpowp_imp_rtranclp)
  then have "flight_step\<^sup>*\<^sup>* joined_group served_group"
    by (rule mono_rtranclp [rule_format, rotated]) (rule flight_step.go)
  then show ?thesis using joined_group_reachable by simp
qed

theorem do_coalesces_witness:
  "phases served_group 0 = Returned ''k'' 0 (Inr [7]) \<and> phases served_group 1 = Returned ''k'' 0 (Inr [7]) \<and>
   count_list (runs served_group) (''k'', 0) = 1"
proof -
  have r: "phases served_group 0 = Returned ''k'' 0 (Inr [7])"
    "phases served_group 1 = Returned ''k'' 0 (Inr [7])" by (simp_all add: flight_eval)
  with do_coalesces [OF served_group_reachable] show ?thesis by blast
qed

theorem do_terminates_witness:
  "flight_effort joined_group = 4 \<and> (flight_go ^^ 4) joined_group served_group \<and> (\<nexists>g. flight_go served_group g)"
proof -
  have "active joined_group = {0, 1}" by (auto simp: active_def flight_eval split: if_splits)
  then have e: "flight_effort joined_group = 4" by (simp add: flight_effort_def flight_eval)
  moreover have "\<nexists>g. flight_go served_group g"
  proof
    assume "\<exists>g. flight_go served_group g"
    then obtain g where "(flight_go ^^ Suc 4) joined_group g" using relpowp_Suc_I [OF joined_group_run] by blast
    from do_terminates [OF joined_group_reachable this] e show False by simp
  qed
  ultimately show ?thesis using joined_group_run by blast
qed

end
