(* ===== verification/Pool.thy ===== *)
theory Pool
  imports Transitions Client
begin

text \<open>
  The pool of contexts of \<^verbatim>\<open>internal/krb5c/krb5c.go\<close>: any number of goroutines inside \<^verbatim>\<open>acquire\<close>,
  \<^verbatim>\<open>release\<close> and \<^verbatim>\<open>Close\<close>, one step per channel operation on \<^verbatim>\<open>sem\<close> and \<^verbatim>\<open>free\<close>. A send to a full channel
  and a receive from an empty one wait, a send to a closed channel panics and a receive from a closed and
  empty one gives nil, as the language has it. Contexts are numbered in the order \<^verbatim>\<open>newKctx\<close> made them.
\<close>

datatype proc =
    Idle
  | Slotted            \<comment> \<open>in \<^verbatim>\<open>acquire\<close>, after \<^verbatim>\<open>c.sem <- struct{}{}\<close>\<close>
  | Creating           \<comment> \<open>in \<^verbatim>\<open>acquire\<close>, no idle context was found\<close>
  | Failing            \<comment> \<open>\<^verbatim>\<open>newKctx\<close> failed, the slot not given back yet\<close>
  | Holding nat        \<comment> \<open>between \<^verbatim>\<open>acquire\<close> and \<^verbatim>\<open>release\<close>\<close>
  | Sent               \<comment> \<open>in \<^verbatim>\<open>release\<close>, the slot not given back yet\<close>
  | Taking nat         \<comment> \<open>in \<^verbatim>\<open>Close\<close>, that many slots taken\<close>
  | Draining           \<comment> \<open>in \<^verbatim>\<open>Close\<close>, \<^verbatim>\<open>free\<close> closed\<close>
  | Closed             \<comment> \<open>returned from the first \<^verbatim>\<open>Close\<close>\<close>
  | Awaiting           \<comment> \<open>a later \<^verbatim>\<open>Close\<close>, inside \<^verbatim>\<open>closeOnce.Do\<close>\<close>
  | Nil_context        \<comment> \<open>\<^verbatim>\<open>acquire\<close> got nil from a closed \<^verbatim>\<open>free\<close>\<close>
  | Panicked           \<comment> \<open>\<^verbatim>\<open>release\<close> sent on a closed \<^verbatim>\<open>free\<close>\<close>

record pool =
  pool_cap :: nat
  sem :: nat
  free :: "nat list"
  free_closed :: bool
  once :: bool         \<comment> \<open>\<^verbatim>\<open>closeOnce\<close> was entered\<close>
  created :: nat
  freed :: "nat list"  \<comment> \<open>contexts given to \<^verbatim>\<open>kctx.free\<close>\<close>
  procs :: "proc list" \<comment> \<open>by goroutine\<close>

text \<open>The pool as \<^verbatim>\<open>Open\<close> leaves it, with its first context idle, and \<open>m\<close> goroutines.\<close>

definition new_pool :: "options \<Rightarrow> nat \<Rightarrow> pool" where
  "new_pool opts m =
     \<lparr>pool_cap = nat (MaxConcurrent (open_defaults opts)), sem = 0, free = [0], free_closed = False, once = False,
      created = 1, freed = [], procs = replicate m Idle\<rparr>"

definition set_proc :: "nat \<Rightarrow> proc \<Rightarrow> pool \<Rightarrow> pool" where
  "set_proc t p P = P\<lparr>procs := (procs P)[t := p]\<rparr>"

section \<open>acquire\<close>

definition acquire_slot :: "nat \<Rightarrow> pool \<Rightarrow> pool" where
  "acquire_slot t P = set_proc t Slotted (P\<lparr>sem := sem P + 1\<rparr>)"

definition acquire_poll :: "nat \<Rightarrow> pool \<Rightarrow> pool" where
  "acquire_poll t P =
     (case free P of
        k # ks \<Rightarrow> set_proc t (Holding k) (P\<lparr>free := ks\<rparr>)
      | [] \<Rightarrow> set_proc t (if free_closed P then Nil_context else Creating) P)"

definition acquire_create :: "nat \<Rightarrow> pool \<Rightarrow> pool" where
  "acquire_create t P = set_proc t (Holding (created P)) (P\<lparr>created := created P + 1\<rparr>)"

definition acquire_fails :: "nat \<Rightarrow> pool \<Rightarrow> pool" where
  "acquire_fails t P = set_proc t Failing P"

definition acquire_unslot :: "nat \<Rightarrow> pool \<Rightarrow> pool" where
  "acquire_unslot t P = set_proc t Idle (P\<lparr>sem := sem P - 1\<rparr>)"

section \<open>release\<close>

definition release_send :: "nat \<Rightarrow> nat \<Rightarrow> pool \<Rightarrow> pool" where
  "release_send t k P =
     (if free_closed P then set_proc t Panicked P else set_proc t Sent (P\<lparr>free := free P @ [k]\<rparr>))"

definition release_unslot :: "nat \<Rightarrow> pool \<Rightarrow> pool" where
  "release_unslot t P = set_proc t Idle (P\<lparr>sem := sem P - 1\<rparr>)"

section \<open>Close\<close>

definition Close_enter :: "nat \<Rightarrow> pool \<Rightarrow> pool" where
  "Close_enter t P = (if once P then set_proc t Awaiting P else set_proc t (Taking 0) (P\<lparr>once := True\<rparr>))"

definition Close_take :: "nat \<Rightarrow> nat \<Rightarrow> pool \<Rightarrow> pool" where
  "Close_take t i P = set_proc t (Taking (Suc i)) (P\<lparr>sem := sem P + 1\<rparr>)"

definition Close_shut :: "nat \<Rightarrow> pool \<Rightarrow> pool" where
  "Close_shut t P = set_proc t Draining (P\<lparr>free_closed := True\<rparr>)"

definition Close_drain :: "nat \<Rightarrow> pool \<Rightarrow> pool" where
  "Close_drain t P =
     (case free P of
        k # ks \<Rightarrow> P\<lparr>free := ks, freed := freed P @ [k]\<rparr>
      | [] \<Rightarrow> set_proc t Closed P)"

text \<open>The steps of calls that have begun, and with them the first step of a call.\<close>

inductive pool_go :: "pool \<Rightarrow> pool \<Rightarrow> bool" where
  poll: "t < length (procs P) \<Longrightarrow> procs P ! t = Slotted \<Longrightarrow> pool_go P (acquire_poll t P)"
| create: "t < length (procs P) \<Longrightarrow> procs P ! t = Creating \<Longrightarrow> pool_go P (acquire_create t P)"
| fails: "t < length (procs P) \<Longrightarrow> procs P ! t = Creating \<Longrightarrow> pool_go P (acquire_fails t P)"
| unslot: "t < length (procs P) \<Longrightarrow> procs P ! t = Failing \<Longrightarrow> 0 < sem P \<Longrightarrow> pool_go P (acquire_unslot t P)"
| send: "t < length (procs P) \<Longrightarrow> procs P ! t = Holding k \<Longrightarrow> free_closed P \<or> length (free P) < pool_cap P \<Longrightarrow>
    pool_go P (release_send t k P)"
| returned: "t < length (procs P) \<Longrightarrow> procs P ! t = Sent \<Longrightarrow> 0 < sem P \<Longrightarrow> pool_go P (release_unslot t P)"
| take: "t < length (procs P) \<Longrightarrow> procs P ! t = Taking i \<Longrightarrow> i < pool_cap P \<Longrightarrow> sem P < pool_cap P \<Longrightarrow>
    pool_go P (Close_take t i P)"
| shut: "t < length (procs P) \<Longrightarrow> procs P ! t = Taking (pool_cap P) \<Longrightarrow> pool_go P (Close_shut t P)"
| drain: "t < length (procs P) \<Longrightarrow> procs P ! t = Draining \<Longrightarrow> pool_go P (Close_drain t P)"
| await: "t < length (procs P) \<Longrightarrow> procs P ! t = Awaiting \<Longrightarrow> Closed \<in> set (procs P) \<Longrightarrow>
    pool_go P (set_proc t Idle P)"

inductive pool_step :: "pool \<Rightarrow> pool \<Rightarrow> bool" where
  slot: "t < length (procs P) \<Longrightarrow> procs P ! t = Idle \<Longrightarrow> sem P < pool_cap P \<Longrightarrow> pool_step P (acquire_slot t P)"
| enter: "t < length (procs P) \<Longrightarrow> procs P ! t = Idle \<Longrightarrow> pool_step P (Close_enter t P)"
| go: "pool_go P P' \<Longrightarrow> pool_step P P'"

section \<open>Counting\<close>

text \<open>What the goroutines hold together: slots of \<open>sem\<close>, a given context, any context, the right to create
  one, and the right to close.\<close>

definition total :: "(proc \<Rightarrow> nat) \<Rightarrow> pool \<Rightarrow> nat" where
  "total f P = sum_list (map f (procs P))"

fun slots :: "nat \<Rightarrow> proc \<Rightarrow> nat" where
  "slots n Idle = 0"
| "slots n Awaiting = 0"
| "slots n (Taking i) = i"
| "slots n Draining = n"
| "slots n Closed = n"
| "slots n _ = 1"

fun has :: "nat \<Rightarrow> proc \<Rightarrow> nat" where
  "has k (Holding k') = (if k = k' then 1 else 0)"
| "has k _ = 0"

fun has_any :: "proc \<Rightarrow> nat" where
  "has_any (Holding _) = 1"
| "has_any _ = 0"

fun creating :: "proc \<Rightarrow> nat" where
  "creating Creating = 1"
| "creating _ = 0"

fun closing :: "proc \<Rightarrow> nat" where
  "closing (Taking _) = 1"
| "closing Draining = 1"
| "closing Closed = 1"
| "closing _ = 0"

fun shut :: "proc \<Rightarrow> nat" where
  "shut Draining = 1"
| "shut Closed = 1"
| "shut _ = 0"

fun finished :: "proc \<Rightarrow> nat" where
  "finished Closed = 1"
| "finished _ = 0"

fun stuck :: "proc \<Rightarrow> nat" where
  "stuck Nil_context = 1"
| "stuck Panicked = 1"
| "stuck _ = 0"

lemma total_ge: "t < length (procs P) \<Longrightarrow> f (procs P ! t) \<le> total f P"
  using elem_le_sum_list [of t "map f (procs P)"] by (simp add: total_def)

lemma total_set_proc:
  assumes "t < length (procs P)"
  shows "total f (set_proc t p P) = total f P - f (procs P ! t) + f p"
proof -
  have "total f (set_proc t p P) = total f P + f p - f (procs P ! t)"
    using assms by (simp add: total_def set_proc_def map_update sum_list_update)
  then show ?thesis using total_ge [OF assms, of f] by simp
qed

lemma set_proc_simps [simp]:
  "pool_cap (set_proc t p P) = pool_cap P" "sem (set_proc t p P) = sem P" "free (set_proc t p P) = free P"
  "free_closed (set_proc t p P) = free_closed P" "once (set_proc t p P) = once P"
  "created (set_proc t p P) = created P" "freed (set_proc t p P) = freed P"
  "length (procs (set_proc t p P)) = length (procs P)"
  by (simp_all add: set_proc_def)

lemma total_fields [simp]:
  "total f (P\<lparr>sem := a\<rparr>) = total f P" "total f (P\<lparr>free := b\<rparr>) = total f P" "total f (P\<lparr>free_closed := c\<rparr>) = total f P"
  "total f (P\<lparr>once := c\<rparr>) = total f P" "total f (P\<lparr>created := a\<rparr>) = total f P" "total f (P\<lparr>freed := b\<rparr>) = total f P"
  by (simp_all add: total_def)

lemma total_two:
  assumes "f Idle = 0" "t < length (procs P)" "u < length (procs P)" "t \<noteq> u"
  shows "f (procs P ! t) + f (procs P ! u) \<le> total f P"
proof -
  have "f (procs P ! u) \<le> total f (set_proc t Idle P)"
    using total_ge [of u "set_proc t Idle P" f] assms(2-) by (simp add: set_proc_def)
  then show ?thesis using assms(1) total_set_proc [OF assms(2), of f Idle] total_ge [OF assms(2), of f] by simp
qed

lemma total_mono: "(\<And>p. f p \<le> g p) \<Longrightarrow> total f P \<le> total g P"
  unfolding total_def by (rule sum_list_mono) simp

lemma finished_shut: "total finished P \<le> total shut P"
proof (rule total_mono)
  show "finished p \<le> shut p" for p by (cases p) auto
qed

lemma shut_closing: "total shut P \<le> total closing P"
proof (rule total_mono)
  show "shut p \<le> closing p" for p by (cases p) auto
qed

lemma total_zero: "total f P = 0 \<longleftrightarrow> (\<forall>p \<in> set (procs P). f p = 0)"
  by (simp add: total_def)

text \<open>Every goroutine inside \<^verbatim>\<open>acquire\<close> or \<^verbatim>\<open>release\<close> or between them has a slot.\<close>

fun busy :: "proc \<Rightarrow> nat" where
  "busy Idle = 0"
| "busy Awaiting = 0"
| "busy (Taking _) = 0"
| "busy Draining = 0"
| "busy Closed = 0"
| "busy _ = 1"

lemma total_busy: "pool_cap P * total shut P + total busy P \<le> total (slots (pool_cap P)) P"
proof -
  have "n * sum_list (map shut ps) + sum_list (map busy ps) \<le> sum_list (map (slots n) ps)" for n ps
  proof (induction ps)
    case (Cons p ps)
    have "n * shut p + busy p \<le> slots n p" by (cases p) auto
    with Cons show ?case by (simp add: algebra_simps)
  qed simp
  then show ?thesis by (simp add: total_def)
qed

lemma total_slotted:
  assumes "t < length (procs P)" "procs P ! t = Slotted"
  shows "total has_any P + total creating P < total busy P"
proof -
  have "has_any p + creating p \<le> busy p" for p by (cases p) auto
  then have "total (\<lambda>p. has_any p + creating p) (set_proc t Idle P) \<le> total busy (set_proc t Idle P)"
    by (rule total_mono)
  then have "total has_any (set_proc t Idle P) + total creating (set_proc t Idle P) \<le> total busy (set_proc t Idle P)"
    by (simp add: total_def sum_list_addf)
  then show ?thesis
    using total_set_proc [OF assms(1), of has_any Idle] total_set_proc [OF assms(1), of creating Idle]
      total_set_proc [OF assms(1), of busy Idle] total_ge [OF assms(1), of busy] assms(2) by simp
qed

section \<open>The invariant\<close>

text \<open>Every context that was created is at exactly one place.\<close>

definition ledger :: "pool \<Rightarrow> bool" where
  "ledger P \<longleftrightarrow>
     (\<forall>k. total (has k) P + count_list (free P) k + count_list (freed P) k = (if k < created P then 1 else 0))"

definition pool_inv :: "pool \<Rightarrow> bool" where
  "pool_inv P \<longleftrightarrow>
     total (slots (pool_cap P)) P = sem P \<and> sem P \<le> pool_cap P \<and>
     ledger P \<and>
     total has_any P + length (free P) + length (freed P) = created P \<and>
     created P + total creating P \<le> pool_cap P \<and>
     total closing P = (if once P then 1 else 0) \<and> total shut P = (if free_closed P then 1 else 0) \<and>
     total stuck P = 0 \<and> (total finished P \<noteq> 0 \<longrightarrow> free P = []) \<and> (\<not> free_closed P \<longrightarrow> freed P = [])"

lemma busy_open:
  assumes "pool_inv P" "t < length (procs P)" "busy (procs P ! t) = 1"
  shows "\<not> free_closed P" "0 < sem P"
  using assms total_busy [of P] total_ge [OF assms(2), of busy]
  by (auto simp: pool_inv_def split: if_splits)

text \<open>Each step lemma computes the totals after the step from the phase before it.\<close>

lemma acquire_slot_inv:
  assumes "pool_inv P" "t < length (procs P)" "procs P ! t = Idle" "sem P < pool_cap P"
  shows "pool_inv (acquire_slot t P)"
  using assms by (simp add: acquire_slot_def pool_inv_def ledger_def total_set_proc)

lemma acquire_poll_inv:
  assumes "pool_inv P" "t < length (procs P)" "procs P ! t = Slotted"
  shows "pool_inv (acquire_poll t P)"
proof -
  have opened: "\<not> free_closed P" using busy_open(1) [OF assms(1,2)] assms(3) by simp
  have "total has_any P + total creating P < pool_cap P"
    using total_slotted [OF assms(2,3)] total_busy [of P] assms(1) by (simp add: pool_inv_def ledger_def)
  moreover have "1 \<le> total (slots (pool_cap P)) P" using total_ge [OF assms(2)] assms(3) by (metis slots.simps(6))
  ultimately show ?thesis
    using assms opened
    by (cases "free P") (auto simp: acquire_poll_def pool_inv_def ledger_def total_set_proc split: if_splits)
qed

lemma acquire_create_inv:
  assumes "pool_inv P" "t < length (procs P)" "procs P ! t = Creating"
  shows "pool_inv (acquire_create t P)"
  using assms total_ge [OF assms(2), of creating] total_ge [OF assms(2), of "slots (pool_cap P)"]
  by (auto simp: acquire_create_def pool_inv_def ledger_def total_set_proc less_Suc_eq)

lemma acquire_fails_inv:
  assumes "pool_inv P" "t < length (procs P)" "procs P ! t = Creating"
  shows "pool_inv (acquire_fails t P)"
  using assms total_ge [OF assms(2), of creating] total_ge [OF assms(2), of "slots (pool_cap P)"]
  by (auto simp: acquire_fails_def pool_inv_def ledger_def total_set_proc)

lemma unslot_inv:
  assumes "pool_inv P" "t < length (procs P)"
  shows "procs P ! t = Failing \<Longrightarrow> pool_inv (acquire_unslot t P)"
    "procs P ! t = Sent \<Longrightarrow> pool_inv (release_unslot t P)"
  using assms by (auto simp: acquire_unslot_def release_unslot_def pool_inv_def ledger_def total_set_proc)

lemma release_send_inv:
  assumes "pool_inv P" "t < length (procs P)" "procs P ! t = Holding k"
  shows "pool_inv (release_send t k P)"
proof -
  have opened: "\<not> free_closed P" using busy_open(1) [OF assms(1,2)] assms(3) by simp
  have h: "1 \<le> total (has k) P" "1 \<le> total has_any P" "1 \<le> total (slots (pool_cap P)) P"
    using total_ge [OF assms(2), of "has k"] total_ge [OF assms(2), of has_any]
      total_ge [OF assms(2), of "slots (pool_cap P)"] assms(3) by simp_all
  have "total (has k') (release_send t k P) + count_list (free (release_send t k P)) k' =
      total (has k') P + count_list (free P) k'" for k'
    using h(1) opened assms(2,3) by (cases "k' = k") (simp_all add: release_send_def total_set_proc)
  moreover have "freed (release_send t k P) = freed P" "created (release_send t k P) = created P"
    by (simp_all add: release_send_def)
  moreover have "ledger P" using assms(1) by (simp add: pool_inv_def)
  ultimately have "ledger (release_send t k P)" unfolding ledger_def by simp
  then show ?thesis
    using assms h(2,3) opened finished_shut [of P] by (auto simp: release_send_def pool_inv_def total_set_proc)
qed

lemma Close_enter_inv:
  assumes "pool_inv P" "t < length (procs P)" "procs P ! t = Idle"
  shows "pool_inv (Close_enter t P)"
  using assms by (simp add: Close_enter_def pool_inv_def ledger_def total_set_proc)

lemma Close_take_inv:
  assumes "pool_inv P" "t < length (procs P)" "procs P ! t = Taking i" "sem P < pool_cap P"
  shows "pool_inv (Close_take t i P)"
  using assms total_ge [OF assms(2), of closing] total_ge [OF assms(2), of "slots (pool_cap P)"]
  by (simp add: Close_take_def pool_inv_def ledger_def total_set_proc)

lemma Close_shut_inv:
  assumes "pool_inv P" "t < length (procs P)" "procs P ! t = Taking (pool_cap P)"
  shows "pool_inv (Close_shut t P)"
proof -
  have "total closing P \<le> 1" using assms(1) by (simp add: pool_inv_def ledger_def split: if_splits)
  then have "total shut P = 0"
    using shut_closing [of "set_proc t Idle P"] assms(2,3) by (simp add: total_set_proc)
  then show ?thesis
    using assms total_ge [OF assms(2), of closing] total_ge [OF assms(2), of "slots (pool_cap P)"]
    by (simp add: Close_shut_def pool_inv_def ledger_def total_set_proc split: if_splits)
qed

lemma Close_drain_inv:
  assumes "pool_inv P" "t < length (procs P)" "procs P ! t = Draining"
  shows "pool_inv (Close_drain t P)"
proof -
  have "1 \<le> total shut P" "1 \<le> total closing P" "pool_cap P \<le> total (slots (pool_cap P)) P"
    using total_ge [OF assms(2), of shut] total_ge [OF assms(2), of closing]
      total_ge [OF assms(2), of "slots (pool_cap P)"] assms(3) by simp_all
  then show ?thesis
    using assms by (cases "free P") (auto simp: Close_drain_def pool_inv_def ledger_def total_set_proc split: if_splits)
qed

lemma await_inv:
  assumes "pool_inv P" "t < length (procs P)" "procs P ! t = Awaiting"
  shows "pool_inv (set_proc t Idle P)"
  using assms by (simp add: pool_inv_def ledger_def total_set_proc)

lemma pool_go_inv: "pool_inv P \<Longrightarrow> pool_go P P' \<Longrightarrow> pool_inv P'"
  by (erule pool_go.cases)
    (simp_all add: acquire_poll_inv acquire_create_inv acquire_fails_inv unslot_inv
      release_send_inv Close_take_inv Close_shut_inv Close_drain_inv await_inv)

lemma pool_step_inv: "pool_inv P \<Longrightarrow> pool_step P P' \<Longrightarrow> pool_inv P'"
  by (erule pool_step.cases) (simp_all add: acquire_slot_inv Close_enter_inv pool_go_inv)

lemma new_pool_inv: "pool_inv (new_pool opts m)"
  by (auto simp: pool_inv_def ledger_def new_pool_def total_def sum_list_replicate open_defaults_def)

interpretation contexts: invariant_system "\<lambda>P. \<exists>opts m. P = new_pool opts m" pool_step pool_inv
  by unfold_locales (auto simp: new_pool_inv intro: pool_step_inv)

section \<open>What callers rely on\<close>

lemmas pool_operations = acquire_slot_def acquire_poll_def acquire_create_def acquire_fails_def acquire_unslot_def
  release_send_def release_unslot_def Close_enter_def Close_take_def Close_shut_def Close_drain_def

lemma pool_go_fields:
  assumes "pool_go P P'"
  shows "pool_cap P' = pool_cap P" "once P' = once P"
  using assms by (cases, simp_all add: pool_operations split: list.split)+

lemma pool_cap_constant:
  assumes "pool_step\<^sup>*\<^sup>* P P'"
  shows "pool_cap P' = pool_cap P"
  using assms
proof (induction rule: rtranclp_induct)
  case (step Q R)
  from step(2) have "pool_cap R = pool_cap Q"
    by cases (simp_all add: pool_operations pool_go_fields(1))
  with step(3) show ?case by simp
qed simp

lemma reachable_pool:
  assumes "pool_step\<^sup>*\<^sup>* (new_pool opts m) P"
  shows "pool_inv P" "pool_cap P = nat (MaxConcurrent (open_defaults opts))"
proof -
  show "pool_inv P" using contexts.reachable_inv assms by blast
  show "pool_cap P = nat (MaxConcurrent (open_defaults opts))"
    using pool_cap_constant [OF assms] by (simp add: new_pool_def)
qed

lemma distinct_countI: "(\<And>k. count_list xs k \<le> 1) \<Longrightarrow> distinct xs"
proof (induction xs)
  case (Cons x xs)
  have "count_list xs k \<le> 1" for k using Cons.prems [of k] by (auto split: if_splits)
  moreover have "x \<notin> set xs" using Cons.prems [of x] by (simp add: count_list_0_iff)
  ultimately show ?case using Cons.IH by simp
qed simp

text \<open>C14: However the calls of \<^verbatim>\<open>acquire\<close>, \<^verbatim>\<open>release\<close> and \<^verbatim>\<open>Close\<close> interleave, a context that a goroutine borrowed
  is borrowed by no other goroutine, not idle in the pool and not freed; giving it back neither waits nor
  panics; no goroutine ever got a nil context; and at most \<^verbatim>\<open>MaxConcurrent\<close> contexts exist.\<close>

theorem pool_exclusive:
  assumes "pool_step\<^sup>*\<^sup>* (new_pool opts m) P" "t < length (procs P)" "procs P ! t = Holding k"
  shows "(\<forall>u. u < length (procs P) \<and> procs P ! u = Holding k \<longrightarrow> u = t) \<and>
    k \<notin> set (free P) \<and> k \<notin> set (freed P) \<and>
    \<not> free_closed P \<and> length (free P) < pool_cap P \<and> 0 < sem P \<and>
    Nil_context \<notin> set (procs P) \<and> Panicked \<notin> set (procs P) \<and>
    created P \<le> nat (MaxConcurrent (open_defaults opts))"
proof (intro conjI allI impI)
  note inv = reachable_pool(1) [OF assms(1)]
  have one: "total (has k) P + count_list (free P) k + count_list (freed P) k \<le> 1" "1 \<le> total (has k) P"
    using inv total_ge [OF assms(2), of "has k"] assms(3) by (simp_all add: pool_inv_def ledger_def)
  then show "k \<notin> set (free P)" "k \<notin> set (freed P)" by (auto simp flip: count_list_0_iff)
  show "u = t" if u: "u < length (procs P) \<and> procs P ! u = Holding k" for u
    using total_two [of "has k" t P u] one u assms(2,3) by (cases "u = t") auto
  show "\<not> free_closed P" "0 < sem P" using busy_open [OF inv assms(2)] assms(3) by simp_all
  have "1 \<le> total has_any P" using total_ge [OF assms(2), of has_any] assms(3) by simp
  then show "length (free P) < pool_cap P" using inv by (auto simp: pool_inv_def)
  have "total stuck P = 0" using inv by (simp add: pool_inv_def)
  then show "Nil_context \<notin> set (procs P)" "Panicked \<notin> set (procs P)" by (auto simp: total_zero)
  show "created P \<le> nat (MaxConcurrent (open_defaults opts))"
    using inv reachable_pool(2) [OF assms(1)] by (simp add: pool_inv_def)
qed

text \<open>C32: When \<^verbatim>\<open>Close\<close> has returned, every context that was ever created has been freed exactly once, none is
  idle in the pool, and no goroutine is inside \<^verbatim>\<open>acquire\<close> or \<^verbatim>\<open>release\<close> or holds a context.\<close>

theorem Close_frees_all:
  assumes "pool_step\<^sup>*\<^sup>* (new_pool opts m) P" "Closed \<in> set (procs P)"
  shows "distinct (freed P) \<and> set (freed P) = {..<created P} \<and> free P = [] \<and>
    (\<forall>p \<in> set (procs P). busy p = 0)"
proof (intro conjI)
  note inv = reachable_pool(1) [OF assms(1)]
  have fin: "1 \<le> total finished P" using assms(2) total_zero [of finished P] by fastforce
  then show f: "free P = []" using inv by (simp add: pool_inv_def)
  have "1 \<le> total shut P" using fin finished_shut [of P] by simp
  then have "total shut P = 1" using inv by (simp add: pool_inv_def split: if_splits)
  then have "pool_cap P + total busy P \<le> total (slots (pool_cap P)) P" using total_busy [of P] by simp
  moreover have "total (slots (pool_cap P)) P \<le> pool_cap P" using inv by (simp add: pool_inv_def)
  ultimately have b: "total busy P = 0" by simp
  then show "\<forall>p \<in> set (procs P). busy p = 0" by (simp add: total_zero)
  have "has k p \<le> busy p" for k p by (cases p) auto
  then have "total (has k) P = 0" for k using total_mono [of "has k" busy P] b by simp
  then have c: "count_list (freed P) k = (if k < created P then 1 else 0)" for k
    using inv f by (simp add: pool_inv_def ledger_def)
  then show "distinct (freed P)" by (intro distinct_countI) simp
  have "k \<in> set (freed P) \<longleftrightarrow> k < created P" for k
    using c [of k] count_list_0_iff [of "freed P" k] by (simp split: if_splits)
  then show "set (freed P) = {..<created P}" by blast
qed

section \<open>Close returns\<close>

text \<open>How many steps a goroutine has left, counting a context it puts back into the pool twice.\<close>

fun steps_left :: "nat \<Rightarrow> proc \<Rightarrow> nat" where
  "steps_left n Slotted = 5"
| "steps_left n Creating = 4"
| "steps_left n (Holding _) = 3"
| "steps_left n Failing = 1"
| "steps_left n Sent = 1"
| "steps_left n (Taking i) = n - i + 2"
| "steps_left n Draining = 1"
| "steps_left n Awaiting = 1"
| "steps_left n _ = 0"

definition pool_effort :: "pool \<Rightarrow> nat" where
  "pool_effort P = total (steps_left (pool_cap P)) P + length (free P)"

fun at_rest :: "proc \<Rightarrow> bool" where
  "at_rest Idle = True"
| "at_rest Closed = True"
| "at_rest _ = False"

definition pool_closed :: "pool \<Rightarrow> bool" where
  "pool_closed P \<longleftrightarrow> Closed \<in> set (procs P) \<and> list_all at_rest (procs P)"

lemma steps_left_total:
  "t < length (procs P) \<Longrightarrow> steps_left (pool_cap P) (procs P ! t) \<le> total (steps_left (pool_cap P)) P"
  by (rule total_ge)

lemma pool_go_effort: "pool_go P P' \<Longrightarrow> pool_effort P' < pool_effort P"
  by (induction rule: pool_go.induct; frule steps_left_total)
    (auto simp: pool_effort_def pool_operations total_set_proc split: list.split)

text \<open>Where no call in progress can move on, nobody is inside \<^verbatim>\<open>acquire\<close> or \<^verbatim>\<open>release\<close> or closing the channel.\<close>

lemma stopped_calm:
  assumes "pool_inv P" "\<nexists>P'. pool_go P P'" "t < length (procs P)"
  shows "busy (procs P ! t) = 0 \<and> procs P ! t \<noteq> Draining"
proof (cases "procs P ! t")
  case (Holding k)
  have "1 \<le> total has_any P" using total_ge [OF assms(3), of has_any] Holding by simp
  then have "length (free P) < pool_cap P" using assms(1) by (auto simp: pool_inv_def)
  with assms(2) pool_go.send [OF assms(3) Holding] show ?thesis by blast
qed (use assms pool_go.intros [OF assms(3)] busy_open(2) [OF assms(1,3)] total_ge [OF assms(3), of stuck] in
    \<open>auto simp: pool_inv_def\<close>)

lemma stopped_not_taking:
  assumes "pool_inv P" "\<nexists>P'. pool_go P P'" "t < length (procs P)"
  shows "procs P ! t \<noteq> Taking i"
proof
  assume i: "procs P ! t = Taking i"
  have "slots n (procs P ! u) = 0" if u: "u < length (procs P)" "u \<noteq> t" for u n
  proof -
    have "closing (procs P ! u) = 0"
      using total_two [of closing t P u] u assms(1,3) i by (auto simp: pool_inv_def split: if_splits)
    then show ?thesis using stopped_calm [OF assms(1,2) u(1)] by (cases "procs P ! u") auto
  qed
  then have "total (slots (pool_cap P)) (set_proc t Idle P) = 0"
    using assms(3) by (auto simp: total_zero set_proc_def in_set_conv_nth nth_list_update)
  then have "sem P = i"
    using total_set_proc [OF assms(3), of "slots (pool_cap P)" Idle] total_ge [OF assms(3), of "slots (pool_cap P)"]
      assms(1) i by (simp add: pool_inv_def)
  moreover from this have "i \<le> pool_cap P" using assms(1) by (simp add: pool_inv_def)
  ultimately show False
    using assms(2) pool_go.take [OF assms(3) i] pool_go.shut [OF assms(3)] i by (metis le_neq_implies_less)
qed

lemma pool_go_progress:
  assumes "pool_inv P" "once P" "\<not> pool_closed P"
  shows "\<exists>P'. pool_go P P'"
proof (rule ccontr)
  assume stop: "\<nexists>P'. pool_go P P'"
  have rest: "at_rest (procs P ! t) \<or> procs P ! t = Awaiting" if "t < length (procs P)" for t
    using stopped_calm [OF assms(1) stop that] stopped_not_taking [OF assms(1) stop that]
    by (cases "procs P ! t") auto
  have "total closing P = 1" using assms(1,2) by (simp add: pool_inv_def)
  then obtain u where u: "u < length (procs P)" "closing (procs P ! u) \<noteq> 0"
    using total_zero [of closing P] by (auto simp: in_set_conv_nth)
  then have closed: "Closed \<in> set (procs P)" using rest [OF u(1)] nth_mem [OF u(1)] by (cases "procs P ! u") auto
  with assms(3) obtain t where "t < length (procs P)" "\<not> at_rest (procs P ! t)"
    by (auto simp: pool_closed_def list_all_length)
  with rest stop pool_go.await closed show False by blast
qed

interpretation pool_calls: terminating_system "\<lambda>P. pool_inv P \<and> once P" pool_go "\<lambda>P. pool_inv P \<and> once P" pool_effort pool_closed
  by unfold_locales (auto simp: pool_go_fields pool_go_inv pool_go_effort pool_go_progress)


section \<open>A run\<close>

definition small_opts :: options where
  "small_opts = \<lparr>MinTicketLife = 0, OwnerUID = -1, MaxConcurrent = 1\<rparr>"

definition held_pool :: pool where
  "held_pool = acquire_poll 0 (acquire_slot 0 (new_pool small_opts 2))"

definition closing_pool :: pool where
  "closing_pool = Close_enter 1 (release_unslot 0 (release_send 0 0 held_pool))"

definition closed_pool :: pool where
  "closed_pool = Close_drain 1 (Close_drain 1 (Close_shut 1 (Close_take 1 0 closing_pool)))"

lemmas pool_eval = held_pool_def closing_pool_def closed_pool_def new_pool_def small_opts_def open_defaults_def acquire_slot_def
  acquire_poll_def release_send_def release_unslot_def Close_enter_def Close_take_def Close_shut_def
  Close_drain_def set_proc_def

lemma held_pool_reachable: "pool_step\<^sup>*\<^sup>* (new_pool small_opts 2) held_pool"
proof -
  have "pool_step (new_pool small_opts 2) (acquire_slot 0 (new_pool small_opts 2))"
    by (rule pool_step.slot) (simp_all add: pool_eval numeral_2_eq_2)
  moreover have "pool_step (acquire_slot 0 (new_pool small_opts 2)) held_pool"
    unfolding held_pool_def by (rule pool_step.go [OF pool_go.poll]) (simp_all add: pool_eval numeral_2_eq_2)
  ultimately show ?thesis by simp
qed

lemma closing_pool_reachable: "pool_step\<^sup>*\<^sup>* (new_pool small_opts 2) closing_pool"
proof -
  let ?a = "release_send 0 0 held_pool"
  let ?b = "release_unslot 0 ?a"
  have "pool_step held_pool ?a" by (rule pool_step.go [OF pool_go.send]) (simp_all add: pool_eval numeral_2_eq_2)
  moreover have "pool_step ?a ?b" by (rule pool_step.go [OF pool_go.returned]) (simp_all add: pool_eval numeral_2_eq_2)
  moreover have "pool_step ?b closing_pool"
    unfolding closing_pool_def by (rule pool_step.enter) (simp_all add: pool_eval numeral_2_eq_2)
  ultimately show ?thesis using held_pool_reachable by (meson rtranclp.rtrancl_into_rtrancl)
qed

lemma closing_pool_run: "(pool_go ^^ 4) closing_pool closed_pool"
proof -
  let ?d = "Close_take 1 0 closing_pool"
  let ?e = "Close_shut 1 ?d"
  let ?f = "Close_drain 1 ?e"
  have "pool_go closing_pool ?d" by (rule pool_go.take) (simp_all add: pool_eval numeral_2_eq_2)
  moreover have "pool_go ?d ?e" by (rule pool_go.shut) (simp_all add: pool_eval numeral_2_eq_2)
  moreover have "pool_go ?e ?f" by (rule pool_go.drain) (simp_all add: pool_eval numeral_2_eq_2)
  moreover have "pool_go ?f closed_pool"
    unfolding closed_pool_def by (rule pool_go.drain) (simp_all add: pool_eval numeral_2_eq_2)
  moreover have "(4 :: nat) = Suc (Suc (Suc (Suc 0)))" by simp
  ultimately show ?thesis by (auto simp only: relpowp.simps)
qed

lemma closed_pool_reachable: "pool_step\<^sup>*\<^sup>* (new_pool small_opts 2) closed_pool"
proof -
  have "pool_go\<^sup>*\<^sup>* closing_pool closed_pool" using closing_pool_run by (rule relpowp_imp_rtranclp)
  then have "pool_step\<^sup>*\<^sup>* closing_pool closed_pool"
    by (rule mono_rtranclp [rule_format, rotated]) (rule pool_step.go)
  then show ?thesis using closing_pool_reachable by simp
qed

theorem pool_exclusive_witness:
  "procs held_pool ! 0 = Holding 0 \<and> 0 \<notin> set (free held_pool) \<and> \<not> free_closed held_pool \<and> created held_pool \<le> 1"
proof -
  have h: "0 < length (procs held_pool)" "procs held_pool ! 0 = Holding 0"
    by (simp_all add: pool_eval numeral_2_eq_2)
  have "nat (MaxConcurrent (open_defaults small_opts)) = 1" by (simp add: small_opts_def open_defaults_def)
  then show ?thesis using pool_exclusive [OF held_pool_reachable h] h(2) by simp
qed

theorem Close_frees_all_witness:
  "Closed \<in> set (procs closed_pool) \<and> distinct (freed closed_pool) \<and>
   set (freed closed_pool) = {..<created closed_pool} \<and> created closed_pool = 1"
proof -
  have h: "Closed \<in> set (procs closed_pool)" "created closed_pool = 1"
    by (simp_all add: pool_eval numeral_2_eq_2)
  then show ?thesis using Close_frees_all [OF closed_pool_reachable h(1)] by blast
qed


end
