(* ===== verification/Locking.thy ===== *)
theory Locking
  imports Transitions
begin

text \<open>
  How the engine's goroutines wait for each other: for a slot of the pool (\<^verbatim>\<open>c.sem\<close>), for the lock \<^verbatim>\<open>c.mu\<close>, and
  for the leader of a flight. An operation is here the sequence of its synchronisation calls (a \<open>path\<close> says
  which of its branches it takes), in the order of \<^verbatim>\<open>krb5c.go\<close>, \<^verbatim>\<open>tgt.go\<close>, \<^verbatim>\<open>ops.go\<close> and \<^verbatim>\<open>flight.go\<close>; what happens
  between the calls is the subject of \<open>Ops\<close>, \<open>Renewal\<close>, \<open>Flight\<close> and \<open>Pool\<close>. \<^verbatim>\<open>sync.RWMutex\<close> holds back new readers
  while a call of \<^verbatim>\<open>Lock\<close> waits, so a reader that waited for another reader to arrive could hang; a \<^verbatim>\<open>RETRIEVE\<close> waits
  for the leader of its flight with the read lock held, and the pool's slots are held across everything.
\<close>

section \<open>Synchronisation calls\<close>

datatype act =
    Slot \<comment> \<open>\<^verbatim>\<open>c.sem <- struct{}{}\<close>\<close>
  | Unslot \<comment> \<open>\<^verbatim>\<open><-c.sem\<close>\<close>
  | RLock
  | RUnlock
  | Lock
  | Locking \<comment> \<open>inside \<^verbatim>\<open>c.mu.Lock()\<close>: new readers are held back, those that were there are waited for\<close>
  | Unlock
  | Do string \<comment> \<open>\<^verbatim>\<open>c.flights.do(key, fn)\<close>\<close>
  | Lead string nat \<comment> \<open>leading the flight with this key and address, until \<^verbatim>\<open>close(f.done)\<close>\<close>
  | Await nat \<comment> \<open>\<^verbatim>\<open><-f.done\<close>\<close>

datatype hold = Free | Read | Write

text \<open>A goroutine: whether it has a slot, what it holds of the lock, and the calls it has left.\<close>

record gor =
  g_slot :: bool
  g_lock :: hold
  g_prog :: "act list"

record sync =
  s_cap :: nat
  s_flights :: "string \<Rightarrow> nat option"
  s_done :: "nat set"
  s_next :: nat
  s_gors :: "gor list"

definition idle_gor :: gor where
  "idle_gor = \<lparr>g_slot = False, g_lock = Free, g_prog = []\<rparr>"

definition new_sync :: "nat \<Rightarrow> nat \<Rightarrow> sync" where
  "new_sync cap n =
     \<lparr>s_cap = cap, s_flights = (\<lambda>_. None), s_done = {}, s_next = 0, s_gors = replicate n idle_gor\<rparr>"

definition taken :: "sync \<Rightarrow> nat" where
  "taken s = length (filter g_slot (s_gors s))"

definition locked_by :: "hold \<Rightarrow> sync \<Rightarrow> bool" where
  "locked_by l s \<longleftrightarrow> (\<exists>g\<in>set (s_gors s). g_lock g = l)"

fun waits_to_lock :: "act list \<Rightarrow> bool" where
  "waits_to_lock (Locking # _) = True"
| "waits_to_lock _ = False"

definition lock_awaited :: "sync \<Rightarrow> bool" where
  "lock_awaited s \<longleftrightarrow> (\<exists>g\<in>set (s_gors s). waits_to_lock (g_prog g))"

abbreviation put :: "nat \<Rightarrow> gor \<Rightarrow> sync \<Rightarrow> sync" where
  "put i g s \<equiv> s\<lparr>s_gors := (s_gors s)[i := g]\<rparr>"

text \<open>One call returns, or a call that has to wait moves on as far as it can.\<close>

inductive act_step :: "nat \<Rightarrow> sync \<Rightarrow> sync \<Rightarrow> bool" for i :: nat and s :: sync where
  slot: "g_prog (s_gors s ! i) = Slot # p \<Longrightarrow> taken s < s_cap s \<Longrightarrow>
    act_step i s (put i ((s_gors s ! i)\<lparr>g_slot := True, g_prog := p\<rparr>) s)"
| unslot: "g_prog (s_gors s ! i) = Unslot # p \<Longrightarrow>
    act_step i s (put i ((s_gors s ! i)\<lparr>g_slot := False, g_prog := p\<rparr>) s)"
| rlock: "g_prog (s_gors s ! i) = RLock # p \<Longrightarrow> \<not> locked_by Write s \<Longrightarrow> \<not> lock_awaited s \<Longrightarrow>
    act_step i s (put i ((s_gors s ! i)\<lparr>g_lock := Read, g_prog := p\<rparr>) s)"
| runlock: "g_prog (s_gors s ! i) = RUnlock # p \<Longrightarrow>
    act_step i s (put i ((s_gors s ! i)\<lparr>g_lock := Free, g_prog := p\<rparr>) s)"
| announce: "g_prog (s_gors s ! i) = Lock # p \<Longrightarrow>
    act_step i s (put i ((s_gors s ! i)\<lparr>g_prog := Locking # p\<rparr>) s)"
| lock: "g_prog (s_gors s ! i) = Locking # p \<Longrightarrow> \<not> locked_by Write s \<Longrightarrow> \<not> locked_by Read s \<Longrightarrow>
    act_step i s (put i ((s_gors s ! i)\<lparr>g_lock := Write, g_prog := p\<rparr>) s)"
| unlock: "g_prog (s_gors s ! i) = Unlock # p \<Longrightarrow>
    act_step i s (put i ((s_gors s ! i)\<lparr>g_lock := Free, g_prog := p\<rparr>) s)"
| do_lead: "g_prog (s_gors s ! i) = Do key # p \<Longrightarrow> s_flights s key = None \<Longrightarrow>
    act_step i s (put i ((s_gors s ! i)\<lparr>g_prog := Lead key (s_next s) # p\<rparr>)
      (s\<lparr>s_flights := (s_flights s)(key := Some (s_next s)), s_next := Suc (s_next s)\<rparr>))"
| do_join: "g_prog (s_gors s ! i) = Do key # p \<Longrightarrow> s_flights s key = Some f \<Longrightarrow>
    act_step i s (put i ((s_gors s ! i)\<lparr>g_prog := Await f # p\<rparr>) s)"
| land: "g_prog (s_gors s ! i) = Lead key f # p \<Longrightarrow>
    act_step i s (put i ((s_gors s ! i)\<lparr>g_prog := p\<rparr>)
      (s\<lparr>s_flights := (s_flights s)(key := None), s_done := insert f (s_done s)\<rparr>))"
| wake: "g_prog (s_gors s ! i) = Await f # p \<Longrightarrow> f \<in> s_done s \<Longrightarrow>
    act_step i s (put i ((s_gors s ! i)\<lparr>g_prog := p\<rparr>) s)"

section \<open>The operations\<close>

text \<open>What \<^verbatim>\<open>renewTGT\<close> comes to within \<^verbatim>\<open>maintain\<close>: it is not called, another renewal is running, the TGT is gone (an
  error that is logged), or the exchange is made, and failed (logged) or not.\<close>

datatype renew_path = Not_due | Busy | No_TGT | Exchanged bool

fun renew_sync :: "renew_path \<Rightarrow> act list" where
  "renew_sync Not_due = []"
| "renew_sync Busy = [Lock, Unlock]"
| "renew_sync No_TGT = [Lock, Unlock] @ [RLock, RUnlock]"
| "renew_sync (Exchanged failed) = [Lock, Unlock] @ [Lock, Unlock] @ (if failed then [RLock, RUnlock] else [])"

definition maintain_sync :: "bool \<Rightarrow> renew_path \<Rightarrow> act list" where
  "maintain_sync reload renew =
     [RLock, RUnlock] @ (if reload then [Lock, Unlock] else []) @ renew_sync renew @ [RLock, RUnlock]"

text \<open>An operation and the branches it takes; \<open>No_context\<close>: \<^verbatim>\<open>newKctx\<close> failed in \<^verbatim>\<open>acquire\<close>.\<close>

datatype path =
    No_context
  | Reading \<comment> \<open>\<^verbatim>\<open>DefaultPrincipal\<close>\<close>
  | Listing bool renew_path \<comment> \<open>\<^verbatim>\<open>ListEntries\<close>, \<^verbatim>\<open>EntryByUUID\<close>, and a \<^verbatim>\<open>Retrieve\<close> without a valid TGT\<close>
  | Retrieving bool renew_path string
  | Updating \<comment> \<open>\<^verbatim>\<open>RemoveByUUID\<close>, \<^verbatim>\<open>RemoveMatching\<close>, \<^verbatim>\<open>Store\<close>, \<^verbatim>\<open>Initialize\<close>\<close>
  | Describing \<comment> \<open>\<^verbatim>\<open>ErrorMessage\<close>, \<^verbatim>\<open>SummarizeCredential\<close>\<close>
  | Status \<comment> \<open>\<^verbatim>\<open>TGT\<close>\<close>
  | Round bool renew_path \<comment> \<open>a round of \<^verbatim>\<open>Run\<close>\<close>
  | Round_skipped

fun op_sync :: "path \<Rightarrow> act list" where
  "op_sync No_context = [Slot, Unslot]"
| "op_sync Reading = [Slot, RLock, RUnlock, Unslot]"
| "op_sync (Listing reload renew) = [Slot] @ maintain_sync reload renew @ [RLock, RUnlock, Unslot]"
| "op_sync (Retrieving reload renew key) = [Slot] @ maintain_sync reload renew @ [RLock, Do key, RUnlock, Unslot]"
| "op_sync Updating = [Slot, Lock, Unlock, Unslot]"
| "op_sync Describing = [Slot, Unslot]"
| "op_sync Status = [RLock, RUnlock]"
| "op_sync (Round reload renew) = [Slot] @ maintain_sync reload renew @ [Unslot, RLock, RUnlock]"
| "op_sync Round_skipped = [Slot, Unslot, RLock, RUnlock]"

text \<open>The system: a goroutine that has nothing left begins the operations of its next request, or any goroutine
  moves on.\<close>

inductive sync_go :: "sync \<Rightarrow> sync \<Rightarrow> bool" where
  "i < length (s_gors s) \<Longrightarrow> act_step i s s' \<Longrightarrow> sync_go s s'"

inductive sync_step :: "sync \<Rightarrow> sync \<Rightarrow> bool" where
  go: "sync_go s s' \<Longrightarrow> sync_step s s'"
| request: "i < length (s_gors s) \<Longrightarrow> g_prog (s_gors s ! i) = [] \<Longrightarrow>
    sync_step s (put i ((s_gors s ! i)\<lparr>g_prog := concat (map op_sync paths)\<rparr>) s)"

section \<open>Calls are balanced\<close>

text \<open>The discipline of the operations: a slot is asked for with nothing held, the lock is never asked for twice,
  and a flight is entered with a slot and the read lock.\<close>

fun holds_after :: "bool \<times> hold \<Rightarrow> act \<Rightarrow> (bool \<times> hold) option" where
  "holds_after (b, l) Slot = (if \<not> b \<and> l = Free then Some (True, Free) else None)"
| "holds_after (b, l) Unslot = (if b \<and> l = Free then Some (False, Free) else None)"
| "holds_after (b, l) RLock = (if l = Free then Some (b, Read) else None)"
| "holds_after (b, l) RUnlock = (if l = Read then Some (b, Free) else None)"
| "holds_after (b, l) Lock = (if l = Free then Some (b, Write) else None)"
| "holds_after (b, l) Locking = (if l = Free then Some (b, Write) else None)"
| "holds_after (b, l) Unlock = (if l = Write then Some (b, Free) else None)"
| "holds_after (b, l) (Do key) = (if l = Read then Some (b, Read) else None)"
| "holds_after (b, l) (Lead key f) = (if l = Read then Some (b, Read) else None)"
| "holds_after (b, l) (Await f) = (if l = Read then Some (b, Read) else None)"

fun holds_at_end :: "bool \<times> hold \<Rightarrow> act list \<Rightarrow> (bool \<times> hold) option" where
  "holds_at_end x [] = Some x"
| "holds_at_end x (a # p) = Option.bind (holds_after x a) (\<lambda>y. holds_at_end y p)"

text \<open>The calls of a program's text; \<open>Locking\<close>, \<open>Lead\<close> and \<open>Await\<close> are only ever the call being made.\<close>

fun in_text :: "act \<Rightarrow> bool" where
  "in_text Locking = False"
| "in_text (Lead _ _) = False"
| "in_text (Await _) = False"
| "in_text _ = True"

definition balanced :: "gor \<Rightarrow> bool" where
  "balanced g \<longleftrightarrow> holds_at_end (g_slot g, g_lock g) (g_prog g) = Some (False, Free) \<and> list_all in_text (tl (g_prog g))"

lemma holds_at_end_append:
  "holds_at_end x (p @ q) = Option.bind (holds_at_end x p) (\<lambda>y. holds_at_end y q)"
  by (induction x p rule: holds_at_end.induct) (auto split: Option.bind_split)

lemma maintain_sync_balanced: "holds_at_end (b, Free) (maintain_sync reload renew) = Some (b, Free)"
  by (cases renew) (auto simp: maintain_sync_def)

lemma op_sync_balanced: "holds_at_end (False, Free) (op_sync path) = Some (False, Free)"
  by (cases path) (simp_all add: holds_at_end_append maintain_sync_balanced)

lemma request_balanced: "holds_at_end (False, Free) (concat (map op_sync paths)) = Some (False, Free)"
  by (induction paths) (simp_all add: holds_at_end_append op_sync_balanced)

lemma request_in_text: "list_all in_text (concat (map op_sync paths))"
proof -
  have "list_all in_text (renew_sync renew)" for renew by (cases renew) auto
  then have "list_all in_text (op_sync path)" for path by (cases path) (auto simp: maintain_sync_def)
  then show ?thesis by (induction paths) auto
qed

lemma list_all_tl: "list_all P xs \<Longrightarrow> list_all P (tl xs)"
  by (cases xs) auto

lemma act_step_gors:
  assumes "act_step i s s'"
  obtains g where "s_gors s' = (s_gors s)[i := g]" "s_cap s' = s_cap s" "balanced (s_gors s ! i) \<Longrightarrow> balanced g"
  using assms by cases (auto simp: balanced_def list_all_tl split: if_splits intro: that)

section \<open>The invariant\<close>

definition leads :: "sync \<Rightarrow> string \<Rightarrow> nat \<Rightarrow> bool" where
  "leads s key f \<longleftrightarrow> (\<exists>i < length (s_gors s). \<exists>p. g_prog (s_gors s ! i) = Lead key f # p)"

definition excludes :: "sync \<Rightarrow> bool" where
  "excludes s \<longleftrightarrow> (\<forall>i < length (s_gors s). \<forall>j < length (s_gors s).
     g_lock (s_gors s ! i) = Write \<longrightarrow> i \<noteq> j \<longrightarrow> g_lock (s_gors s ! j) = Free)"

definition flights_ok :: "sync \<Rightarrow> bool" where
  "flights_ok s \<longleftrightarrow> (\<forall>key f. s_flights s key = Some f \<longrightarrow> leads s key f) \<and>
     (\<forall>i < length (s_gors s). \<forall>f p. g_prog (s_gors s ! i) = Await f # p \<longrightarrow> f \<in> s_done s \<or> (\<exists>key. leads s key f))"

definition sync_inv :: "sync \<Rightarrow> bool" where
  "sync_inv s \<longleftrightarrow> 0 < s_cap s \<and> (\<forall>g\<in>set (s_gors s). balanced g) \<and> excludes s \<and> flights_ok s"

lemma not_locked_by: "\<not> locked_by l s \<Longrightarrow> i < length (s_gors s) \<Longrightarrow> g_lock (s_gors s ! i) \<noteq> l"
  by (auto simp: locked_by_def)

lemma excludesD:
  "excludes s \<Longrightarrow> i < length (s_gors s) \<Longrightarrow> j < length (s_gors s) \<Longrightarrow> g_lock (s_gors s ! i) = Write \<Longrightarrow> i \<noteq> j \<Longrightarrow>
     g_lock (s_gors s ! j) = Free"
  unfolding excludes_def by blast

lemma excludes_less:
  assumes "excludes s" "s_gors s' = (s_gors s)[i := g]" "g_lock g = Free \<or> g_lock g = g_lock (s_gors s ! i)"
  shows "excludes s'"
proof -
  have upd: "g_lock (s_gors s' ! j) = Free \<or> g_lock (s_gors s' ! j) = g_lock (s_gors s ! j)"
    if "j < length (s_gors s)" for j
    using assms(2,3) that by (cases "i = j") auto
  show ?thesis unfolding excludes_def
  proof (intro allI impI)
    fix a b
    assume ab: "a < length (s_gors s')" "b < length (s_gors s')" "g_lock (s_gors s' ! a) = Write" "a \<noteq> b"
    then have len: "a < length (s_gors s)" "b < length (s_gors s)" using assms(2) by simp_all
    have "g_lock (s_gors s ! a) = Write" using ab(3) upd [OF len(1)] by simp
    from excludesD [OF assms(1) len this ab(4)] show "g_lock (s_gors s' ! b) = Free" using upd [OF len(2)] by auto
  qed
qed

lemma excludes_step:
  assumes "act_step i s s'" "excludes s" "i < length (s_gors s)"
  shows "excludes s'"
  using assms(1)
proof (cases rule: act_step.cases)
  case (rlock p)
  have "g_lock (s_gors s' ! j) \<noteq> Write" if "j < length (s_gors s)" for j
    using that assms(3) rlock not_locked_by [of Write s j] by (cases "i = j") auto
  then show ?thesis using rlock by (simp add: excludes_def)
next
  case (lock p)
  have free: "g_lock (s_gors s ! j) = Free" if "j < length (s_gors s)" for j
    using not_locked_by [OF lock(3) that] not_locked_by [OF lock(4) that] by (cases "g_lock (s_gors s ! j)") auto
  have "g_lock (s_gors s' ! j) = Free" if "j < length (s_gors s)" "j \<noteq> i" for j
    using that lock free by simp
  moreover have "g_lock (s_gors s' ! j) = Write \<Longrightarrow> j = i" if "j < length (s_gors s)" for j
    using that lock free by (cases "j = i") auto
  moreover have "length (s_gors s') = length (s_gors s)" using lock by simp
  ultimately show ?thesis unfolding excludes_def by metis
qed (simp_all, (rule excludes_less [OF assms(2)], simp, simp)+)

lemma leads_step:
  assumes "act_step i s s'" "leads s key f"
  shows "leads s' key f \<or> f \<in> s_done s' \<and> s_flights s' key = None"
proof -
  obtain j p where j: "j < length (s_gors s)" "g_prog (s_gors s ! j) = Lead key f # p"
    using assms(2) by (auto simp: leads_def)
  obtain g where g: "s_gors s' = (s_gors s)[i := g]" using assms(1) by (rule act_step_gors)
  show ?thesis
  proof (cases "i = j")
    case True
    from assms(1) show ?thesis by cases (use j True in auto)
  next
    case False
    then show ?thesis using j g by (auto simp: leads_def intro!: exI [of _ j])
  qed
qed

lemma done_mono: "act_step i s s' \<Longrightarrow> s_done s \<subseteq> s_done s'"
  by (cases rule: act_step.cases) auto

lemma flights_ok_step:
  assumes "act_step i s s'" "flights_ok s" "i < length (s_gors s)" "balanced (s_gors s ! i)"
  shows "flights_ok s'"
proof -
  have old: "leads s key f" if "s_flights s key = Some f" for key f
    using assms(2) that by (auto simp: flights_ok_def)
  have aw: "f \<in> s_done s \<or> (\<exists>key. leads s key f)" if "j < length (s_gors s)" "g_prog (s_gors s ! j) = Await f # p" for j f p
    using assms(2) that by (auto simp: flights_ok_def)
  have 1: "leads s' key f" if "s_flights s' key = Some f" for key f
  proof -
    from assms(1) have "s_flights s key = Some f \<or> leads s' key f"
      by cases (use that assms(3) in \<open>auto simp: leads_def split: if_splits\<close>)
    then show ?thesis using old leads_step [OF assms(1)] that by fastforce
  qed
  have 2: "f \<in> s_done s' \<or> (\<exists>key. leads s' key f)"
    if "j < length (s_gors s')" "g_prog (s_gors s' ! j) = Await f # p" for j f p
  proof -
    have "f \<in> s_done s \<or> (\<exists>key. leads s key f)"
    proof (cases "i = j")
      case True
      from assms(1) show ?thesis
        by cases (use that True assms(3,4) old in \<open>auto simp: balanced_def\<close>)
    next
      case False
      obtain g where "s_gors s' = (s_gors s)[i := g]" using assms(1) by (rule act_step_gors)
      then show ?thesis using False that aw by auto
    qed
    then show ?thesis using done_mono [OF assms(1)] leads_step [OF assms(1)] by blast
  qed
  from 1 2 show ?thesis by (auto simp: flights_ok_def)
qed

lemma sync_go_inv:
  assumes "sync_go s s'" "sync_inv s"
  shows "sync_inv s'"
  using assms(1)
proof cases
  case (1 i)
  have bal: "balanced (s_gors s ! i)" using assms(2) 1(1) by (simp add: sync_inv_def)
  obtain g where g: "s_gors s' = (s_gors s)[i := g]" "s_cap s' = s_cap s" "balanced (s_gors s ! i) \<longrightarrow> balanced g"
    using act_step_gors [OF 1(2)] by metis
  from assms(2) have "\<forall>g\<in>set (s_gors s'). balanced g"
    using g(1,3) bal set_update_subset_insert [of "s_gors s" i g] by (auto simp: sync_inv_def)
  then show ?thesis
    using assms(2) g(2) excludes_step [OF 1(2) _ 1(1)] flights_ok_step [OF 1(2) _ 1(1) bal]
    by (simp add: sync_inv_def)
qed

lemma sync_step_inv:
  assumes "sync_step s s'" "sync_inv s"
  shows "sync_inv s'"
  using assms(1)
proof cases
  case go
  then show ?thesis using assms(2) by (rule sync_go_inv)
next
  case (request i paths)
  let ?g = "(s_gors s ! i)\<lparr>g_prog := concat (map op_sync paths)\<rparr>"
  have bal: "balanced (s_gors s ! i)" using assms(2) request(2) by (simp add: sync_inv_def)
  then have "balanced ?g"
    using request(3) request_balanced [of paths] list_all_tl [OF request_in_text [of paths]] by (simp add: balanced_def)
  moreover have "excludes s'" using assms(2) request(1) excludes_less [of s s' i ?g] by (simp add: sync_inv_def)
  moreover have "flights_ok s'"
  proof -
    have keep: "leads s' key f" if l: "leads s key f" for key f
    proof -
      obtain j p where j: "j < length (s_gors s)" "g_prog (s_gors s ! j) = Lead key f # p"
        using l by (auto simp: leads_def)
      then have "j \<noteq> i" using request(3) by auto
      then show ?thesis using j request(1) by (auto simp: leads_def intro!: exI [of _ j])
    qed
    have "g_prog ?g \<noteq> Await f # p" for f p using request_in_text [of paths] by auto
    then have "g_prog (s_gors s ! j) = Await f # p" if "j < length (s_gors s')" "g_prog (s_gors s' ! j) = Await f # p" for j f p
      using that request(1) by (cases "j = i") auto
    then show ?thesis using assms(2) keep request(1) by (simp add: sync_inv_def flights_ok_def) blast
  qed
  ultimately show ?thesis
    using assms(2) request(1) set_update_subset_insert [of "s_gors s" i ?g] by (auto simp: sync_inv_def)
qed

lemma new_sync_inv: "0 < cap \<Longrightarrow> sync_inv (new_sync cap n)"
  by (simp add: sync_inv_def new_sync_def idle_gor_def balanced_def excludes_def flights_ok_def)

section \<open>Nobody waits for ever\<close>

definition all_idle :: "sync \<Rightarrow> bool" where
  "all_idle s \<longleftrightarrow> (\<forall>g\<in>set (s_gors s). g_prog g = [])"

lemma writer_goes:
  assumes "i < length (s_gors s)" "balanced (s_gors s ! i)" "g_lock (s_gors s ! i) = Write"
  shows "\<exists>s'. sync_go s s'"
proof (cases "g_prog (s_gors s ! i)")
  case (Cons a p)
  with assms(2,3) have "a = Unlock" by (cases a) (auto simp: balanced_def split: if_splits)
  with Cons act_step.unlock sync_go.intros [OF assms(1)] show ?thesis by blast
qed (use assms(2,3) in \<open>simp add: balanced_def\<close>)

lemma reader_goes:
  assumes "i < length (s_gors s)" "balanced (s_gors s ! i)" "g_lock (s_gors s ! i) = Read" "flights_ok s"
  shows "\<exists>s'. sync_go s s'"
proof (cases "g_prog (s_gors s ! i)")
  case (Cons a p)
  note go = sync_go.intros [OF assms(1)]
  have lead: "\<exists>s'. sync_go s s'" if "leads s key f" for key f
    using that act_step.land sync_go.intros unfolding leads_def by blast
  from Cons assms(2,3) consider "a = RUnlock" | key where "a = Do key" | key f where "a = Lead key f" | f where "a = Await f"
    by (cases a) (auto simp: balanced_def split: if_splits)
  then show ?thesis
  proof cases
    case 1
    then show ?thesis using Cons act_step.runlock go by blast
  next
    case (2 key)
    then show ?thesis using Cons act_step.do_lead act_step.do_join go by (cases "s_flights s key") blast+
  next
    case (3 key f)
    then show ?thesis using Cons act_step.land go by blast
  next
    case (4 f)
    then show ?thesis
      using Cons assms(1,4) act_step.wake go lead unfolding flights_ok_def by blast
  qed
qed (use assms(2,3) in \<open>simp add: balanced_def\<close>)

lemma unlocked_goes:
  assumes "i < length (s_gors s)" "balanced (s_gors s ! i)" "g_lock (s_gors s ! i) = Free"
    "\<not> locked_by Write s" "\<not> locked_by Read s" "g_prog (s_gors s ! i) = a # p" "a \<noteq> Slot"
  shows "\<exists>s'. sync_go s s'"
proof -
  note go = sync_go.intros [OF assms(1)]
  have locking: "\<exists>s'. sync_go s s'" if "lock_awaited s"
  proof -
    from that obtain j where j: "j < length (s_gors s)" "waits_to_lock (g_prog (s_gors s ! j))"
      by (auto simp: lock_awaited_def in_set_conv_nth)
    then obtain q where "g_prog (s_gors s ! j) = Locking # q" by (cases "g_prog (s_gors s ! j)" rule: waits_to_lock.cases) auto
    with j(1) act_step.lock assms(4,5) sync_go.intros show ?thesis by blast
  qed
  from assms(2,3,6,7) consider "a = Unslot" | "a = RLock" | "a = Lock" | "a = Locking"
    by (cases a) (auto simp: balanced_def split: if_splits)
  then show ?thesis
    by cases (use assms(4-6) act_step.unslot act_step.rlock act_step.announce act_step.lock go locking in blast)+
qed

lemma sync_progress:
  assumes "sync_inv s" "\<not> all_idle s"
  shows "\<exists>s'. sync_go s s'"
proof -
  have bal: "balanced (s_gors s ! i)" if "i < length (s_gors s)" for i using assms(1) that by (simp add: sync_inv_def)
  have fl: "flights_ok s" "0 < s_cap s" using assms(1) by (simp_all add: sync_inv_def)
  show ?thesis
  proof (cases "locked_by Write s \<or> locked_by Read s")
    case True
    then show ?thesis using writer_goes reader_goes bal fl by (auto simp: locked_by_def in_set_conv_nth)
  next
    case False
    then have free: "g_lock (s_gors s ! i) = Free" if "i < length (s_gors s)" for i
      using that not_locked_by [of Write s i] not_locked_by [of Read s i] by (cases "g_lock (s_gors s ! i)") auto
    obtain i a p where i: "i < length (s_gors s)" "g_prog (s_gors s ! i) = a # p"
      using assms(2) by (auto simp: all_idle_def in_set_conv_nth neq_Nil_conv)
    show ?thesis
    proof (cases "a = Slot \<and> s_cap s \<le> taken s")
      case True
      then have "filter g_slot (s_gors s) \<noteq> []" using fl(2) by (auto simp: taken_def)
      then obtain j where j: "j < length (s_gors s)" "g_slot (s_gors s ! j)"
        by (auto simp: filter_empty_conv in_set_conv_nth)
      then obtain b q where b: "g_prog (s_gors s ! j) = b # q"
        using bal [OF j(1)] by (cases "g_prog (s_gors s ! j)") (auto simp: balanced_def)
      moreover have "b \<noteq> Slot" using b bal [OF j(1)] j(2) by (auto simp: balanced_def)
      ultimately show ?thesis using unlocked_goes [OF j(1) bal free] j(1) False by blast
    next
      case no: False
      show ?thesis
      proof (cases "a = Slot")
        case True
        then show ?thesis using no i act_step.slot sync_go.intros by (metis not_le)
      next
        case False
        then show ?thesis using unlocked_goes [OF i(1) bal free] i \<open>\<not> (locked_by Write s \<or> _)\<close> by blast
      qed
    qed
  qed
qed

fun act_effort :: "act \<Rightarrow> nat" where
  "act_effort Lock = 2"
| "act_effort (Do _) = 2"
| "act_effort _ = 1"

definition gor_effort :: "gor \<Rightarrow> nat" where
  "gor_effort g = sum_list (map act_effort (g_prog g))"

definition sync_effort :: "sync \<Rightarrow> nat" where
  "sync_effort s = sum_list (map gor_effort (s_gors s))"

lemma sync_go_effort:
  assumes "sync_go s s'"
  shows "sync_effort s' < sync_effort s"
  using assms
proof cases
  case (1 i)
  from 1(2) obtain g where g: "s_gors s' = (s_gors s)[i := g]" "gor_effort g < gor_effort (s_gors s ! i)"
    by cases (auto simp: gor_effort_def intro: that)
  have "gor_effort (s_gors s ! i) \<le> sync_effort s"
    unfolding sync_effort_def using 1(1) by (intro member_le_sum_list) auto
  then show ?thesis using g 1(1) by (simp add: sync_effort_def map_update sum_list_update)
qed

interpretation syncing: invariant_system "\<lambda>s. \<exists>cap n. 0 < cap \<and> s = new_sync cap n" sync_step sync_inv
  by unfold_locales (auto simp: new_sync_inv intro: sync_step_inv)

interpretation sync_calls: terminating_system sync_inv sync_go sync_inv sync_effort all_idle
  by unfold_locales (auto intro: sync_go_inv sync_go_effort sync_progress)

text \<open>C17: the engine's locking. In every state that any number of goroutines reach by serving requests (any
  sequence of operations each) and doing background rounds, a goroutine in a critical section of the write lock is alone:
  no other is in one of the read or of the write lock. And no set of goroutines ever waits for each other, for slots, for the lock and for
  flights: if no new request begins, they make a bounded number of steps in any order, and until all have finished
  one of them can move on.\<close>

theorem locking_excludes_and_terminates:
  assumes "0 < cap" "sync_step\<^sup>*\<^sup>* (new_sync cap n) s" "(sync_go ^^ k) s s'"
  shows "excludes s \<and> k \<le> sync_effort s \<and> ((\<forall>g\<in>set (s_gors s'). g_prog g = []) \<or> (\<exists>s''. sync_go s' s''))"
proof -
  have inv: "sync_inv s" using syncing.reachable_inv assms(1,2) by blast
  then show ?thesis using sync_calls.run_stops [OF assms(3) inv] by (auto simp: sync_inv_def all_idle_def)
qed

section \<open>A run\<close>

definition ex_locking :: sync where
  "ex_locking = put 0 (idle_gor\<lparr>g_prog := op_sync Updating\<rparr>) (new_sync 1 2)"

lemma ex_locking_reached: "sync_step\<^sup>*\<^sup>* (new_sync 1 2) ex_locking"
proof -
  have "sync_step (new_sync 1 2) ex_locking"
    using sync_step.request [of 0 "new_sync 1 2" "[Updating]"]
    by (simp add: ex_locking_def new_sync_def idle_gor_def numeral_2_eq_2)
  then show ?thesis by blast
qed

lemma ex_locking_moves: "\<exists>s. (sync_go ^^ 1) ex_locking s"
proof -
  have "sync_go ex_locking (put 0 ((s_gors ex_locking ! 0)\<lparr>g_slot := True, g_prog := [Lock, Unlock, Unslot]\<rparr>) ex_locking)"
    by (rule sync_go.intros [of 0], simp add: ex_locking_def new_sync_def, rule act_step.slot)
      (simp_all add: ex_locking_def new_sync_def idle_gor_def taken_def numeral_2_eq_2)
  then show ?thesis by auto
qed

theorem locking_excludes_and_terminates_witness:
  "\<exists>s'. (sync_go ^^ 1) ex_locking s' \<and> excludes ex_locking \<and> 1 \<le> sync_effort ex_locking \<and>
     ((\<forall>g\<in>set (s_gors s'). g_prog g = []) \<or> (\<exists>s''. sync_go s' s''))"
proof -
  obtain s' where s': "(sync_go ^^ 1) ex_locking s'" using ex_locking_moves by blast
  from locking_excludes_and_terminates [OF zero_less_one ex_locking_reached s'] s' show ?thesis by blast
qed

end
