(* ===== verification/Handles.thy ===== *)
theory Handles
  imports Kcm_Prelude "HOL-Library.State_Monad"
begin

text \<open>
  What cgo adds to the engine: objects that libkrb5 or \<^verbatim>\<open>malloc\<close> hand out and that the program has to give back.
  A program over them is a \<open>state\<close> of the library's state (the \<open>'w\<close> of \<open>krb5_lib\<close>) and a \<open>heap\<close>, which
  records the live handles with their kind and every fault: a handle used after it was freed, freed twice, or
  freed with the function for another kind. As in C, a fault does not stop the program.

  \<open>effect N T m own\<close> is the discipline: with the handles \<open>N\<close> live, \<open>m\<close> makes no fault, gives back \<open>T\<close>, leaves
  the handles \<open>own r\<close> of its result \<open>r\<close> to the caller and every other handle as it was (\<open>effect_when Q\<close>: if \<open>Q r\<close>).
  The rules follow the structure of programs, so that the discipline of a function follows from that of the
  functions it calls.
\<close>

datatype kind = Context | Ccache | Princ | Creds | Cred_contents | Cursor | Wire_data | Message | Malloc | Keyblock

datatype fault = Use_after_free nat kind | Bad_free nat kind

type_synonym handles = "(nat \<times> kind) set"

record heap =
  h_next :: nat
  h_live :: handles
  h_faults :: "fault list"

type_synonym ('w, 'a) cgo = "('w \<times> heap, 'a) state"

section \<open>Primitives\<close>

definition alloc :: "kind \<Rightarrow> ('w, nat) cgo" where
  "alloc kd = State (\<lambda>(w, H). (h_next H, w, H\<lparr>h_next := Suc (h_next H), h_live := insert (h_next H, kd) (h_live H)\<rparr>))"

definition touch :: "kind \<Rightarrow> nat \<Rightarrow> ('w, unit) cgo" where
  "touch kd h = State (\<lambda>(w, H).
     ((), w, if (h, kd) \<in> h_live H then H else H\<lparr>h_faults := h_faults H @ [Use_after_free h kd]\<rparr>))"

definition dealloc :: "kind \<Rightarrow> nat \<Rightarrow> ('w, unit) cgo" where
  "dealloc kd h = State (\<lambda>(w, H).
     ((), w, if (h, kd) \<in> h_live H then H\<lparr>h_live := h_live H - {(h, kd)}\<rparr>
             else H\<lparr>h_faults := h_faults H @ [Bad_free h kd]\<rparr>))"

text \<open>A library call that changes the library's state, and one that only reads it.\<close>

definition lib :: "('w \<Rightarrow> 'a \<times> 'w) \<Rightarrow> ('w, 'a) cgo" where
  "lib f = State (\<lambda>(w, H). case f w of (r, w') \<Rightarrow> (r, w', H))"

definition query :: "('w \<Rightarrow> 'a) \<Rightarrow> ('w, 'a) cgo" where
  "query f = State (\<lambda>(w, H). (f w, w, H))"

text \<open>Go's \<^verbatim>\<open>defer\<close>: the rest of the function runs first.\<close>

definition defer_do :: "('w, unit) cgo \<Rightarrow> ('w, 'a) cgo \<Rightarrow> ('w, 'a) cgo" where
  "defer_do clean body = do { r \<leftarrow> body; clean; State_Monad.return r }"

section \<open>The discipline\<close>

definition good :: "heap \<Rightarrow> bool" where
  "good H \<longleftrightarrow> h_faults H = [] \<and> (\<forall>(h, kd) \<in> h_live H. h < h_next H)"

definition effect_when :: "('a \<Rightarrow> bool) \<Rightarrow> handles \<Rightarrow> handles \<Rightarrow> ('w, 'a) cgo \<Rightarrow> ('a \<Rightarrow> handles) \<Rightarrow> bool" where
  "effect_when Q N T m own \<longleftrightarrow>
     (\<forall>w H r w' H'. good H \<longrightarrow> N \<subseteq> h_live H \<longrightarrow> run_state m (w, H) = (r, w', H') \<longrightarrow> Q r \<longrightarrow>
        good H' \<and> h_next H \<le> h_next H' \<and> h_live H' = (h_live H - T) \<union> own r \<and>
        (\<forall>(h, kd) \<in> own r. h_next H \<le> h \<or> (h, kd) \<in> T))"

abbreviation effect :: "handles \<Rightarrow> handles \<Rightarrow> ('w, 'a) cgo \<Rightarrow> ('a \<Rightarrow> handles) \<Rightarrow> bool" where
  "effect N T m own \<equiv> effect_when (\<lambda>_. True) N T m own"

abbreviation tidy :: "handles \<Rightarrow> ('w, 'a) cgo \<Rightarrow> bool" where
  "tidy N m \<equiv> effect N {} m (\<lambda>_. {})"

named_theorems effects \<open>rules of the discipline and the disciplines of functions\<close>

lemma effectI:
  assumes "\<And>w H r w' H'. good H \<Longrightarrow> N \<subseteq> h_live H \<Longrightarrow> run_state m (w, H) = (r, w', H') \<Longrightarrow> Q r \<Longrightarrow>
    good H' \<and> h_next H \<le> h_next H' \<and> h_live H' = (h_live H - T) \<union> own r \<and>
    (\<forall>(h, kd) \<in> own r. h_next H \<le> h \<or> (h, kd) \<in> T)"
  shows "effect_when Q N T m own"
  using assms unfolding effect_when_def by blast

lemma effect_whenD:
  assumes "effect_when Q N T m own" "good H" "N \<subseteq> h_live H" "run_state m (w, H) = (r, w', H')" "Q r"
  shows "good H'" "h_next H \<le> h_next H'" "h_live H' = (h_live H - T) \<union> own r"
    "(h, kd) \<in> own r \<Longrightarrow> h_next H \<le> h \<or> (h, kd) \<in> T"
  using assms unfolding effect_when_def by blast+

lemmas effectD = effect_whenD [where Q = "\<lambda>_. True", OF _ _ _ _ TrueI]

lemma good_fresh: "good H \<Longrightarrow> (h, kd) \<in> h_live H \<Longrightarrow> h < h_next H"
  by (auto simp: good_def)

text \<open>No heap holds every handle, so \<open>own r = UNIV\<close> says that the result \<open>r\<close> does not occur.\<close>

lemma good_not_UNIV: "good H \<Longrightarrow> h_live H \<noteq> UNIV"
  by (metis UNIV_I good_fresh less_irrefl)

lemma effect_alloc: "effect N {} (alloc kd) (\<lambda>h. {(h, kd)})"
  by (rule effectI) (auto simp: alloc_def good_def)

lemma effect_touch: "(h, kd) \<in> N \<Longrightarrow> tidy N (touch kd h)"
  by (rule effectI) (auto simp: touch_def split: if_splits)

lemma effect_dealloc [effects]: "(h, kd) \<in> N \<Longrightarrow> effect N {(h, kd)} (dealloc kd h) (\<lambda>_. {})"
  by (rule effectI) (auto simp: dealloc_def good_def split: if_splits)

lemma effect_lib: "tidy N (lib f)"
  by (rule effectI) (auto simp: lib_def split: prod.splits)

lemma effect_query: "tidy N (query f)"
  by (rule effectI) (auto simp: query_def)

text \<open>Handles that might have been given back but go to the caller with the result.\<close>

lemma effect_return [effects]:
  "(Q x \<Longrightarrow> T = own x \<and> T \<subseteq> N) \<Longrightarrow> effect_when Q N T (State_Monad.return x) own"
  by (rule effectI) auto

text \<open>A program that never has a result of interest keeps every discipline about such results.\<close>

definition never :: "('a \<Rightarrow> bool) \<Rightarrow> ('w, 'a) cgo \<Rightarrow> bool" where
  "never Q m \<longleftrightarrow> (\<forall>s. \<not> Q (fst (run_state m s)))"

lemma effect_never: "never Q m \<Longrightarrow> effect_when Q N T m own"
  by (rule effectI) (metis never_def fst_conv)

text \<open>First \<open>m\<close>, which gives back \<open>S\<close> and allocates, then the rest, which has to give back what \<open>m\<close> allocated.\<close>

lemma effect_bind_when:
  assumes "effect_when P N S m own1" "S \<inter> T = {}" "\<And>x. \<not> P x \<Longrightarrow> never Q (f x)"
    "\<And>x. P x \<Longrightarrow> own1 x \<inter> (N - S) = {} \<Longrightarrow> own1 x \<noteq> UNIV \<Longrightarrow> effect_when Q (N - S \<union> own1 x) (T \<union> own1 x) (f x) own"
  shows "effect_when Q N (S \<union> T) (State_Monad.bind m f) own"
proof (rule effectI)
  fix w H r w' H'
  assume H: "good H" "N \<subseteq> h_live H" and run: "run_state (State_Monad.bind m f) (w, H) = (r, w', H')" and Q: "Q r"
  obtain x w1 H1 where m: "run_state m (w, H) = (x, w1, H1)" using prod_cases3 by blast
  with run have f: "run_state (f x) (w1, H1) = (r, w', H')" by simp
  have P: "P x" using assms(3) [of x] f Q unfolding never_def by (metis fst_conv)
  note 1 = effect_whenD [OF assms(1) H m P]
  have new: "(h_live H - S) \<inter> own1 x = {}" using 1(4) good_fresh [OF H(1)] by fastforce
  then have "own1 x \<inter> (N - S) = {}" using H(2) by blast
  moreover have "own1 x \<noteq> UNIV" using 1(3) good_not_UNIV [OF 1(1)] by auto
  ultimately have e: "effect_when Q (N - S \<union> own1 x) (T \<union> own1 x) (f x) own" by (rule assms(4) [OF P])
  have "N - S \<union> own1 x \<subseteq> h_live H1" using 1(3) H(2) by auto
  note 2 = effect_whenD [OF e 1(1) this f Q]
  have "h_live H' = h_live H - (S \<union> T) \<union> own r" using 1(3) 2(3) new by auto
  moreover have "h_next H \<le> h \<or> (h, kd) \<in> S \<union> T" if "(h, kd) \<in> own r" for h kd
    using 2(4) [OF that] 1(2,4) by fastforce
  ultimately show "good H' \<and> h_next H \<le> h_next H' \<and> h_live H' = (h_live H - (S \<union> T)) \<union> own r \<and>
      (\<forall>(h, kd) \<in> own r. h_next H \<le> h \<or> (h, kd) \<in> S \<union> T)"
    using 1(2) 2(1,2) by auto
qed

lemma effect_bind:
  assumes "effect N S m own1" "S \<inter> T = {}"
    "\<And>x. own1 x \<inter> (N - S) = {} \<Longrightarrow> own1 x \<noteq> UNIV \<Longrightarrow> effect_when Q (N - S \<union> own1 x) (T \<union> own1 x) (f x) own"
  shows "effect_when Q N (S \<union> T) (State_Monad.bind m f) own"
  by (rule effect_bind_when [OF assms(1,2) _ assms(3)]) simp_all

lemma effect_bind_tidy:
  assumes "tidy N m" "\<And>x. effect_when Q N T (f x) own"
  shows "effect_when Q N T (State_Monad.bind m f) own"
  using effect_bind [OF assms(1), of T Q f own] assms(2) by simp

lemma effect_bind_own:
  assumes "effect N {} m own1" "\<And>x. own1 x \<inter> N = {} \<Longrightarrow> own1 x \<noteq> UNIV \<Longrightarrow> effect_when Q (N \<union> own1 x) (T \<union> own1 x) (f x) own"
  shows "effect_when Q N T (State_Monad.bind m f) own"
  using effect_bind [OF assms(1), of T Q f own] assms(2) by simp

lemma effect_bind_free:
  assumes "effect N {x} m (\<lambda>_. {})" "x \<notin> T" "\<And>y. effect_when Q (N - {x}) T (f y) own"
  shows "effect_when Q N (insert x T) (State_Monad.bind m f) own"
  using effect_bind [OF assms(1), of T Q f own] assms(2,3) by simp

text \<open>An allocating call that may fail: \<open>got kd\<close> owns the handle of a success.\<close>

fun got :: "kind \<Rightarrow> 'e + nat \<times> 'v \<Rightarrow> handles" where
  "got kd (Inl e) = {}"
| "got kd (Inr (h, v)) = {(h, kd)}"

lemma effect_bind_got:
  assumes "effect N {} m (got kd)" "\<And>e. effect_when Q N T (f (Inl e)) own"
    "\<And>h v. (h, kd) \<notin> N \<Longrightarrow> effect_when Q (insert (h, kd) N) (insert (h, kd) T) (f (Inr (h, v))) own"
  shows "effect_when Q N T (State_Monad.bind m f) own"
proof (rule effect_bind_own [OF assms(1)])
  fix x :: "'a + nat \<times> 'b"
  assume "got kd x \<inter> N = {}"
  then show "effect_when Q (N \<union> got kd x) (T \<union> got kd x) (f x) own"
    using assms(2,3) by (cases rule: got.cases [of "(kd, x)"]) auto
qed

lemma effect_bind_alloc [effects]:
  "(\<And>h. (h, kd) \<notin> N \<Longrightarrow> effect_when Q (insert (h, kd) N) (insert (h, kd) T) (f h) own) \<Longrightarrow>
     effect_when Q N T (State_Monad.bind (alloc kd) f) own"
  by (rule effect_bind_own [OF effect_alloc]) simp

lemma effect_bind_prims [effects]:
  "(h, kd) \<in> N \<Longrightarrow> effect_when Q N T (f ()) own \<Longrightarrow> effect_when Q N T (State_Monad.bind (touch kd h) f) own"
  "(\<And>x. effect_when Q N T (g x) own) \<Longrightarrow> effect_when Q N T (State_Monad.bind (lib a) g) own"
  "(\<And>x. effect_when Q N T (g' x) own) \<Longrightarrow> effect_when Q N T (State_Monad.bind (query b) g') own"
  "(h, kd) \<in> N \<Longrightarrow> (h, kd) \<notin> T \<Longrightarrow> effect_when Q (N - {(h, kd)}) T (f ()) own \<Longrightarrow>
     effect_when Q N (insert (h, kd) T) (State_Monad.bind (dealloc kd h) f) own"
  by (auto intro: effect_bind_tidy effect_touch effect_lib effect_query effect_bind_free effect_dealloc)

named_theorems excluded \<open>rules for results that never come\<close>

lemma never_rules [excluded]:
  "\<not> Q r \<Longrightarrow> never Q (State_Monad.return r)"
  "(\<And>x. never Q (f x)) \<Longrightarrow> never Q (State_Monad.bind m0 f)"
  "never Q body \<Longrightarrow> never Q (defer_do clean body)"
  "(b \<Longrightarrow> never Q m) \<Longrightarrow> (\<not> b \<Longrightarrow> never Q n) \<Longrightarrow> never Q (if b then m else n)"
  "(\<And>e. never Q (p e)) \<Longrightarrow> (\<And>x. never Q (q x)) \<Longrightarrow> never Q (case v of Inl e \<Rightarrow> p e | Inr x \<Rightarrow> q x)"
  by (auto simp: never_def defer_do_def split: prod.split sum.split) (metis fst_conv)

abbreviation isr :: "'e + 'a \<Rightarrow> bool" where "isr r \<equiv> \<not> isl r"

text \<open>Handles that stay live and are the caller's from now on.\<close>

lemma effect_hand_over:
  assumes "effect_when Q N {} m (\<lambda>_. {})" "never (\<lambda>r. Q r \<and> own r \<noteq> T) m" "T \<subseteq> N"
  shows "effect_when Q N T m own"
proof (rule effectI)
  fix w H r w' H'
  assume H: "good H" "N \<subseteq> h_live H" and run: "run_state m (w, H) = (r, w', H')" and Q: "Q r"
  note 1 = effect_whenD [OF assms(1) H run Q]
  have "own r = T" using assms(2) Q run unfolding never_def by (metis fst_conv)
  then show "good H' \<and> h_next H \<le> h_next H' \<and> h_live H' = (h_live H - T) \<union> own r \<and>
      (\<forall>(h, kd) \<in> own r. h_next H \<le> h \<or> (h, kd) \<in> T)"
    using 1 H(2) assms(3) by auto
qed

text \<open>The deferred call gives back what the body did not.\<close>

lemma effect_defer:
  assumes "S \<inter> T = {}" "S \<subseteq> N" "effect_when Q N T body own" "effect (N - T) S clean (\<lambda>_. {})"
  shows "effect_when Q N (S \<union> T) (defer_do clean body) own"
proof (rule effectI)
  fix w H r w' H'
  assume H: "good H" "N \<subseteq> h_live H" and run: "run_state (defer_do clean body) (w, H) = (r, w', H')" and Q: "Q r"
  obtain r1 w1 H1 where m: "run_state body (w, H) = (r1, w1, H1)" using prod_cases3 by blast
  with run have r: "r1 = r" and f: "run_state clean (w1, H1) = ((), w', H')"
    by (auto simp: defer_do_def split: prod.splits)
  note 1 = effect_whenD [OF assms(3) H m Q [folded r]]
  have "N - T \<subseteq> h_live H1" using 1(3) H(2) by auto
  note 2 = effectD [OF assms(4) 1(1) this f]
  have "S \<inter> own r = {}" using 1(4) good_fresh [OF H(1)] assms(1,2) H(2) r by fastforce
  then have "h_live H' = h_live H - (S \<union> T) \<union> own r" using 1(3) 2(3) r by auto
  then show "good H' \<and> h_next H \<le> h_next H' \<and> h_live H' = (h_live H - (S \<union> T)) \<union> own r \<and>
      (\<forall>(h, kd) \<in> own r. h_next H \<le> h \<or> (h, kd) \<in> S \<union> T)"
    using 1 2(1,2) r by fastforce
qed

lemma effect_defer_one:
  "x \<notin> T \<Longrightarrow> x \<in> N \<Longrightarrow> effect_when Q N T body own \<Longrightarrow> effect (N - T) {x} clean (\<lambda>_. {}) \<Longrightarrow>
     effect_when Q N (insert x T) (defer_do clean body) own"
  using effect_defer [of "{x}" T N Q body own clean] by simp

lemma effect_defer_dealloc [effects]:
  "(h, kd) \<notin> T \<Longrightarrow> (h, kd) \<in> N \<Longrightarrow> effect_when Q N T body own \<Longrightarrow>
     effect_when Q N (insert (h, kd) T) (defer_do (dealloc kd h) body) own"
  by (rule effect_defer_one) (auto intro: effect_dealloc)

lemma effect_cases [effects]:
  "(b \<Longrightarrow> effect_when Q N T m own) \<Longrightarrow> (\<not> b \<Longrightarrow> effect_when Q N T n own) \<Longrightarrow> effect_when Q N T (if b then m else n) own"
  "(\<And>e. s = Inl e \<Longrightarrow> effect_when Q N T (f e) own) \<Longrightarrow> (\<And>x. s = Inr x \<Longrightarrow> effect_when Q N T (g x) own) \<Longrightarrow>
     effect_when Q N T (case s of Inl e \<Rightarrow> f e | Inr x \<Rightarrow> g x) own"
  "(opt = None \<Longrightarrow> effect_when Q N T m own) \<Longrightarrow> (\<And>x. opt = Some x \<Longrightarrow> effect_when Q N T (g' x) own) \<Longrightarrow>
     effect_when Q N T (case opt of None \<Rightarrow> m | Some x \<Rightarrow> g' x) own"
  "(\<And>x y. p = (x, y) \<Longrightarrow> effect_when Q N T (k x y) own) \<Longrightarrow> effect_when Q N T (case p of (x, y) \<Rightarrow> k x y) own"
  by (simp_all split: sum.split option.split prod.split)

section \<open>What a program computes\<close>

text \<open>The result and the library's state are those of \<open>f\<close>, whatever the heap is; \<open>\<pi>\<close> forgets handles.\<close>

definition computes :: "('a \<Rightarrow> 'b) \<Rightarrow> ('w, 'a) cgo \<Rightarrow> ('w \<Rightarrow> 'b \<times> 'w) \<Rightarrow> bool" where
  "computes \<pi> m f \<longleftrightarrow> (\<forall>w H r w' H'. run_state m (w, H) = (r, w', H') \<longrightarrow> f w = (\<pi> r, w'))"

named_theorems computing \<open>rules for what programs compute\<close>

lemma computesD: "computes \<pi> m f \<Longrightarrow> run_state m (w, H) = (r, w', H') \<Longrightarrow> f w = (\<pi> r, w')"
  unfolding computes_def by blast

lemma computes_cong: "computes \<pi> m f \<Longrightarrow> (\<And>w. g w = f w) \<Longrightarrow> computes \<pi> m g"
  by (simp add: computes_def)

lemma computes_return: "computes \<pi> (State_Monad.return x) (\<lambda>w. (\<pi> x, w))"
  by (simp add: computes_def)

lemma computes_bind:
  assumes "computes \<phi> m f" "\<And>x. computes \<pi> (n x) (g (\<phi> x))"
  shows "computes \<pi> (State_Monad.bind m n) (\<lambda>w. case f w of (y, w') \<Rightarrow> g y w')"
  unfolding computes_def
proof (intro allI impI)
  fix w H r w' H'
  assume run: "run_state (State_Monad.bind m n) (w, H) = (r, w', H')"
  obtain x w1 H1 where m: "run_state m (w, H) = (x, w1, H1)" using prod_cases3 by blast
  with run have "run_state (n x) (w1, H1) = (r, w', H')" by simp
  then show "(case f w of (y, w') \<Rightarrow> g y w') = (\<pi> r, w')"
    using computesD [OF assms(1) m] computesD [OF assms(2)] by simp
qed

text \<open>What only changes the heap.\<close>

definition silent :: "('w, unit) cgo \<Rightarrow> bool" where
  "silent m \<longleftrightarrow> computes (\<lambda>x. x) m (\<lambda>w. ((), w))"

lemma silent_prims [computing]: "silent (touch kd h)" "silent (dealloc kd h)" "silent (State_Monad.return ())"
  by (simp_all add: silent_def computes_def touch_def dealloc_def)

lemma computes_silent: "silent m \<Longrightarrow> computes \<pi> (n ()) f \<Longrightarrow> computes \<pi> (State_Monad.bind m n) f"
  by (rule computes_cong [OF computes_bind [where \<phi> = "\<lambda>x. x" and g = "\<lambda>_. f"]]) (auto simp: silent_def)

lemma silent_bind [computing]: "silent m \<Longrightarrow> silent n \<Longrightarrow> silent (State_Monad.bind m (\<lambda>_. n))"
  unfolding silent_def [of n] silent_def [of "State_Monad.bind m (\<lambda>_. n)"] by (rule computes_silent)

lemma computes_prims [computing]:
  "computes \<pi> (n ()) f \<Longrightarrow> computes \<pi> (State_Monad.bind (touch kd h) n) f"
  "computes \<pi> (n ()) f \<Longrightarrow> computes \<pi> (State_Monad.bind (dealloc kd h) n) f"
  by (simp_all add: computes_silent silent_prims)

lemma computes_alloc [computing]: "(\<And>h. computes \<pi> (n h) f) \<Longrightarrow> computes \<pi> (State_Monad.bind (alloc kd) n) f"
  by (simp add: computes_def alloc_def)

lemma computes_lib [computing]:
  assumes "\<And>x. computes \<pi> (n x) (f x)"
  shows "computes \<pi> (State_Monad.bind (lib a) n) (\<lambda>w. case a w of (x, w') \<Rightarrow> f x w')"
proof (rule computes_bind [where \<phi> = "\<lambda>x. x"])
  show "computes (\<lambda>x. x) (lib a) a" by (auto simp: computes_def lib_def split: prod.splits)
qed (rule assms)

lemma computes_query [computing]:
  assumes "\<And>x. computes \<pi> (n x) (f x)"
  shows "computes \<pi> (State_Monad.bind (query a) n) (\<lambda>w. f (a w) w)"
  using assms by (simp add: computes_def query_def)

lemma computes_defer [computing]: "computes \<pi> body f \<Longrightarrow> silent clean \<Longrightarrow> computes \<pi> (defer_do clean body) f"
  unfolding defer_do_def
  by (rule computes_cong [OF computes_bind [where \<phi> = "\<lambda>x. \<pi> x" and g = "\<lambda>y w. (y, w)"]])
    (auto intro: computes_silent computes_return)

lemma computes_cases [computing]:
  "(b \<Longrightarrow> computes \<pi> m f) \<Longrightarrow> (\<not> b \<Longrightarrow> computes \<pi> n g) \<Longrightarrow> computes \<pi> (if b then m else n) (if b then f else g)"
  "(\<And>e. computes \<pi> (p e) (p' e)) \<Longrightarrow> (\<And>x. computes \<pi> (q x) (q' x)) \<Longrightarrow>
     computes \<pi> (case s of Inl e \<Rightarrow> p e | Inr x \<Rightarrow> q x) (case s of Inl e \<Rightarrow> p' e | Inr x \<Rightarrow> q' x)"
  "computes \<pi> m f \<Longrightarrow> (\<And>x. computes \<pi> (q x) (q' x)) \<Longrightarrow>
     computes \<pi> (case opt of None \<Rightarrow> m | Some x \<Rightarrow> q x) (case opt of None \<Rightarrow> f | Some x \<Rightarrow> q' x)"
  "(\<And>x y. computes \<pi> (k x y) (k' x y)) \<Longrightarrow> computes \<pi> (case pr of (x, y) \<Rightarrow> k x y) (case pr of (x, y) \<Rightarrow> k' x y)"
  by (simp_all split: sum.split option.split prod.split)

text \<open>The result of an allocating call without its handle.\<close>

abbreviation forget :: "'e + 'h \<times> 'v \<Rightarrow> 'e + 'v" where
  "forget \<equiv> map_sum (\<lambda>e. e) snd"

lemma computes_bind_got:
  assumes "computes forget m f" "\<And>e. computes \<pi> (n e) (p e)" "\<And>h v. computes \<pi> (n' h v) (q v)"
  shows "computes \<pi> (State_Monad.bind m (\<lambda>r. case r of Inl e \<Rightarrow> n e | Inr (h, v) \<Rightarrow> n' h v))
    (\<lambda>w. case f w of (y, w') \<Rightarrow> (case y of Inl e \<Rightarrow> p e w' | Inr v \<Rightarrow> q v w'))"
proof -
  have "computes \<pi> (case x of Inl e \<Rightarrow> n e | Inr (h, v) \<Rightarrow> n' h v)
      (\<lambda>w. case forget x of Inl e \<Rightarrow> p e w | Inr v \<Rightarrow> q v w)" for x
    using assms(2,3) by (auto split: sum.split)
  then show ?thesis by (rule computes_bind [OF assms(1)])
qed

lemma computes_bind_fst:
  assumes "computes fst m f" "\<And>x y. computes \<pi> (n x y) (g x)"
  shows "computes \<pi> (State_Monad.bind m (\<lambda>(x, y). n x y)) (\<lambda>w. case f w of (x, w') \<Rightarrow> g x w')"
  by (rule computes_bind [OF assms(1)]) (simp add: assms(2) split_beta)

text \<open>Results without handles, and without the handle they have.\<close>

lemma computes_returns [computing]:
  "computes (\<lambda>x. x) (State_Monad.return x) (\<lambda>w. (x, w))"
  "computes forget (State_Monad.return (Inl e)) (\<lambda>w. (Inl e, w))"
  "computes forget (State_Monad.return (Inr (h, v))) (\<lambda>w. (Inr v, w))"
  "computes fst (State_Monad.return (x, y)) (\<lambda>w. (x, w))"
  by (simp_all add: computes_def)

text \<open>A call with no handles in its result, and one that only reads the library's state.\<close>

abbreviation (input) same :: "'a \<Rightarrow> 'a" where "same \<equiv> \<lambda>x. x"

abbreviation (input) pure :: "('w \<Rightarrow> 'a) \<Rightarrow> 'w \<Rightarrow> 'a \<times> 'w" where "pure f \<equiv> \<lambda>w. (f w, w)"

end
