(* ===== verification/Cgo.thy ===== *)
theory Cgo
  imports Handles Ops
begin

text \<open>
  The functions of \<^verbatim>\<open>internal/krb5c/krb5c.go\<close> and \<^verbatim>\<open>tgt.go\<close> with the C objects they handle: every allocation, every
  use of a context, cache handle, cursor, principal, credential or buffer, and every release, in the order the
  source makes them, deferred calls included. A function \<open>f_c\<close> here is the \<open>f\<close> of \<open>Krb5_Lib\<close> or \<open>Client\<close> with its
  handles: \<open>f_c_effect\<close> says that it keeps the discipline of \<open>Handles\<close>, \<open>f_c_computes\<close> that it computes \<open>f\<close>. A
  pointer to a credential is its handle and the record it points to. A loop over a cursor walks the list of
  credentials that the library yields.
\<close>

record kctx =
  k_ctx :: nat
  k_cc :: nat

abbreviation ctx_of :: "kctx \<Rightarrow> nat \<times> kind" where "ctx_of k \<equiv> (k_ctx k, Context)"
abbreviation cc_of :: "kctx \<Rightarrow> nat \<times> kind" where "cc_of k \<equiv> (k_cc k, Ccache)"

abbreviation kctx_live :: "kctx \<Rightarrow> handles \<Rightarrow> bool" where
  "kctx_live k N \<equiv> ctx_of k \<in> N \<and> cc_of k \<in> N"

text \<open>The release functions of libkrb5 (\<^verbatim>\<open>krb5_free_principal\<close>, \<^verbatim>\<open>krb5_cc_close\<close> and so on) take the context.\<close>

definition free_with :: "kind \<Rightarrow> nat \<Rightarrow> nat \<Rightarrow> ('w, unit) cgo" where
  "free_with kd ctx h = do { touch Context ctx; dealloc kd h }"

text \<open>A pointer to a credential: a \<^verbatim>\<open>*krb5_creds\<close> of the library, or a local variable with contents of the
  library.\<close>

abbreviation read_cred :: "nat \<times> kind \<Rightarrow> ('w, unit) cgo" where
  "read_cred p \<equiv> touch (snd p) (fst p)"

section \<open>Errors and contexts\<close>

text \<open>\<^verbatim>\<open>newError\<close> for a code that is not zero, and for any code.\<close>

definition error_c :: "'w krb5_lib \<Rightarrow> nat \<Rightarrow> i32 \<Rightarrow> ('w, goerror) cgo" where
  "error_c L ctx code = do {
     touch Context ctx;
     msg \<leftarrow> alloc Message;
     defer_do (free_with Message ctx msg) (do {
       touch Message msg;
       State_Monad.return (krbErr L code) }) }"

definition newError_c :: "'w krb5_lib \<Rightarrow> nat \<Rightarrow> i32 \<Rightarrow> ('w, goerror option) cgo" where
  "newError_c L ctx code =
     (if code = 0 then State_Monad.return None
      else do { err \<leftarrow> error_c L ctx code; State_Monad.return (Some err) })"

definition fail_c :: "'w krb5_lib \<Rightarrow> nat \<Rightarrow> i32 \<Rightarrow> ('w, goerror + 'a) cgo" where
  "fail_c L ctx code = do { err \<leftarrow> error_c L ctx code; State_Monad.return (Inl err) }"

definition newKctx_c :: "'w krb5_lib \<Rightarrow> ('w, goerror + kctx) cgo" where
  "newKctx_c L = do {
     code \<leftarrow> query (krb5_init_context L);
     if code \<noteq> 0
     then State_Monad.return (Inl (PlainError (''krb5_init_context failed (code '' @ fmt_int (sint code) @ '')'')))
     else do {
       ctx \<leftarrow> alloc Context;
       name \<leftarrow> alloc Malloc;
       defer_do (dealloc Malloc name) (do {
         touch Context ctx;
         touch Malloc name;
         code \<leftarrow> query (krb5_cc_resolve L workingCacheName);
         if code \<noteq> 0
         then do {
           err \<leftarrow> error_c L ctx code;
           dealloc Context ctx;
           State_Monad.return (Inl (WrapError ''resolving working cache: '' err)) }
         else do {
           cc \<leftarrow> alloc Ccache;
           State_Monad.return (Inr \<lparr>k_ctx = ctx, k_cc = cc\<rparr>) } }) } }"

definition free_c :: "kctx \<Rightarrow> ('w, unit) cgo" where
  "free_c k = do { free_with Ccache (k_ctx k) (k_cc k); dealloc Context (k_ctx k) }"

fun kctx_own :: "goerror + kctx \<Rightarrow> handles" where
  "kctx_own (Inl _) = {}"
| "kctx_own (Inr k) = {ctx_of k, cc_of k}"

lemma effect_free_with [effects]:
  "(ctx, Context) \<in> N \<Longrightarrow> (h, kd) \<in> N \<Longrightarrow> effect N {(h, kd)} (free_with kd ctx h) (\<lambda>_. {})"
  unfolding free_with_def by (intro effects)

lemma effect_bind_free_with [effects]:
  "(ctx, Context) \<in> N \<Longrightarrow> (h, kd) \<in> N \<Longrightarrow> (h, kd) \<notin> T \<Longrightarrow> effect_when Q (N - {(h, kd)}) T (f ()) own \<Longrightarrow>
     effect_when Q N (insert (h, kd) T) (State_Monad.bind (free_with kd ctx h) f) own"
  by (rule effect_bind_free [OF effect_free_with]) auto

lemma effect_defer_free_with [effects]:
  "(h, kd) \<notin> T \<Longrightarrow> (h, kd) \<in> N \<Longrightarrow> effect_when Q N T body own \<Longrightarrow> (ctx, Context) \<in> N - T \<Longrightarrow>
     effect_when Q N (insert (h, kd) T) (defer_do (free_with kd ctx h) body) own"
  by (rule effect_defer_one) (auto intro: effect_free_with)

lemma silent_free_with [computing]: "silent (free_with kd ctx h)"
  unfolding free_with_def by (intro computing)

lemma error_c_effect: "(ctx, Context) \<in> N \<Longrightarrow> tidy N (error_c L ctx code)"
  unfolding error_c_def by (auto intro!: effects)

lemmas [effects] = error_c_effect effect_bind_tidy [OF error_c_effect]

lemma newError_c_effect: "(ctx, Context) \<in> N \<Longrightarrow> tidy N (newError_c L ctx code)"
  unfolding newError_c_def by (auto intro!: effects)

lemmas [effects] = newError_c_effect effect_bind_tidy [OF newError_c_effect]

lemma fail_c_effect [effects]:
  "(ctx, Context) \<in> N \<Longrightarrow> (\<And>e. own (Inl e) = {}) \<Longrightarrow> effect_when Q N {} (fail_c L ctx code) own"
  unfolding fail_c_def by (auto intro!: effects)

lemma newKctx_c_effect: "effect N {} (newKctx_c L) kctx_own"
  unfolding newKctx_c_def by (auto intro!: effects)

lemma free_c_effect: "kctx_live k N \<Longrightarrow> effect N {cc_of k, ctx_of k} (free_c k) (\<lambda>_. {})"
  unfolding free_c_def by (auto intro!: effects)

lemma silent_free_c [computing]: "silent (free_c k)"
  unfolding free_c_def by (intro computing)

lemma error_c_computes: "computes same (error_c L ctx code) (pure (\<lambda>w. krbErr L code))"
  unfolding error_c_def by (rule computes_cong, (rule computing)+) simp

lemmas [computing] = error_c_computes computes_bind [OF error_c_computes]

lemma newError_c_computes: "computes same (newError_c L ctx code) (pure (\<lambda>w. newError L code))"
  unfolding newError_c_def by (rule computes_cong, (rule computing)+) (simp add: newError_def)

lemmas [computing] = newError_c_computes computes_bind [OF newError_c_computes]

lemma fail_c_computes: "\<pi> (Inl (krbErr L code)) = e \<Longrightarrow> computes \<pi> (fail_c L ctx code) (pure (\<lambda>w. e))"
  unfolding fail_c_def by (rule computes_cong [OF computes_bind [OF error_c_computes computes_return]]) simp

lemma fail_c_results [computing]:
  "computes same (fail_c L ctx code) (pure (\<lambda>w. Inl (krbErr L code)))"
  "computes forget (fail_c L ctx code) (pure (\<lambda>w. Inl (krbErr L code)))"
  by (simp_all add: fail_c_computes)

text \<open>What \<^verbatim>\<open>newKctx\<close> reports, handles apart.\<close>

abbreviation error_of :: "goerror + 'a \<Rightarrow> goerror option" where
  "error_of r \<equiv> (case r of Inl err \<Rightarrow> Some err | Inr _ \<Rightarrow> None)"

lemma computes_error_of [computing]:
  "computes error_of (State_Monad.return (Inl err)) (pure (\<lambda>w. Some err))"
  "computes error_of (State_Monad.return (Inr x)) (pure (\<lambda>w. None))"
  by (simp_all add: computes_def)

lemma newKctx_c_computes: "computes error_of (newKctx_c L) (pure (newKctx L))"
  unfolding newKctx_c_def by (rule computes_cong, (rule computing)+) (simp add: newKctx_def)

lemma computes_bind_newKctx [computing]:
  assumes "\<And>e. computes \<pi> (p e) (p' e)" "\<And>k. computes \<pi> (q k) q'"
  shows "computes \<pi> (State_Monad.bind (newKctx_c L) (\<lambda>r. case r of Inl e \<Rightarrow> p e | Inr k \<Rightarrow> q k))
    (\<lambda>w. case newKctx L w of Some e \<Rightarrow> p' e w | None \<Rightarrow> q' w)"
proof -
  have "computes \<pi> (case x of Inl e \<Rightarrow> p e | Inr k \<Rightarrow> q k) (case error_of x of Some e \<Rightarrow> p' e | None \<Rightarrow> q')" for x
    using assms by (auto split: sum.split)
  then show ?thesis
    by (rule computes_cong [OF computes_bind [OF newKctx_c_computes,
          where g = "\<lambda>y. case y of Some e \<Rightarrow> p' e | None \<Rightarrow> q'"]]) (simp split: option.split)
qed

section \<open>Principals and credentials\<close>

definition parseName_c :: "'w krb5_lib \<Rightarrow> kctx \<Rightarrow> string \<Rightarrow> ('w, goerror + nat \<times> krb5_principal) cgo" where
  "parseName_c L k name = do {
     cname \<leftarrow> alloc Malloc;
     defer_do (dealloc Malloc cname) (do {
       touch Context (k_ctx k);
       touch Malloc cname;
       case krb5_parse_name L (CString name) of
         Inl code \<Rightarrow> fail_c L (k_ctx k) code
       | Inr princ \<Rightarrow> do { h \<leftarrow> alloc Princ; State_Monad.return (Inr (h, princ)) } }) }"

definition buildPrincipal_c :: "'w krb5_lib \<Rightarrow> kctx \<Rightarrow> principal \<Rightarrow> ('w, goerror + nat \<times> krb5_principal) cgo" where
  "buildPrincipal_c L k p = parseName_c L k (UnparseName p)"

definition marshalCreds_c :: "'w krb5_lib \<Rightarrow> kctx \<Rightarrow> nat \<times> kind \<Rightarrow> krb5_creds \<Rightarrow> ('w, goerror + byte list) cgo" where
  "marshalCreds_c L k p creds = do {
     touch Context (k_ctx k);
     read_cred p;
     case krb5_marshal_credentials L creds of
       Inl code \<Rightarrow> fail_c L (k_ctx k) code
     | Inr wire \<Rightarrow> do {
         d \<leftarrow> alloc Wire_data;
         defer_do (free_with Wire_data (k_ctx k) d) (do {
           touch Wire_data d;
           State_Monad.return (Inr wire) }) } }"

text \<open>The key and the flags are changed in place and put back; the encoder sees the changed record.\<close>

definition marshalTGTForListing_c ::
  "'w krb5_lib \<Rightarrow> client \<Rightarrow> kctx \<Rightarrow> nat \<times> kind \<Rightarrow> krb5_creds \<Rightarrow> ('w, goerror + byte list) cgo" where
  "marshalTGTForListing_c L c k p creds = do {
     read_cred p;
     let creds = creds\<lparr>cr_key := []\<rparr>;
         creds = (case tgt c of
                    Some (_, t) \<Rightarrow>
                      if local_tgt creds then creds\<lparr>cr_ticket_flags := ti_flags t\<rparr> else creds
                  | None \<Rightarrow> creds)
     in do {
       r \<leftarrow> marshalCreds_c L k p creds;
       read_cred p;
       State_Monad.return r } }"

definition unmarshalCreds_c :: "'w krb5_lib \<Rightarrow> kctx \<Rightarrow> byte list \<Rightarrow> ('w, goerror + nat \<times> krb5_creds) cgo" where
  "unmarshalCreds_c L k wire = do {
     cData \<leftarrow> alloc Malloc;
     defer_do (dealloc Malloc cData) (do {
       touch Context (k_ctx k);
       touch Malloc cData;
       case krb5_unmarshal_credentials L wire of
         Inl code \<Rightarrow> fail_c L (k_ctx k) code
       | Inr creds \<Rightarrow> do { h \<leftarrow> alloc Creds; State_Monad.return (Inr (h, creds)) } }) }"

definition tgtInfoFrom_c :: "'w krb5_lib \<Rightarrow> kctx \<Rightarrow> nat \<times> kind \<Rightarrow> krb5_creds \<Rightarrow> ('w, goerror + tgtInfo) cgo" where
  "tgtInfoFrom_c L k p cred = do {
     r \<leftarrow> marshalCreds_c L k p cred;
     case r of
       Inl err \<Rightarrow> State_Monad.return (Inl err)
     | Inr wire \<Rightarrow> do {
         read_cred p;
         State_Monad.return (Inr
           \<lparr>ti_wire = wire,
            ti_client = readPrincipal (cr_client cred), ti_server = readPrincipal (cr_server cred),
            ti_flags = cr_ticket_flags cred,
            ti_authTime = krbTime (cr_authtime cred), ti_startTime = krbTime (cr_starttime cred),
            ti_endTime = krbTime (cr_endtime cred), ti_renewTill = krbTime (cr_renew_till cred)\<rparr>) } }"

definition storeTGT_c :: "'w krb5_lib \<Rightarrow> kctx \<Rightarrow> nat \<times> kind \<Rightarrow> krb5_creds \<Rightarrow> ('w, goerror option) cgo" where
  "storeTGT_c L k p cred = do {
     read_cred p;
     touch Context (k_ctx k);
     touch Ccache (k_cc k);
     code \<leftarrow> lib (krb5_cc_store_cred L workingCacheName (clear_renewable cred));
     read_cred p;
     newError_c L (k_ctx k) code }"

definition removeCredExact_c :: "'w krb5_lib \<Rightarrow> kctx \<Rightarrow> byte list \<Rightarrow> ('w, goerror option) cgo" where
  "removeCredExact_c L k wire = do {
     r \<leftarrow> unmarshalCreds_c L k wire;
     case r of
       Inl err \<Rightarrow> State_Monad.return (Some err)
     | Inr (h, creds) \<Rightarrow> defer_do (free_with Creds (k_ctx k) h) (do {
         touch Context (k_ctx k);
         touch Ccache (k_cc k);
         touch Creds h;
         code \<leftarrow> lib (krb5_cc_remove_cred L workingCacheName (KRB5_TC_MATCH_TIMES_EXACT L) creds);
         if code = CCNotFound then State_Monad.return None else newError_c L (k_ctx k) code }) }"

lemma parseName_c_effect: "ctx_of k \<in> N \<Longrightarrow> effect N {} (parseName_c L k name) (got Princ)"
  unfolding parseName_c_def by (auto intro!: effects)

lemma buildPrincipal_c_effect: "ctx_of k \<in> N \<Longrightarrow> effect N {} (buildPrincipal_c L k p) (got Princ)"
  unfolding buildPrincipal_c_def by (rule parseName_c_effect)

lemma marshalCreds_c_effect: "ctx_of k \<in> N \<Longrightarrow> p \<in> N \<Longrightarrow> tidy N (marshalCreds_c L k p creds)"
  unfolding marshalCreds_c_def by (auto intro!: effects)

lemma unmarshalCreds_c_effect: "ctx_of k \<in> N \<Longrightarrow> effect N {} (unmarshalCreds_c L k wire) (got Creds)"
  unfolding unmarshalCreds_c_def by (auto intro!: effects)

lemmas [effects] = marshalCreds_c_effect effect_bind_tidy [OF marshalCreds_c_effect]
  effect_bind_got [OF parseName_c_effect] effect_bind_got [OF buildPrincipal_c_effect]
  effect_bind_got [OF unmarshalCreds_c_effect]

lemma marshalTGTForListing_c_effect:
  "ctx_of k \<in> N \<Longrightarrow> p \<in> N \<Longrightarrow> tidy N (marshalTGTForListing_c L c k p creds)"
  unfolding marshalTGTForListing_c_def Let_def by (auto intro!: effects)

lemma tgtInfoFrom_c_effect: "ctx_of k \<in> N \<Longrightarrow> p \<in> N \<Longrightarrow> tidy N (tgtInfoFrom_c L k p cred)"
  unfolding tgtInfoFrom_c_def by (auto intro!: effects)

lemma storeTGT_c_effect: "kctx_live k N \<Longrightarrow> p \<in> N \<Longrightarrow> tidy N (storeTGT_c L k p cred)"
  unfolding storeTGT_c_def by (auto intro!: effects)

lemma removeCredExact_c_effect: "kctx_live k N \<Longrightarrow> tidy N (removeCredExact_c L k wire)"
  unfolding removeCredExact_c_def by (auto intro!: effects)

lemmas wrapper_effects [effects] = marshalTGTForListing_c_effect effect_bind_tidy [OF marshalTGTForListing_c_effect]
  tgtInfoFrom_c_effect effect_bind_tidy [OF tgtInfoFrom_c_effect]
  storeTGT_c_effect effect_bind_tidy [OF storeTGT_c_effect]
  removeCredExact_c_effect effect_bind_tidy [OF removeCredExact_c_effect]

lemma parseName_c_computes: "computes forget (parseName_c L k name) (pure (\<lambda>w. parseName L name))"
  unfolding parseName_c_def
  by (rule computes_cong, (rule computing)+) (simp add: parseName_def split: sum.split)

lemma buildPrincipal_c_computes: "computes forget (buildPrincipal_c L k p) (pure (\<lambda>w. buildPrincipal L p))"
  unfolding buildPrincipal_c_def buildPrincipal_def by (rule parseName_c_computes)

lemma marshalCreds_c_computes: "computes same (marshalCreds_c L k p creds) (pure (\<lambda>w. marshalCreds L creds))"
  unfolding marshalCreds_c_def
  by (rule computes_cong, (rule computing)+) (simp add: marshalCreds_def split: sum.split)

lemma unmarshalCreds_c_computes: "computes forget (unmarshalCreds_c L k wire) (pure (\<lambda>w. unmarshalCreds L wire))"
  unfolding unmarshalCreds_c_def
  by (rule computes_cong, (rule computing)+) (simp add: unmarshalCreds_def split: sum.split)

lemmas [computing] = marshalCreds_c_computes computes_bind [OF marshalCreds_c_computes]
  computes_bind_got [OF parseName_c_computes] computes_bind_got [OF buildPrincipal_c_computes]
  computes_bind_got [OF unmarshalCreds_c_computes]

lemma marshalTGTForListing_c_computes:
  "computes same (marshalTGTForListing_c L c k p creds) (pure (\<lambda>w. marshalTGTForListing L c creds))"
  unfolding marshalTGTForListing_c_def Let_def
  by (rule computes_cong, (rule computing)+) (simp add: marshalTGTForListing_def Let_def)

lemma tgtInfoFrom_c_computes: "computes same (tgtInfoFrom_c L k p cred) (pure (\<lambda>w. tgtInfoFrom L cred))"
  unfolding tgtInfoFrom_c_def
  by (rule computes_cong, (rule computing)+) (simp add: tgtInfoFrom_def split: sum.split)

lemma storeTGT_c_computes: "computes same (storeTGT_c L k p cred) (storeTGT L cred)"
  unfolding storeTGT_c_def by (rule computes_cong, (rule computing)+) (simp add: storeTGT_def)

lemma removeCredExact_c_computes: "computes same (removeCredExact_c L k wire) (removeCredExact L wire)"
  unfolding removeCredExact_c_def
  by (rule computes_cong, (rule computing)+) (simp add: removeCredExact_def split: sum.split prod.split)

lemmas wrapper_computes [computing] =
  marshalTGTForListing_c_computes computes_bind [OF marshalTGTForListing_c_computes]
  tgtInfoFrom_c_computes computes_bind [OF tgtInfoFrom_c_computes]
  storeTGT_c_computes computes_bind [OF storeTGT_c_computes]
  removeCredExact_c_computes computes_bind [OF removeCredExact_c_computes]

end
