(* ===== verification/Cgo_Client.thy ===== *)
theory Cgo_Client
  imports Cgo
begin

text \<open>
  The functions of \<open>Client\<close> with the C objects they handle, as in \<open>Cgo\<close>: the loops over a cursor (\<^verbatim>\<open>loadFrom\<close>,
  \<^verbatim>\<open>peekTGT\<close>, \<^verbatim>\<open>sweep\<close>), replacing, renewing and reloading the TGT, \<^verbatim>\<open>maintain\<close>, and \<^verbatim>\<open>Open\<close>, which keeps the discipline
  when it succeeds and on the failures before the source cache is open, but not on the later ones.
\<close>

text \<open>The functional operations, with the library's state last.\<close>

abbreviation (input) paired :: "('w \<Rightarrow> 'a \<times> client \<times> 'w) \<Rightarrow> 'w \<Rightarrow> ('a \<times> client) \<times> 'w" where
  "paired f \<equiv> \<lambda>w. case f w of (r, c, w) \<Rightarrow> ((r, c), w)"

section \<open>Cursors\<close>

definition start_seq_get_c ::
  "'w krb5_lib \<Rightarrow> kctx \<Rightarrow> nat \<Rightarrow> string \<Rightarrow> ('w, i32 + nat \<times> krb5_creds list \<times> i32 \<times> i32) cgo" where
  "start_seq_get_c L k cc name = do {
     touch Context (k_ctx k);
     touch Ccache cc;
     r \<leftarrow> query (krb5_cc_seq_get L name);
     case r of
       Inl code \<Rightarrow> State_Monad.return (Inl code)
     | Inr yields \<Rightarrow> do { cur \<leftarrow> alloc Cursor; State_Monad.return (Inr (cur, yields)) } }"

definition next_cred_c :: "kctx \<Rightarrow> nat \<Rightarrow> nat \<Rightarrow> ('w, unit) cgo" where
  "next_cred_c k cc cur = do { touch Context (k_ctx k); touch Ccache cc; touch Cursor cur }"

definition end_seq_get_c :: "kctx \<Rightarrow> nat \<Rightarrow> nat \<Rightarrow> ('w, unit) cgo" where
  "end_seq_get_c k cc cur = do { touch Context (k_ctx k); touch Ccache cc; dealloc Cursor cur }"

text \<open>A loop closes the cursor when it fails and leaves it open otherwise.\<close>

fun cursor_kept :: "nat \<Rightarrow> 'e + 'a \<Rightarrow> handles" where
  "cursor_kept cur (Inl e) = {}"
| "cursor_kept cur (Inr x) = {(cur, Cursor)}"

lemma start_seq_get_c_effect:
  "ctx_of k \<in> N \<Longrightarrow> (cc, Ccache) \<in> N \<Longrightarrow> effect N {} (start_seq_get_c L k cc name) (got Cursor)"
  unfolding start_seq_get_c_def by (auto intro!: effects)

lemma next_cred_c_effect:
  "ctx_of k \<in> N \<Longrightarrow> (cc, Ccache) \<in> N \<Longrightarrow> (cur, Cursor) \<in> N \<Longrightarrow> tidy N (next_cred_c k cc cur)"
  unfolding next_cred_c_def by (auto intro!: effects effect_touch)

lemma end_seq_get_c_effect:
  "ctx_of k \<in> N \<Longrightarrow> (cc, Ccache) \<in> N \<Longrightarrow> (cur, Cursor) \<in> N \<Longrightarrow>
     effect N {(cur, Cursor)} (end_seq_get_c k cc cur) (\<lambda>_. {})"
  unfolding end_seq_get_c_def by (auto intro!: effects)

lemmas [effects] = effect_bind_got [OF start_seq_get_c_effect] effect_bind_tidy [OF next_cred_c_effect]

lemma effect_bind_end_seq_get [effects]:
  "ctx_of k \<in> N \<Longrightarrow> (cc, Ccache) \<in> N \<Longrightarrow> (cur, Cursor) \<in> N \<Longrightarrow> (cur, Cursor) \<notin> T \<Longrightarrow>
     effect_when Q (N - {(cur, Cursor)}) T (f ()) own \<Longrightarrow>
     effect_when Q N (insert (cur, Cursor) T) (State_Monad.bind (end_seq_get_c k cc cur) f) own"
  by (rule effect_bind_free [OF end_seq_get_c_effect]) auto

lemma effect_bind_cursor:
  assumes "effect N {(cur, Cursor)} m (cursor_kept cur)" "(cur, Cursor) \<in> N" "(cur, Cursor) \<notin> T"
    "\<And>e. effect_when Q (N - {(cur, Cursor)}) T (f (Inl e)) own"
    "\<And>x. effect_when Q N (insert (cur, Cursor) T) (f (Inr x)) own"
  shows "effect_when Q N (insert (cur, Cursor) T) (State_Monad.bind m f) own"
proof -
  have "effect_when Q (N - {(cur, Cursor)} \<union> cursor_kept cur x) (T \<union> cursor_kept cur x) (f x) own" for x
    using assms(2-5) by (cases "(cur, x)" rule: cursor_kept.cases) (auto simp: insert_absorb)
  then show ?thesis using effect_bind [OF assms(1), of T Q f own] assms(3) by simp
qed

lemma start_seq_get_c_computes: "computes forget (start_seq_get_c L k cc name) (pure (krb5_cc_seq_get L name))"
  unfolding start_seq_get_c_def by (rule computes_cong, (rule computing)+) (simp split: sum.split)

lemma cursor_silent [computing]: "silent (next_cred_c k cc cur)" "silent (end_seq_get_c k cc cur)"
  unfolding next_cred_c_def end_seq_get_c_def by (intro computing)+

lemmas [computing] = computes_bind_got [OF start_seq_get_c_computes]
  computes_silent [OF cursor_silent(1)] computes_silent [OF cursor_silent(2)] computes_silent [OF silent_free_with]

section \<open>Loading a cache\<close>

definition loadOne_c ::
  "'w krb5_lib \<Rightarrow> kctx \<Rightarrow> nat \<times> kind \<Rightarrow> gotime \<Rightarrow> krb5_creds \<Rightarrow> tgtInfo option \<Rightarrow>
     ('w, goerror + tgtInfo option) cgo" where
  "loadOne_c L k p now cred found = do {
     touch Context (k_ctx k);
     read_cred p;
     if krb5_is_config_principal L (cr_server cred) then State_Monad.return (Inr found)
     else if isLocalTGT (readPrincipal (cr_client cred)) (readPrincipal (cr_server cred)) then
       (case found of
          Some _ \<Rightarrow> State_Monad.return (Inr found)
        | None \<Rightarrow> do {
            r \<leftarrow> tgtInfoFrom_c L k p cred;
            case r of
              Inl err \<Rightarrow> State_Monad.return (Inl err)
            | Inr info \<Rightarrow> do {
                e \<leftarrow> storeTGT_c L k p cred;
                case e of
                  Some err \<Rightarrow> State_Monad.return (Inl err)
                | None \<Rightarrow> State_Monad.return (Inr (Some info)) } })
     else if \<not> After (krbTime (cr_endtime cred)) now then State_Monad.return (Inr found)
     else do {
       touch Context (k_ctx k);
       touch Ccache (k_cc k);
       read_cred p;
       code \<leftarrow> lib (krb5_cc_store_cred L workingCacheName cred);
       e \<leftarrow> newError_c L (k_ctx k) code;
       case e of Some err \<Rightarrow> State_Monad.return (Inl err) | None \<Rightarrow> State_Monad.return (Inr found) } }"

fun load_creds_c ::
  "'w krb5_lib \<Rightarrow> kctx \<Rightarrow> nat \<Rightarrow> nat \<Rightarrow> gotime \<Rightarrow> krb5_creds list \<Rightarrow> i32 \<Rightarrow> tgtInfo option \<Rightarrow>
     ('w, goerror + tgtInfo option) cgo" where
  "load_creds_c L k src cur now [] code found = do {
     next_cred_c k src cur;
     if code = CCEnd then State_Monad.return (Inr found)
     else do { end_seq_get_c k src cur; fail_c L (k_ctx k) code } }"
| "load_creds_c L k src cur now (cred # creds) code found = do {
     next_cred_c k src cur;
     p \<leftarrow> alloc Cred_contents;
     r \<leftarrow> loadOne_c L k (p, Cred_contents) now cred found;
     free_with Cred_contents (k_ctx k) p;
     case r of
       Inl err \<Rightarrow> do { end_seq_get_c k src cur; State_Monad.return (Inl err) }
     | Inr found \<Rightarrow> load_creds_c L k src cur now creds code found }"

definition loadFrom_c ::
  "'w krb5_lib \<Rightarrow> kctx \<Rightarrow> nat \<Rightarrow> string \<Rightarrow> gotime \<Rightarrow> ('w, goerror + tgtInfo option) cgo" where
  "loadFrom_c L k src name now = do {
     r \<leftarrow> start_seq_get_c L k src name;
     case r of
       Inl code \<Rightarrow> fail_c L (k_ctx k) code
     | Inr (cur, creds, code, endcode) \<Rightarrow> do {
         r \<leftarrow> load_creds_c L k src cur now creds code None;
         case r of
           Inl err \<Rightarrow> State_Monad.return (Inl err)
         | Inr found \<Rightarrow> do {
             end_seq_get_c k src cur;
             e \<leftarrow> newError_c L (k_ctx k) endcode;
             case e of Some err \<Rightarrow> State_Monad.return (Inl err) | None \<Rightarrow> State_Monad.return (Inr found) } } }"

lemma loadOne_c_effect: "kctx_live k N \<Longrightarrow> p \<in> N \<Longrightarrow> tidy N (loadOne_c L k p now cred found)"
  unfolding loadOne_c_def by (auto intro!: effects)

lemmas [effects] = effect_bind_tidy [OF loadOne_c_effect]

lemma load_creds_c_effect:
  "kctx_live k N \<Longrightarrow> (src, Ccache) \<in> N \<Longrightarrow> (cur, Cursor) \<in> N \<Longrightarrow>
     effect N {(cur, Cursor)} (load_creds_c L k src cur now creds code found) (cursor_kept cur)"
  by (induction creds arbitrary: found) (auto intro!: effects)

lemmas [effects] = effect_bind_cursor [OF load_creds_c_effect]

lemma loadFrom_c_effect: "kctx_live k N \<Longrightarrow> (src, Ccache) \<in> N \<Longrightarrow> tidy N (loadFrom_c L k src name now)"
  unfolding loadFrom_c_def by (auto intro!: effects)

lemma loadOne_c_computes: "computes same (loadOne_c L k p now cred found) (loadOne L now cred found)"
  unfolding loadOne_c_def
  by (rule computes_cong, (rule computing)+) (simp add: loadOne_def split: sum.split option.split prod.split)

lemmas [computing] = computes_bind [OF loadOne_c_computes]

lemma load_creds_c_computes:
  "computes same (load_creds_c L k src cur now creds code found) (load_creds L now creds code found)"
proof (induction creds arbitrary: found)
  case Nil
  show ?case unfolding load_creds_c.simps by (rule computes_cong, (rule computing)+) simp
next
  case (Cons cred creds)
  note [computing] = Cons.IH
  show ?case unfolding load_creds_c.simps
    by (rule computes_cong, (rule computing)+) (simp split: sum.split prod.split)
qed

lemmas [computing] = computes_bind [OF load_creds_c_computes]

lemma loadFrom_c_computes: "computes same (loadFrom_c L k src name now) (loadFrom L name now)"
  unfolding loadFrom_c_def
  by (rule computes_cong, (rule computing)+) (simp add: loadFrom_def split: sum.split option.split prod.split)

lemmas [effects] = effect_bind_tidy [OF loadFrom_c_effect]
lemmas [computing] = computes_bind [OF loadFrom_c_computes]

section \<open>Replacing the TGT\<close>

definition remove_previous_c :: "'w krb5_lib \<Rightarrow> kctx \<Rightarrow> client \<Rightarrow> ('w, goerror option) cgo" where
  "remove_previous_c L k c =
     (case tgt c of
        None \<Rightarrow> State_Monad.return None
      | Some (_, t) \<Rightarrow> removeCredExact_c L k (ti_wire t))"

definition setTGT_c :: "'w krb5_lib \<Rightarrow> kctx \<Rightarrow> tgtInfo \<Rightarrow> client \<Rightarrow> ('w, goerror option \<times> client) cgo" where
  "setTGT_c L k info c = do {
     r \<leftarrow> unmarshalCreds_c L k (ti_wire info);
     case r of
       Inl err \<Rightarrow> State_Monad.return (Some err, c)
     | Inr (h, creds) \<Rightarrow> defer_do (free_with Creds (k_ctx k) h) (do {
         e \<leftarrow> remove_previous_c L k c;
         case e of
           Some err \<Rightarrow> State_Monad.return (Some (WrapError ''removing previous TGT: '' err), c)
         | None \<Rightarrow> do {
             e \<leftarrow> storeTGT_c L k (h, Creds) creds;
             case e of
               Some err \<Rightarrow> State_Monad.return (Some err, c)
             | None \<Rightarrow> State_Monad.return (None, resetRenewBackoff (install_tgt info c)) } }) }"

lemma remove_previous_c_effect: "kctx_live k N \<Longrightarrow> tidy N (remove_previous_c L k c)"
  unfolding remove_previous_c_def by (auto intro!: effects)

lemmas [effects] = effect_bind_tidy [OF remove_previous_c_effect]

lemma setTGT_c_effect: "kctx_live k N \<Longrightarrow> tidy N (setTGT_c L k info c)"
  unfolding setTGT_c_def by (auto intro!: effects)

lemma remove_previous_c_computes:
  "computes same (remove_previous_c L k c)
     (\<lambda>w. case tgt c of None \<Rightarrow> (None, w) | Some (_, t) \<Rightarrow> removeCredExact L (ti_wire t) w)"
  unfolding remove_previous_c_def
  by (rule computes_cong, (rule computing)+) (simp split: option.split prod.split)

lemmas [computing] = computes_bind [OF remove_previous_c_computes]

lemma setTGT_c_computes: "computes same (setTGT_c L k info c) (paired (setTGT L info c))"
  unfolding setTGT_c_def
  by (rule computes_cong, (rule computing)+) (simp add: setTGT_def split: sum.split option.split prod.split)

lemmas [effects] = setTGT_c_effect effect_bind_tidy [OF setTGT_c_effect]
lemmas [computing] = setTGT_c_computes computes_bind [OF setTGT_c_computes]

section \<open>Renewal\<close>

text \<open>\<^verbatim>\<open>krb5_cc_destroy\<close> deletes the cache and closes the handle.\<close>

definition cc_destroy_c :: "'w krb5_lib \<Rightarrow> nat \<Rightarrow> nat \<Rightarrow> string \<Rightarrow> ('w, unit) cgo" where
  "cc_destroy_c L ctx cc name = do {
     touch Context ctx;
     lib (\<lambda>w. ((), krb5_cc_destroy L name w));
     dealloc Ccache cc }"

definition renewExchange_c :: "'w krb5_lib \<Rightarrow> kctx \<Rightarrow> byte list \<Rightarrow> ('w, goerror + tgtInfo) cgo" where
  "renewExchange_c L k wire = do {
     r \<leftarrow> unmarshalCreds_c L k wire;
     case r of
       Inl err \<Rightarrow> State_Monad.return (Inl err)
     | Inr (h, tgtCreds) \<Rightarrow> defer_do (free_with Creds (k_ctx k) h) (do {
         name \<leftarrow> alloc Malloc;
         defer_do (dealloc Malloc name) (do {
           touch Context (k_ctx k);
           touch Malloc name;
           code \<leftarrow> query (krb5_cc_resolve L renewCacheName);
           if code \<noteq> 0 then fail_c L (k_ctx k) code
           else do {
             tmp \<leftarrow> alloc Ccache;
             defer_do (cc_destroy_c L (k_ctx k) tmp renewCacheName) (do {
               touch Context (k_ctx k);
               touch Ccache tmp;
               touch Creds h;
               code \<leftarrow> lib (krb5_cc_initialize L renewCacheName (cr_client tgtCreds));
               if code \<noteq> 0 then fail_c L (k_ctx k) code
               else do {
                 touch Context (k_ctx k);
                 touch Ccache tmp;
                 touch Creds h;
                 code \<leftarrow> lib (krb5_cc_store_cred L renewCacheName tgtCreds);
                 if code \<noteq> 0 then fail_c L (k_ctx k) code
                 else do {
                   touch Context (k_ctx k);
                   touch Creds h;
                   touch Ccache tmp;
                   r \<leftarrow> lib (krb5_get_renewed_creds L (cr_client tgtCreds) renewCacheName);
                   case r of
                     Inl code \<Rightarrow> fail_c L (k_ctx k) code
                   | Inr renewed \<Rightarrow> do {
                       p \<leftarrow> alloc Cred_contents;
                       defer_do (free_with Cred_contents (k_ctx k) p)
                         (tgtInfoFrom_c L k (p, Cred_contents) renewed) } } } }) } }) }) }"

definition renew_finish_c ::
  "'w krb5_lib \<Rightarrow> kctx \<Rightarrow> nat \<times> tgtInfo \<Rightarrow> gotime \<Rightarrow> goerror + tgtInfo \<Rightarrow> client \<Rightarrow>
     ('w, goerror option \<times> client) cgo" where
  "renew_finish_c L k started now res c0 =
     (let c = c0\<lparr>renewing := False\<rparr> in
      if map_option fst (tgt c) \<noteq> Some (fst started) then State_Monad.return (None, c)
      else
     (case res of
        Inl err \<Rightarrow> State_Monad.return (Some err, noteRenewFailure now c)
      | Inr info \<Rightarrow> do {
          (e, c) \<leftarrow> setTGT_c L k info c;
          case e of
            Some err \<Rightarrow> State_Monad.return (Some err, noteRenewFailure now c)
          | None \<Rightarrow> State_Monad.return (None, c) }))"

definition renewTGT_c :: "'w krb5_lib \<Rightarrow> kctx \<Rightarrow> gotime \<Rightarrow> client \<Rightarrow> ('w, goerror option \<times> client) cgo" where
  "renewTGT_c L k now c =
     (case renew_start c of
        (Inl err, c) \<Rightarrow> State_Monad.return (Some err, c)
      | (Inr started, c) \<Rightarrow> do {
          res \<leftarrow> renewExchange_c L k (ti_wire (snd started));
          renew_finish_c L k started now res c })"

lemma effect_defer_cc_destroy [effects]:
  assumes "(cc, Ccache) \<notin> T" "(cc, Ccache) \<in> N" "effect_when Q N T body own" "(ctx, Context) \<in> N - T"
  shows "effect_when Q N (insert (cc, Ccache) T) (defer_do (cc_destroy_c L ctx cc name) body) own"
  using assms unfolding cc_destroy_c_def by (auto intro!: effect_defer_one effects)

lemma renewExchange_c_effect: "kctx_live k N \<Longrightarrow> tidy N (renewExchange_c L k wire)"
  unfolding renewExchange_c_def by (auto intro!: effects)

lemmas [effects] = effect_bind_tidy [OF renewExchange_c_effect]

lemma renew_finish_c_effect: "kctx_live k N \<Longrightarrow> tidy N (renew_finish_c L k started now res c)"
  unfolding renew_finish_c_def Let_def by (auto intro!: effects)

lemmas [effects] = renew_finish_c_effect

lemma renewTGT_c_effect: "kctx_live k N \<Longrightarrow> tidy N (renewTGT_c L k now c)"
  unfolding renewTGT_c_def by (auto intro!: effects)

lemma computes_defer_cc_destroy [computing]:
  assumes "computes \<pi> body f"
  shows "computes \<pi> (defer_do (cc_destroy_c L ctx cc name) body)
    (\<lambda>w. case f w of (r, w') \<Rightarrow> (r, krb5_cc_destroy L name w'))"
  unfolding defer_do_def cc_destroy_c_def computes_def
  using computesD [OF assms] by (fastforce simp: touch_def lib_def dealloc_def split: prod.splits)

lemma renewExchange_c_computes: "computes same (renewExchange_c L k wire) (renewExchange L wire)"
  unfolding renewExchange_c_def
  by (rule computes_cong, (rule computing)+) (simp add: renewExchange_def split: sum.split prod.split)

lemmas [computing] = computes_bind [OF renewExchange_c_computes]

lemma renew_finish_c_computes:
  "computes same (renew_finish_c L k started now res c) (paired (renew_finish L started now res c))"
  unfolding renew_finish_c_def Let_def
  by (rule computes_cong, (rule computing)+)
    (simp add: renew_finish_def Let_def split: sum.split option.split prod.split)

lemmas [computing] = renew_finish_c_computes

lemma renewTGT_c_computes: "computes same (renewTGT_c L k now c) (paired (renewTGT L now c))"
  unfolding renewTGT_c_def
  by (rule computes_cong, (rule computing)+) (simp add: renewTGT_def split: sum.split prod.split)

lemmas [effects] = effect_bind_tidy [OF renewTGT_c_effect]
lemmas [computing] = computes_bind [OF renewTGT_c_computes]

section \<open>Adopting a newer TGT from the file\<close>

fun peek_creds_c ::
  "'w krb5_lib \<Rightarrow> kctx \<Rightarrow> nat \<Rightarrow> nat \<Rightarrow> krb5_creds list \<Rightarrow> i32 \<Rightarrow> ('w, goerror + tgtInfo option) cgo" where
  "peek_creds_c L k src cur [] code = do {
     next_cred_c k src cur;
     if code = CCEnd then State_Monad.return (Inr None)
     else do { end_seq_get_c k src cur; fail_c L (k_ctx k) code } }"
| "peek_creds_c L k src cur (cred # creds) code = do {
     next_cred_c k src cur;
     p \<leftarrow> alloc Cred_contents;
     touch Context (k_ctx k);
     touch Cred_contents p;
     if \<not> krb5_is_config_principal L (cr_server cred) \<and>
        isLocalTGT (readPrincipal (cr_client cred)) (readPrincipal (cr_server cred))
     then do {
       r \<leftarrow> tgtInfoFrom_c L k (p, Cred_contents) cred;
       free_with Cred_contents (k_ctx k) p;
       case r of
         Inl err \<Rightarrow> do { end_seq_get_c k src cur; State_Monad.return (Inl err) }
       | Inr info \<Rightarrow> State_Monad.return (Inr (Some info)) }
     else do {
       free_with Cred_contents (k_ctx k) p;
       peek_creds_c L k src cur creds code } }"

definition peekTGT_c :: "'w krb5_lib \<Rightarrow> kctx \<Rightarrow> nat \<Rightarrow> string \<Rightarrow> ('w, goerror + tgtInfo option) cgo" where
  "peekTGT_c L k src name = do {
     r \<leftarrow> start_seq_get_c L k src name;
     case r of
       Inl code \<Rightarrow> fail_c L (k_ctx k) code
     | Inr (cur, creds, code, endcode) \<Rightarrow> do {
         r \<leftarrow> peek_creds_c L k src cur creds code;
         case r of
           Inl err \<Rightarrow> State_Monad.return (Inl err)
         | Inr found \<Rightarrow> do {
             end_seq_get_c k src cur;
             e \<leftarrow> newError_c L (k_ctx k) endcode;
             case e of Some err \<Rightarrow> State_Monad.return (Inl err) | None \<Rightarrow> State_Monad.return (Inr found) } } }"

definition adopt_file_c ::
  "'w krb5_lib \<Rightarrow> kctx \<Rightarrow> nat \<Rightarrow> string \<Rightarrow> nat \<Rightarrow> krb5_principal \<Rightarrow> gotime \<Rightarrow> client \<Rightarrow>
     ('w, goerror option \<times> client) cgo" where
  "adopt_file_c L k src name h princ now c0 = do {
     touch Context (k_ctx k);
     touch Ccache (k_cc k);
     touch Princ h;
     code \<leftarrow> lib (krb5_cc_initialize L workingCacheName (Some princ));
     if code \<noteq> 0 then do { error_c L (k_ctx k) code; State_Monad.return (None, c0) }
     else let c = c0\<lparr>tgt := None\<rparr> in do {
       r \<leftarrow> loadFrom_c L k src name now;
       case r of
         Inl err \<Rightarrow> State_Monad.return (None, c)
       | Inr None \<Rightarrow>
           State_Monad.return
             (Some (GoPanic ''invalid memory address or nil pointer dereference''), resetRenewBackoff c)
       | Inr (Some info) \<Rightarrow> State_Monad.return (None, resetRenewBackoff (install_tgt info c)) } }"

definition loadNewerTGT_c :: "'w krb5_lib \<Rightarrow> kctx \<Rightarrow> gotime \<Rightarrow> client \<Rightarrow> ('w, goerror option \<times> client) cgo" where
  "loadNewerTGT_c L k now c0 =
     (if Sub now (lastFileCheck c0) < fileCheckInterval then State_Monad.return (None, c0)
      else let c = c0\<lparr>lastFileCheck := now\<rparr>; src = FILE_name (srcPath c) in do {
        ok \<leftarrow> query (owner_ok L c);
        if \<not> ok then State_Monad.return (None, c)
        else do {
          name \<leftarrow> alloc Malloc;
          defer_do (dealloc Malloc name) (do {
            touch Context (k_ctx k);
            touch Malloc name;
            code \<leftarrow> query (krb5_cc_resolve L src);
            if code \<noteq> 0 then do { error_c L (k_ctx k) code; State_Monad.return (None, c) }
            else do {
              cc \<leftarrow> alloc Ccache;
              defer_do (free_with Ccache (k_ctx k) cc) (do {
                touch Context (k_ctx k);
                touch Ccache cc;
                r \<leftarrow> query (krb5_cc_get_principal L src);
                case r of
                  Inl code \<Rightarrow> do { error_c L (k_ctx k) code; State_Monad.return (None, c) }
                | Inr princ \<Rightarrow> do {
                    h \<leftarrow> alloc Princ;
                    defer_do (free_with Princ (k_ctx k) h) (do {
                      r \<leftarrow> peekTGT_c L k cc src;
                      case r of
                        Inl err \<Rightarrow> State_Monad.return (None, c)
                      | Inr None \<Rightarrow> State_Monad.return (None, c)
                      | Inr (Some peek) \<Rightarrow>
                          if expired peek now then State_Monad.return (None, c)
                          else if (case tgt c of
                                     None \<Rightarrow> False
                                   | Some (_, t) \<Rightarrow> \<not> After (ti_endTime peek) (ti_endTime t))
                          then State_Monad.return (None, c)
                          else adopt_file_c L k cc src h princ now c }) } }) } }) } })"

lemma peek_creds_c_effect:
  "ctx_of k \<in> N \<Longrightarrow> (src, Ccache) \<in> N \<Longrightarrow> (cur, Cursor) \<in> N \<Longrightarrow>
     effect N {(cur, Cursor)} (peek_creds_c L k src cur creds code) (cursor_kept cur)"
  by (induction creds) (auto intro!: effects)

lemmas [effects] = effect_bind_cursor [OF peek_creds_c_effect]

lemma peekTGT_c_effect: "ctx_of k \<in> N \<Longrightarrow> (src, Ccache) \<in> N \<Longrightarrow> tidy N (peekTGT_c L k src name)"
  unfolding peekTGT_c_def by (auto intro!: effects)

lemma adopt_file_c_effect:
  "kctx_live k N \<Longrightarrow> (src, Ccache) \<in> N \<Longrightarrow> (h, Princ) \<in> N \<Longrightarrow> tidy N (adopt_file_c L k src name h princ now c)"
  unfolding adopt_file_c_def Let_def by (auto intro!: effects)

lemmas [effects] = effect_bind_tidy [OF peekTGT_c_effect] adopt_file_c_effect

lemma loadNewerTGT_c_effect: "kctx_live k N \<Longrightarrow> tidy N (loadNewerTGT_c L k now c)"
  unfolding loadNewerTGT_c_def Let_def by (auto intro!: effects)

lemma peek_creds_c_computes:
  "computes same (peek_creds_c L k src cur creds code) (pure (\<lambda>w. peek_creds L creds code))"
proof (induction creds)
  case Nil
  show ?case unfolding peek_creds_c.simps by (rule computes_cong, (rule computing)+) simp
next
  case (Cons cred creds)
  note [computing] = Cons.IH
  show ?case unfolding peek_creds_c.simps
    by (rule computes_cong, (rule computing)+) (simp split: sum.split)
qed

lemmas [computing] = computes_bind [OF peek_creds_c_computes]

lemma peekTGT_c_computes: "computes same (peekTGT_c L k src name) (pure (peekTGT L name))"
  unfolding peekTGT_c_def
  by (rule computes_cong, (rule computing)+) (simp add: peekTGT_def split: sum.split option.split prod.split)

lemma adopt_file_c_computes:
  "computes same (adopt_file_c L k src name h princ now c) (paired (adopt_file L name princ now c))"
  unfolding adopt_file_c_def Let_def
  by (rule computes_cong, (rule computing)+)
    (simp add: adopt_file_def Let_def split: sum.split option.split prod.split)

lemmas [computing] = computes_bind [OF peekTGT_c_computes] adopt_file_c_computes

lemma loadNewerTGT_c_computes: "computes same (loadNewerTGT_c L k now c) (paired (loadNewerTGT L now c))"
  unfolding loadNewerTGT_c_def Let_def
  by (rule computes_cong, (rule computing)+)
    (simp add: loadNewerTGT_def Let_def split: sum.split option.split prod.split)

lemmas [effects] = loadNewerTGT_c_effect
lemmas [computing] = loadNewerTGT_c_computes

section \<open>Eviction and maintenance\<close>

fun stale_wires_c ::
  "'w krb5_lib \<Rightarrow> client \<Rightarrow> kctx \<Rightarrow> nat \<Rightarrow> gotime \<Rightarrow> krb5_creds list \<Rightarrow> ('w, byte list list) cgo" where
  "stale_wires_c L c k cur now [] = do { next_cred_c k (k_cc k) cur; State_Monad.return [] }"
| "stale_wires_c L c k cur now (cred # creds) = do {
     next_cred_c k (k_cc k) cur;
     p \<leftarrow> alloc Cred_contents;
     touch Context (k_ctx k);
     touch Cred_contents p;
     if stale L c now cred
     then do {
       r \<leftarrow> marshalCreds_c L k (p, Cred_contents) cred;
       free_with Cred_contents (k_ctx k) p;
       wires \<leftarrow> stale_wires_c L c k cur now creds;
       State_Monad.return (case r of Inl err \<Rightarrow> wires | Inr wire \<Rightarrow> wire # wires) }
     else do {
       free_with Cred_contents (k_ctx k) p;
       stale_wires_c L c k cur now creds } }"

fun evict_c :: "'w krb5_lib \<Rightarrow> kctx \<Rightarrow> byte list list \<Rightarrow> ('w, unit) cgo" where
  "evict_c L k [] = State_Monad.return ()"
| "evict_c L k (wire # wires) = do { removeCredExact_c L k wire; evict_c L k wires }"

definition sweep_c :: "'w krb5_lib \<Rightarrow> kctx \<Rightarrow> gotime \<Rightarrow> client \<Rightarrow> ('w, unit) cgo" where
  "sweep_c L k now c = do {
     r \<leftarrow> start_seq_get_c L k (k_cc k) workingCacheName;
     case r of
       Inl code \<Rightarrow> State_Monad.return ()
     | Inr (cur, creds, code, endcode) \<Rightarrow> do {
         wires \<leftarrow> stale_wires_c L c k cur now creds;
         end_seq_get_c k (k_cc k) cur;
         evict_c L k wires } }"

definition reload_section_c :: "'w krb5_lib \<Rightarrow> kctx \<Rightarrow> gotime \<Rightarrow> client \<Rightarrow> ('w, goerror option \<times> client) cgo" where
  "reload_section_c L k now c =
     (if tgtNeedsAttention c now then loadNewerTGT_c L k now c else State_Monad.return (None, c))"

text \<open>What \<^verbatim>\<open>maintain\<close> does after a reload, if there was one.\<close>

definition renew_and_sweep_c ::
  "'w krb5_lib \<Rightarrow> kctx \<Rightarrow> gotime \<Rightarrow> bool \<Rightarrow> client \<Rightarrow> ('w, goerror option \<times> client) cgo" where
  "renew_and_sweep_c L k now renew c =
     (if renew
      then do {
        (err, c) \<leftarrow> renewTGT_c L k now c;
        sweep_c L k now c;
        State_Monad.return (None, c) }
      else do { sweep_c L k now c; State_Monad.return (None, c) })"

definition maintain_c :: "'w krb5_lib \<Rightarrow> kctx \<Rightarrow> gotime \<Rightarrow> client \<Rightarrow> ('w, goerror option \<times> client) cgo" where
  "maintain_c L k now c =
     (let renew0 = renewWanted c now in
      if reload_due c now
      then do {
        (p, c) \<leftarrow> reload_section_c L k now c;
        case p of
          Some panic \<Rightarrow> State_Monad.return (Some panic, c)
        | None \<Rightarrow> renew_and_sweep_c L k now (renewWanted c now) c }
      else renew_and_sweep_c L k now renew0 c)"

lemma stale_wires_c_effect:
  "kctx_live k N \<Longrightarrow> (cur, Cursor) \<in> N \<Longrightarrow> tidy N (stale_wires_c L c k cur now creds)"
proof (induction creds)
  case (Cons cred creds)
  note [effects] = Cons.IH effect_bind_tidy [OF Cons.IH]
  show ?case using Cons.prems by (auto intro!: effects)
qed (auto intro!: effects)

lemma evict_c_effect: "kctx_live k N \<Longrightarrow> tidy N (evict_c L k wires)"
  by (induction wires) (auto intro!: effects)

lemmas [effects] = effect_bind_tidy [OF stale_wires_c_effect] evict_c_effect

lemma sweep_c_effect: "kctx_live k N \<Longrightarrow> tidy N (sweep_c L k now c)"
  unfolding sweep_c_def by (auto intro!: effects)

lemma reload_section_c_effect: "kctx_live k N \<Longrightarrow> tidy N (reload_section_c L k now c)"
  unfolding reload_section_c_def by (auto intro!: effects)

lemmas [effects] = effect_bind_tidy [OF sweep_c_effect] effect_bind_tidy [OF reload_section_c_effect]

lemma renew_and_sweep_c_effect: "kctx_live k N \<Longrightarrow> tidy N (renew_and_sweep_c L k now renew c)"
  unfolding renew_and_sweep_c_def by (auto intro!: effects)

lemmas [effects] = renew_and_sweep_c_effect

lemma maintain_c_effect: "kctx_live k N \<Longrightarrow> tidy N (maintain_c L k now c)"
  unfolding maintain_c_def Let_def by (auto intro!: effects)

lemma stale_wires_c_computes:
  "computes same (stale_wires_c L c k cur now creds) (pure (\<lambda>w. stale_wires L c now creds))"
proof (induction creds)
  case Nil
  show ?case unfolding stale_wires_c.simps by (rule computes_cong, (rule computing)+) simp
next
  case (Cons cred creds)
  note [computing] = Cons.IH computes_bind [OF Cons.IH]
  show ?case unfolding stale_wires_c.simps
    by (rule computes_cong, (rule computing)+) (simp split: sum.split)
qed

lemma evict_c_computes:
  "computes same (evict_c L k wires) (\<lambda>w. ((), fold (\<lambda>wire w. snd (removeCredExact L wire w)) wires w))"
proof (induction wires)
  case Nil
  show ?case unfolding evict_c.simps by (rule computes_cong, (rule computing)+) simp
next
  case (Cons wire wires)
  note [computing] = Cons.IH
  show ?case unfolding evict_c.simps
    by (rule computes_cong, (rule computing)+) (simp split: prod.split)
qed

lemmas [computing] = computes_bind [OF stale_wires_c_computes] evict_c_computes

lemma sweep_c_computes: "computes same (sweep_c L k now c) (\<lambda>w. ((), sweep L now c w))"
  unfolding sweep_c_def
  by (rule computes_cong, (rule computing)+) (simp add: sweep_def split: sum.split prod.split)

lemma reload_section_c_computes: "computes same (reload_section_c L k now c) (paired (reload_section L now c))"
  unfolding reload_section_c_def
  by (rule computes_cong, (rule computing)+) (simp add: reload_section_def)

lemmas [computing] = computes_bind [OF sweep_c_computes] computes_bind [OF reload_section_c_computes]

lemma renew_and_sweep_c_computes:
  "computes same (renew_and_sweep_c L k now renew c)
     (\<lambda>w. case (if renew then (case renewTGT L now c w of (err, c, w) \<Rightarrow> (c, w)) else (c, w)) of
            (c, w) \<Rightarrow> ((None, c), sweep L now c w))"
  unfolding renew_and_sweep_c_def
  by (rule computes_cong, (rule computing)+) (simp split: prod.split)

lemmas [computing] = renew_and_sweep_c_computes

lemma maintain_c_computes: "computes same (maintain_c L k now c) (paired (maintain L now c))"
  unfolding maintain_c_def Let_def
  by (rule computes_cong, (rule computing)+) (simp add: maintain_def Let_def split: option.split prod.split)

section \<open>Opening\<close>

text \<open>\<^verbatim>\<open>k.free()\<close> stands before the \<^verbatim>\<open>return\<close> of every failure, the deferred calls run after it.\<close>

definition open_source_c ::
  "'w krb5_lib \<Rightarrow> kctx \<Rightarrow> nat \<Rightarrow> string \<Rightarrow> string \<Rightarrow> options \<Rightarrow> gotime \<Rightarrow> ('w, goerror + kctx \<times> client) cgo" where
  "open_source_c L k cc src sourcePath opts now = do {
     touch Context (k_ctx k);
     touch Ccache cc;
     r \<leftarrow> query (krb5_cc_get_principal L src);
     case r of
       Inl code \<Rightarrow> do {
         err \<leftarrow> error_c L (k_ctx k) code;
         free_c k;
         State_Monad.return (Inl (WrapError (''reading default principal from '' @ fmt_q sourcePath @ '': '') err)) }
     | Inr princ \<Rightarrow> do {
         h \<leftarrow> alloc Princ;
         defer_do (free_with Princ (k_ctx k) h) (do {
           touch Context (k_ctx k);
           touch Ccache (k_cc k);
           touch Princ h;
           code \<leftarrow> lib (krb5_cc_initialize L workingCacheName (Some princ));
           if code \<noteq> 0 then do {
             err \<leftarrow> error_c L (k_ctx k) code;
             free_c k;
             State_Monad.return (Inl (WrapError ''initializing working cache: '' err)) }
           else do {
             r \<leftarrow> loadFrom_c L k cc src now;
             case r of
               Inl err \<Rightarrow> do {
                 free_c k;
                 State_Monad.return (Inl (WrapError (''copying credentials from '' @ fmt_q sourcePath @ '': '') err)) }
             | Inr found \<Rightarrow>
                 (let c = new_client sourcePath opts;
                      c = (case found of None \<Rightarrow> c | Some info \<Rightarrow> install_tgt info c)
                  in State_Monad.return (Inr (k, c\<lparr>idle := Suc (idle c)\<rparr>))) } }) } }"

definition Open_c :: "'w krb5_lib \<Rightarrow> string \<Rightarrow> options \<Rightarrow> gotime \<Rightarrow> ('w, goerror + kctx \<times> client) cgo" where
  "Open_c L sourcePath opts0 now =
     (let opts = open_defaults opts0; src = FILE_name sourcePath in do {
        owner \<leftarrow> query (\<lambda>w. fileOwner (os_Stat L sourcePath w));
        case owner of
          Inl err \<Rightarrow> State_Monad.return (Inl err)
        | Inr uid \<Rightarrow>
       (if 0 \<le> OwnerUID opts \<and> 0 \<le> uid \<and> uid \<noteq> OwnerUID opts
        then State_Monad.return (Inl (PlainError (''ccache '' @ fmt_q sourcePath @ '' is owned by uid '' @
               fmt_int uid @ '', not '' @ fmt_int (OwnerUID opts))))
        else do {
          r \<leftarrow> newKctx_c L;
          case r of
            Inl err \<Rightarrow> State_Monad.return (Inl err)
          | Inr k \<Rightarrow> do {
              srcName \<leftarrow> alloc Malloc;
              defer_do (dealloc Malloc srcName) (do {
                touch Context (k_ctx k);
                touch Malloc srcName;
                code \<leftarrow> query (krb5_cc_resolve L src);
                if code \<noteq> 0 then do {
                  err \<leftarrow> error_c L (k_ctx k) code;
                  free_c k;
                  State_Monad.return (Inl (WrapError (''resolving source ccache '' @ fmt_q sourcePath @ '': '') err)) }
                else do {
                  cc \<leftarrow> alloc Ccache;
                  defer_do (free_with Ccache (k_ctx k) cc)
                    (open_source_c L k cc src sourcePath opts now) } }) } }) })"

fun opened :: "goerror + kctx \<times> client \<Rightarrow> handles" where
  "opened (Inl err) = {}"
| "opened (Inr (k, c)) = {ctx_of k, cc_of k}"

lemma effect_bind_newKctx:
  assumes "\<And>e. effect_when Q N T (f (Inl e)) own"
    "\<And>k. ctx_of k \<notin> N \<Longrightarrow> cc_of k \<notin> N \<Longrightarrow>
       effect_when Q (insert (ctx_of k) (insert (cc_of k) N)) (insert (ctx_of k) (insert (cc_of k) T)) (f (Inr k)) own"
  shows "effect_when Q N T (State_Monad.bind (newKctx_c L) f) own"
proof (rule effect_bind_own [OF newKctx_c_effect])
  fix x assume "kctx_own x \<inter> N = {}"
  then show "effect_when Q (N \<union> kctx_own x) (T \<union> kctx_own x) (f x) own"
    using assms by (cases x rule: kctx_own.cases) auto
qed

lemma effect_bind_opened:
  assumes "\<And>e. effect_when Q N {} (p e) own"
    "\<And>k. effect_when Q (insert (ctx_of k) (insert (cc_of k) N)) {} (q k) (\<lambda>_. {})"
    "\<And>k. never (\<lambda>r. Q r \<and> own r \<noteq> {ctx_of k, cc_of k}) (q k)"
  shows "effect_when Q N {} (State_Monad.bind (newKctx_c L) (\<lambda>r. case r of Inl e \<Rightarrow> p e | Inr k \<Rightarrow> q k)) own"
  by (rule effect_bind_newKctx) (auto intro: assms effect_hand_over [OF assms(2,3)])

lemma effect_fail_freed [effects]: "effect_when isr N T (do { free_c k; State_Monad.return (Inl e) }) own"
  by (rule effect_never) (auto intro!: excluded)

lemma open_source_c_effect:
  "kctx_live k N \<Longrightarrow> (cc, Ccache) \<in> N \<Longrightarrow> effect_when isr N {} (open_source_c L k cc src path opts now) (\<lambda>_. {})"
  unfolding open_source_c_def Let_def by (auto intro!: effects)

lemma open_source_c_opens:
  "never (\<lambda>r. isr r \<and> opened r \<noteq> {ctx_of k, cc_of k}) (open_source_c L k cc src path opts now)"
  unfolding open_source_c_def Let_def by (auto intro!: excluded)

lemmas [effects] = open_source_c_effect
lemmas [excluded] = open_source_c_opens

text \<open>An \<^verbatim>\<open>Open\<close> that succeeds makes no fault and leaves the two handles of its first context, no others.\<close>

lemma Open_c_effect: "effect_when isr N {} (Open_c L path opts now) opened"
  unfolding Open_c_def Let_def
  by (auto intro!: effects effect_bind_opened excluded)

lemmas [computing] = computes_silent [OF silent_free_c]

lemma open_source_c_computes:
  "computes forget (open_source_c L k cc src path opts now)
     (\<lambda>w. case krb5_cc_get_principal L src w of
        Inl code \<Rightarrow> (Inl (WrapError (''reading default principal from '' @ fmt_q path @ '': '') (krbErr L code)), w)
      | Inr princ \<Rightarrow>
     (case krb5_cc_initialize L workingCacheName (Some princ) w of
        (code, w) \<Rightarrow>
          if code \<noteq> 0 then (Inl (WrapError ''initializing working cache: '' (krbErr L code)), w)
          else
     (case loadFrom L src now w of
        (Inl err, w) \<Rightarrow> (Inl (WrapError (''copying credentials from '' @ fmt_q path @ '': '') err), w)
      | (Inr found, w) \<Rightarrow>
          (let c = new_client path opts;
               c = (case found of None \<Rightarrow> c | Some info \<Rightarrow> install_tgt info c)
           in (Inr (c\<lparr>idle := Suc (idle c)\<rparr>), w)))))"
  unfolding open_source_c_def Let_def
  by (rule computes_cong, (rule computing)+) (simp split: sum.split prod.split)

lemmas [computing] = open_source_c_computes

lemma Open_c_computes: "computes forget (Open_c L path opts now) (Open L path opts now)"
  unfolding Open_c_def Let_def
  by (rule computes_cong, (rule computing)+)
    (simp add: Open_def Let_def split: sum.split prod.split option.split)

section \<open>A context used after it was freed\<close>

text \<open>After \<open>m\<close> with a result in \<open>Q\<close>, the handle \<open>x\<close> is not live.\<close>

definition gone :: "nat \<times> kind \<Rightarrow> ('a \<Rightarrow> bool) \<Rightarrow> ('w, 'a) cgo \<Rightarrow> bool" where
  "gone x Q m \<longleftrightarrow> (\<forall>w H r w' H'. run_state m (w, H) = (r, w', H') \<longrightarrow> Q r \<longrightarrow> x \<notin> h_live H')"

named_theorems losing \<open>rules for handles that are gone\<close>

lemma gone_rules [losing]:
  "(\<And>y. gone x Q (f y)) \<Longrightarrow> gone x Q (State_Monad.bind m0 f)"
  "\<not> Q r \<Longrightarrow> gone x Q (State_Monad.return r)"
  "gone x Q m \<Longrightarrow> gone x Q (defer_do (free_with kd ctx h) m)"
  "gone x Q m \<Longrightarrow> gone x Q n \<Longrightarrow> gone x Q (if b then m else n)"
  "(\<And>e. gone x Q (p e)) \<Longrightarrow> (\<And>y. gone x Q (q y)) \<Longrightarrow> gone x Q (case v of Inl e \<Rightarrow> p e | Inr y \<Rightarrow> q y)"
  unfolding gone_def
  by (fastforce simp: defer_do_def free_with_def touch_def dealloc_def split: prod.splits sum.splits if_splits)+

lemma gone_free_c [losing]: "gone (ctx_of k) Q (do { free_c k; State_Monad.return r })"
  by (auto simp: gone_def free_c_def free_with_def touch_def dealloc_def)

lemma open_source_c_gone: "gone (ctx_of k) isl (open_source_c L k cc src path opts now)"
  unfolding open_source_c_def Let_def by (intro gone_free_c losing) simp_all

lemma OwnerUID_defaults [simp]: "OwnerUID (open_defaults opts) = OwnerUID opts"
  by (simp add: open_defaults_def)

text \<open>Closing the source cache with a freed context.\<close>

lemma free_with_gone:
  assumes "run_state m (w, H) = (r, w1, H1)" "(ctx, Context) \<notin> h_live H1"
    "run_state (defer_do (free_with kd ctx h) m) (w, H) = (r', w', H')"
  shows "Use_after_free ctx Context \<in> set (h_faults H')"
  using assms by (auto simp: defer_do_def free_with_def touch_def dealloc_def split: if_splits)

lemma defer_dealloc_faults:
  "run_state (defer_do (dealloc kd h) m) (w, H) = (r, w', H') \<Longrightarrow>
     \<exists>H1. run_state m (w, H) = (r, w', H1) \<and> set (h_faults H1) \<subseteq> set (h_faults H')"
  by (auto simp: defer_do_def dealloc_def split: prod.splits if_splits)

text \<open>C39: \<^verbatim>\<open>Open\<close> uses a freed context. Whenever \<^verbatim>\<open>Open\<close> fails after it has opened the source cache (its
  principal cannot be read, the working cache cannot be initialised, or copying fails), \<^verbatim>\<open>k.free()\<close> has freed
  the context by the time the deferred \<^verbatim>\<open>krb5_cc_close(k.ctx, src)\<close> passes it to libkrb5.\<close>

theorem Open_use_after_free:
  assumes "fileOwner (os_Stat L path w) = Inr uid" "\<not> (0 \<le> OwnerUID opts \<and> 0 \<le> uid \<and> uid \<noteq> OwnerUID opts)"
    "newKctx L w = None" "krb5_cc_resolve L (FILE_name path) w = 0" "good H"
    "run_state (Open_c L path opts now) (w, H) = (Inl err, w', H')"
  shows "\<exists>ctx. Use_after_free ctx Context \<in> set (h_faults H')"
proof -
  have owner: "(0 \<le> OwnerUID opts \<and> 0 \<le> uid \<and> uid \<noteq> OwnerUID opts) = False" using assms(2) by simp
  obtain x w1 H1 where new: "run_state (newKctx_c L) (w, H) = (x, w1, H1)" using prod_cases3 by blast
  from computesD [OF newKctx_c_computes new] assms(3) obtain k where k: "x = Inr k" "w1 = w"
    by (auto split: sum.splits)
  from effectD(3) [OF newKctx_c_effect assms(5) empty_subsetI new] have live: "ctx_of k \<in> h_live H1" by (simp add: k)
  obtain cc H2 H3 where src: "run_state (defer_do (free_with Ccache (k_ctx k) cc)
      (open_source_c L k cc (FILE_name path) path (open_defaults opts) now)) (w, H2) = (Inl err, w', H3)"
    and faults: "set (h_faults H3) \<subseteq> set (h_faults H')"
    using assms(1,4,6) new k live
    by (clarsimp simp: Open_c_def Let_def query_def alloc_def touch_def owner simp del: de_Morgan_conj
        dest!: defer_dealloc_faults)
  obtain r w4 H4 where run: "run_state (open_source_c L k cc (FILE_name path) path (open_defaults opts) now) (w, H2)
      = (r, w4, H4)" using prod_cases3 by blast
  with src have "r = Inl err" by (auto simp: defer_do_def split: prod.splits)
  then have "ctx_of k \<notin> h_live H4" using open_source_c_gone run unfolding gone_def by fastforce
  from free_with_gone [OF run this src] faults show ?thesis by blast
qed

end
