(* ===== verification/Cgo_Ops.thy ===== *)
theory Cgo_Ops
  imports Cgo_Client
begin

text \<open>
  The operations of \<open>Ops\<close> with the C objects they handle, as in \<open>Cgo\<close>, and the contexts of the pool as the
  list of idle ones, oldest first. A whole life of the client, from \<^verbatim>\<open>Open\<close> over any sequence of operations to
  \<^verbatim>\<open>Close\<close>, gives back every handle and makes no fault.
\<close>

section \<open>Walking the cache\<close>

type_synonym ('w, 's) visitor_c = "nat \<times> kind \<Rightarrow> krb5_creds \<Rightarrow> byte list \<Rightarrow> uuid \<Rightarrow> 's \<Rightarrow> ('w, bool \<times> 's) cgo"

fun walk_c ::
  "'w krb5_lib \<Rightarrow> kctx \<Rightarrow> ('w, 's) visitor_c \<Rightarrow> nat \<Rightarrow> krb5_creds list \<Rightarrow> i32 \<Rightarrow> 's \<Rightarrow>
     ('w, goerror option \<times> 's) cgo" where
  "walk_c L k fn cur [] code s = do {
     next_cred_c k (k_cc k) cur;
     if code = CCEnd then State_Monad.return (None, s)
     else do {
       end_seq_get_c k (k_cc k) cur;
       err \<leftarrow> error_c L (k_ctx k) code;
       State_Monad.return (Some err, s) } }"
| "walk_c L k fn cur (cred # creds) code s = do {
     next_cred_c k (k_cc k) cur;
     p \<leftarrow> alloc Cred_contents;
     touch Context (k_ctx k);
     touch Cred_contents p;
     if krb5_is_config_principal L (cr_server cred)
     then do {
       free_with Cred_contents (k_ctx k) p;
       walk_c L k fn cur creds code s }
     else do {
       r \<leftarrow> marshalCreds_c L k (p, Cred_contents) cred;
       case r of
         Inl err \<Rightarrow> do {
           free_with Cred_contents (k_ctx k) p;
           end_seq_get_c k (k_cc k) cur;
           State_Monad.return (Some err, s) }
       | Inr wire \<Rightarrow> do {
           (stop, s) \<leftarrow> fn (p, Cred_contents) cred wire (uuidOf wire) s;
           free_with Cred_contents (k_ctx k) p;
           if stop then State_Monad.return (None, s) else walk_c L k fn cur creds code s } } }"

definition forEachEntry_c ::
  "'w krb5_lib \<Rightarrow> kctx \<Rightarrow> ('w, 's) visitor_c \<Rightarrow> 's \<Rightarrow> ('w, goerror option \<times> 's) cgo" where
  "forEachEntry_c L k fn s = do {
     r \<leftarrow> start_seq_get_c L k (k_cc k) workingCacheName;
     case r of
       Inl code \<Rightarrow> do { err \<leftarrow> error_c L (k_ctx k) code; State_Monad.return (Some err, s) }
     | Inr (cur, creds, code, endcode) \<Rightarrow> do {
         (e, s) \<leftarrow> walk_c L k fn cur creds code s;
         case e of
           Some err \<Rightarrow> State_Monad.return (Some err, s)
         | None \<Rightarrow> do {
             end_seq_get_c k (k_cc k) cur;
             e \<leftarrow> newError_c L (k_ctx k) endcode;
             State_Monad.return (e, s) } } }"

text \<open>What a callback may do with the credential it is given, and the functional callback it is.\<close>

definition visitor_ok :: "kctx \<Rightarrow> ('w, 's) visitor_c \<Rightarrow> 's visitor \<Rightarrow> bool" where
  "visitor_ok k fn f \<longleftrightarrow>
     (\<forall>N p cred wire u s. kctx_live k N \<longrightarrow> p \<in> N \<longrightarrow> tidy N (fn p cred wire u s)) \<and>
     (\<forall>p cred wire u s. computes same (fn p cred wire u s) (pure (\<lambda>w. f cred wire u s)))"

lemma visitor_okI:
  assumes "\<And>N p cred wire u s. kctx_live k N \<Longrightarrow> p \<in> N \<Longrightarrow> tidy N (fn p cred wire u s)"
    "\<And>p cred wire u s. computes same (fn p cred wire u s) (pure (\<lambda>w. f cred wire u s))"
  shows "visitor_ok k fn f"
  unfolding visitor_ok_def by (intro conjI allI impI assms) simp_all

lemmas visitor_okD = visitor_ok_def [THEN iffD1, THEN conjunct1, rule_format]
  visitor_ok_def [THEN iffD1, THEN conjunct2, rule_format]

fun walk_kept :: "nat \<Rightarrow> goerror option \<times> 's \<Rightarrow> handles" where
  "walk_kept cur (None, s) = {(cur, Cursor)}"
| "walk_kept cur (Some err, s) = {}"

lemma effect_bind_walk:
  assumes "effect N {(cur, Cursor)} m (walk_kept cur)" "(cur, Cursor) \<in> N" "(cur, Cursor) \<notin> T"
    "\<And>err s. effect_when Q (N - {(cur, Cursor)}) T (f (Some err, s)) own"
    "\<And>s. effect_when Q N (insert (cur, Cursor) T) (f (None, s)) own"
  shows "effect_when Q N (insert (cur, Cursor) T) (State_Monad.bind m f) own"
proof -
  have "effect_when Q (N - {(cur, Cursor)} \<union> walk_kept cur x) (T \<union> walk_kept cur x) (f x) own" for x
    using assms(2-5) by (cases "(cur, x)" rule: walk_kept.cases) (auto simp: insert_absorb)
  then show ?thesis using effect_bind [OF assms(1), of T Q f own] assms(3) by simp
qed

lemma walk_c_effect:
  assumes "visitor_ok k fn f"
  shows "kctx_live k N \<Longrightarrow> (cur, Cursor) \<in> N \<Longrightarrow>
     effect N {(cur, Cursor)} (walk_c L k fn cur creds code s) (walk_kept cur)"
  by (induction creds arbitrary: s)
    (auto intro!: effects effect_bind_tidy [OF visitor_okD(1) [OF assms]])

lemma forEachEntry_c_effect:
  "visitor_ok k fn f \<Longrightarrow> kctx_live k N \<Longrightarrow> tidy N (forEachEntry_c L k fn s)"
  unfolding forEachEntry_c_def by (auto intro!: effects effect_bind_walk [OF walk_c_effect])

lemma walk_c_computes:
  assumes "visitor_ok k fn f"
  shows "computes same (walk_c L k fn cur creds code s) (pure (\<lambda>w. walk L f creds code s))"
proof (induction creds arbitrary: s)
  case Nil
  show ?case unfolding walk_c.simps by (rule computes_cong, (rule computing)+) simp
next
  case (Cons cred creds)
  note [computing] = Cons.IH computes_bind [OF visitor_okD(2) [OF assms]]
  show ?case unfolding walk_c.simps
    by (rule computes_cong, (rule computing)+) (simp split: sum.split prod.split)
qed

lemma forEachEntry_c_computes:
  assumes "visitor_ok k fn f"
  shows "computes same (forEachEntry_c L k fn s) (pure (forEachEntry L f s))"
proof -
  note [computing] = computes_bind [OF walk_c_computes [OF assms]]
  show ?thesis unfolding forEachEntry_c_def
    by (rule computes_cong, (rule computing)+)
      (simp add: forEachEntry_def split: sum.split option.split prod.split)
qed

section \<open>Reading operations\<close>

definition defaultPrincipal_c :: "'w krb5_lib \<Rightarrow> kctx \<Rightarrow> ('w, goerror + principal) cgo" where
  "defaultPrincipal_c L k = do {
     touch Context (k_ctx k);
     touch Ccache (k_cc k);
     r \<leftarrow> query (krb5_cc_get_principal L workingCacheName);
     case r of
       Inl code \<Rightarrow> fail_c L (k_ctx k) code
     | Inr princ \<Rightarrow> do {
         h \<leftarrow> alloc Princ;
         defer_do (free_with Princ (k_ctx k) h) (do {
           touch Princ h;
           State_Monad.return (Inr (readPrincipal (Some princ))) }) } }"

definition listed_wire_c ::
  "'w krb5_lib \<Rightarrow> client \<Rightarrow> kctx \<Rightarrow> nat \<times> kind \<Rightarrow> krb5_creds \<Rightarrow> byte list \<Rightarrow> ('w, goerror + byte list) cgo" where
  "listed_wire_c L c k p cred wire = do {
     read_cred p;
     if isTGTServer (readPrincipal (cr_server cred)) then marshalTGTForListing_c L c k p cred
     else State_Monad.return (Inr wire) }"

definition list_visitor_c ::
  "'w krb5_lib \<Rightarrow> client \<Rightarrow> kctx \<Rightarrow> ('w, entry list \<times> goerror option) visitor_c" where
  "list_visitor_c L c k p cred wire uuid s = do {
     r \<leftarrow> listed_wire_c L c k p cred wire;
     case s of (es, redErr) \<Rightarrow>
       (case r of
          Inl err \<Rightarrow> State_Monad.return (True, es, Some err)
        | Inr w \<Rightarrow> State_Monad.return
            (False, es @ [\<lparr>e_UUID = uuid, e_Server = readPrincipal (cr_server cred), e_Wire = w\<rparr>], redErr)) }"

definition list_entries_c :: "'w krb5_lib \<Rightarrow> client \<Rightarrow> kctx \<Rightarrow> ('w, goerror + entry list) cgo" where
  "list_entries_c L c k = do {
     (err, es, redErr) \<leftarrow> forEachEntry_c L k (list_visitor_c L c k) ([], None);
     State_Monad.return
       (case redErr of
          Some e \<Rightarrow> Inl e
        | None \<Rightarrow> (case err of Some e \<Rightarrow> Inl e | None \<Rightarrow> Inr es)) }"

definition find_visitor_c ::
  "'w krb5_lib \<Rightarrow> client \<Rightarrow> kctx \<Rightarrow> uuid \<Rightarrow> ('w, entry option \<times> goerror option) visitor_c" where
  "find_visitor_c L c k uuid p cred wire u s =
     (case s of (found, redErr) \<Rightarrow>
        if u \<noteq> uuid then State_Monad.return (False, found, redErr)
        else do {
          r \<leftarrow> listed_wire_c L c k p cred wire;
          case r of
            Inl err \<Rightarrow> State_Monad.return (True, found, Some err)
          | Inr w \<Rightarrow> State_Monad.return
              (True, Some \<lparr>e_UUID = u, e_Server = readPrincipal (cr_server cred), e_Wire = w\<rparr>, redErr) })"

definition find_entry_c :: "'w krb5_lib \<Rightarrow> uuid \<Rightarrow> client \<Rightarrow> kctx \<Rightarrow> ('w, goerror + entry option) cgo" where
  "find_entry_c L uuid c k = do {
     (err, found, redErr) \<leftarrow> forEachEntry_c L k (find_visitor_c L c k uuid) (None, None);
     State_Monad.return
       (case redErr of
          Some e \<Rightarrow> Inl e
        | None \<Rightarrow> (case err of Some e \<Rightarrow> Inl e | None \<Rightarrow> Inr found)) }"

lemma defaultPrincipal_c_effect: "kctx_live k N \<Longrightarrow> tidy N (defaultPrincipal_c L k)"
  unfolding defaultPrincipal_c_def by (auto intro!: effects)

lemma listed_wire_c_effect: "ctx_of k \<in> N \<Longrightarrow> p \<in> N \<Longrightarrow> tidy N (listed_wire_c L c k p cred wire)"
  unfolding listed_wire_c_def by (auto intro!: effects)

lemma defaultPrincipal_c_computes: "computes same (defaultPrincipal_c L k) (pure (defaultPrincipal L))"
  unfolding defaultPrincipal_c_def
  by (rule computes_cong, (rule computing)+) (simp add: defaultPrincipal_def split: sum.split)

lemma listed_wire_c_computes:
  "computes same (listed_wire_c L c k p cred wire) (pure (\<lambda>w. listed_wire L c cred wire))"
  unfolding listed_wire_c_def by (rule computes_cong, (rule computing)+) (simp add: listed_wire_def)

lemmas [effects] = effect_bind_tidy [OF defaultPrincipal_c_effect] effect_bind_tidy [OF listed_wire_c_effect]
lemmas [computing] = computes_bind [OF defaultPrincipal_c_computes] computes_bind [OF listed_wire_c_computes]

lemma list_visitor_c_ok: "visitor_ok k (list_visitor_c L c k) (list_visitor L c)"
proof (rule visitor_okI)
  show "computes same (list_visitor_c L c k p cred wire u s) (pure (\<lambda>w. list_visitor L c cred wire u s))"
    for p cred wire u s
    unfolding list_visitor_c_def
    by (rule computes_cong, (rule computing)+) (simp add: list_visitor_def split: sum.split prod.split)
qed (auto simp: list_visitor_c_def intro!: effects)

lemma find_visitor_c_ok: "visitor_ok k (find_visitor_c L c k uuid) (find_visitor L c uuid)"
proof (rule visitor_okI)
  show "computes same (find_visitor_c L c k uuid p cred wire u s) (pure (\<lambda>w. find_visitor L c uuid cred wire u s))"
    for p cred wire u s
    unfolding find_visitor_c_def
    by (rule computes_cong, (rule computing)+) (simp add: find_visitor_def split: sum.split prod.split)
qed (auto simp: find_visitor_c_def intro!: effects)

lemmas walk_effects = effect_bind_tidy [OF forEachEntry_c_effect [OF list_visitor_c_ok]]
  effect_bind_tidy [OF forEachEntry_c_effect [OF find_visitor_c_ok]]

lemmas walk_computes = computes_bind [OF forEachEntry_c_computes [OF list_visitor_c_ok]]
  computes_bind [OF forEachEntry_c_computes [OF find_visitor_c_ok]]

lemma list_entries_c_effect: "kctx_live k N \<Longrightarrow> tidy N (list_entries_c L c k)"
  unfolding list_entries_c_def by (auto intro!: effects walk_effects)

lemma find_entry_c_effect: "kctx_live k N \<Longrightarrow> tidy N (find_entry_c L uuid c k)"
  unfolding find_entry_c_def by (auto intro!: effects walk_effects)

lemma list_entries_c_computes: "computes same (list_entries_c L c k) (pure (list_entries L c))"
  unfolding list_entries_c_def
  by (rule computes_cong, (rule computing walk_computes)+) (simp add: list_entries_def split: prod.split)

lemma find_entry_c_computes: "computes same (find_entry_c L uuid c k) (pure (find_entry L uuid c))"
  unfolding find_entry_c_def
  by (rule computes_cong, (rule computing walk_computes)+) (simp add: find_entry_def split: prod.split)

lemmas [effects] = effect_bind_tidy [OF list_entries_c_effect] effect_bind_tidy [OF find_entry_c_effect]
lemmas [computing] = computes_bind [OF list_entries_c_computes] computes_bind [OF find_entry_c_computes]

section \<open>Match templates\<close>

text \<open>The cleanup function that \<^verbatim>\<open>buildMatchTemplate\<close> returns is the list \<^verbatim>\<open>toFree\<close> of what it releases, last first:
  principals with the context, C memory with \<^verbatim>\<open>free\<close>. The template points to the same objects.\<close>

fun free_all :: "nat \<Rightarrow> (nat \<times> kind) list \<Rightarrow> ('w, unit) cgo" where
  "free_all ctx [] = State_Monad.return ()"
| "free_all ctx ((h, kd) # ps) =
     (if kd = Malloc then do { dealloc Malloc h; free_all ctx ps }
      else do { free_with kd ctx h; free_all ctx ps })"

definition cleanup_c :: "nat \<Rightarrow> (nat \<times> kind) list \<Rightarrow> ('w, unit) cgo" where
  "cleanup_c ctx toFree = free_all ctx (rev toFree)"

fun read_parts :: "(nat \<times> kind) list \<Rightarrow> ('w, unit) cgo" where
  "read_parts [] = State_Monad.return ()"
| "read_parts (p # ps) = do { read_cred p; read_parts ps }"

definition template_client_c ::
  "'w krb5_lib \<Rightarrow> kctx \<Rightarrow> match_credential \<Rightarrow> ('w, goerror + nat \<times> krb5_principal) cgo" where
  "template_client_c L k mc =
     (if HasClient mc
      then do {
        r \<leftarrow> buildPrincipal_c L k (Client mc);
        case r of
          Inl perr \<Rightarrow> State_Monad.return (Inl (WrapError ''client principal: '' perr))
        | Inr (h, p) \<Rightarrow> State_Monad.return (Inr (h, p)) }
      else do {
        touch Context (k_ctx k);
        touch Ccache (k_cc k);
        r \<leftarrow> query (krb5_cc_get_principal L workingCacheName);
        case r of
          Inl code \<Rightarrow> fail_c L (k_ctx k) code
        | Inr p \<Rightarrow> do { h \<leftarrow> alloc Princ; State_Monad.return (Inr (h, p)) } })"

definition buildMatchTemplate_c ::
  "'w krb5_lib \<Rightarrow> kctx \<Rightarrow> match_credential \<Rightarrow> ('w, (goerror + krb5_creds) \<times> (nat \<times> kind) list) cgo" where
  "buildMatchTemplate_c L k mc = do {
     r \<leftarrow> template_client_c L k mc;
     case r of
       Inl err \<Rightarrow> State_Monad.return (Inl err, [])
     | Inr (hc, client) \<Rightarrow>
         if \<not> HasServer mc
         then State_Monad.return (Inl (PlainError ''match-credential has no server principal''), [(hc, Princ)])
         else do {
           r \<leftarrow> buildPrincipal_c L k (Server mc);
           case r of
             Inl perr \<Rightarrow> State_Monad.return (Inl (WrapError ''server principal: '' perr), [(hc, Princ)])
           | Inr (hs, server) \<Rightarrow>
               (let creds = empty_creds\<lparr>cr_client := Some client, cr_server := Some server\<rparr>;
                    creds = (if HasSessionKey mc then creds\<lparr>cr_enctype := KeyType mc\<rparr> else creds);
                    creds = (if IsSKey mc then creds\<lparr>cr_is_skey := True\<rparr> else creds)
                in if HasSecondTicket mc \<and> 0 < length (SecondTicket mc)
                   then do {
                     ptr \<leftarrow> alloc Malloc;
                     State_Monad.return
                       (Inr (creds\<lparr>cr_second_ticket := SecondTicket mc\<rparr>), [(hc, Princ), (hs, Princ), (ptr, Malloc)]) }
                   else State_Monad.return (Inr creds, [(hc, Princ), (hs, Princ)])) } }"

fun templated :: "(goerror + krb5_creds) \<times> (nat \<times> kind) list \<Rightarrow> handles" where
  "templated (r, ps) = (if distinct ps then set ps else UNIV)"

lemma free_all_effect:
  "(ctx, Context) \<in> N - set ps \<Longrightarrow> set ps \<subseteq> N \<Longrightarrow> distinct ps \<Longrightarrow> effect N (set ps) (free_all ctx ps) (\<lambda>_. {})"
proof (induction ps arbitrary: N)
  case (Cons p ps)
  obtain h kd where p: "p = (h, kd)" by (cases p)
  have "(ctx, Context) \<in> N - {p} - set ps" "set ps \<subseteq> N - {p}" "distinct ps" using Cons.prems by auto
  note e = Cons.IH [OF this]
  from e Cons.prems show ?case by (auto simp: p intro!: effects)
qed (auto intro!: effects)

lemma effect_defer_cleanup [effects]:
  "set ps \<inter> T = {} \<Longrightarrow> set ps \<subseteq> N \<Longrightarrow> distinct ps \<Longrightarrow> effect_when Q N T body own \<Longrightarrow>
     (ctx, Context) \<in> N - T - set ps \<Longrightarrow> effect_when Q N (set ps \<union> T) (defer_do (cleanup_c ctx ps) body) own"
  using free_all_effect [of ctx "N - T" "rev ps"]
  by (intro effect_defer) (auto simp: cleanup_c_def)

lemma read_parts_effect: "set ps \<subseteq> N \<Longrightarrow> tidy N (read_parts ps)"
  by (induction ps) (auto intro!: effects)

lemmas [effects] = effect_bind_tidy [OF read_parts_effect]

lemma template_client_c_effect: "kctx_live k N \<Longrightarrow> effect N {} (template_client_c L k mc) (got Princ)"
  unfolding template_client_c_def by (auto intro!: effects)

lemmas [effects] = effect_bind_got [OF template_client_c_effect]

lemma buildMatchTemplate_c_effect: "kctx_live k N \<Longrightarrow> effect N {} (buildMatchTemplate_c L k mc) templated"
  unfolding buildMatchTemplate_c_def Let_def by (auto intro!: effects)

lemma effect_bind_template [effects]:
  assumes "kctx_live k N"
    "\<And>r ps. set ps \<inter> N = {} \<Longrightarrow> distinct ps \<Longrightarrow> effect_when Q (set ps \<union> N) (set ps \<union> T) (f (r, ps)) own"
  shows "effect_when Q N T (State_Monad.bind (buildMatchTemplate_c L k mc) f) own"
proof (rule effect_bind_own [OF buildMatchTemplate_c_effect [OF assms(1)]])
  fix x :: "(goerror + krb5_creds) \<times> (nat \<times> kind) list"
  assume "templated x \<inter> N = {}" "templated x \<noteq> UNIV"
  then show "effect_when Q (N \<union> templated x) (T \<union> templated x) (f x) own"
    using assms(2) by (cases x) (auto simp: Un_commute split: if_splits)
qed

lemma silent_cleanup [computing]: "silent (cleanup_c ctx ps)" "silent (read_parts ps)"
proof -
  have "silent (free_all ctx ps)" for ps
    by (induction ctx ps rule: free_all.induct) (auto intro!: computing)
  then show "silent (cleanup_c ctx ps)" by (simp add: cleanup_c_def)
  show "silent (read_parts ps)" by (induction ps) (auto intro!: computing)
qed

lemmas [computing] = computes_silent [OF silent_cleanup(2)]

lemma template_client_c_computes: "computes forget (template_client_c L k mc) (pure (template_client L mc))"
  unfolding template_client_c_def
  by (rule computes_cong, (rule computing)+) (simp add: template_client_def split: sum.split)

lemmas [computing] = computes_bind_got [OF template_client_c_computes]

lemma buildMatchTemplate_c_computes: "computes fst (buildMatchTemplate_c L k mc) (pure (buildMatchTemplate L mc))"
  unfolding buildMatchTemplate_c_def Let_def
proof (rule computes_cong, (rule computing)+, goal_cases)
  case (1 w)
  show ?case
    by (cases "template_client L mc w"; cases "buildPrincipal L (Server mc)"; cases "HasServer mc";
        cases "HasSecondTicket mc \<and> 0 < length (SecondTicket mc)")
      (simp_all only: buildMatchTemplate_def and_then_def wrap_def Let_def prod.case sum.case if_True if_False
        simp_thms)
qed

lemmas [computing] = computes_bind_fst [OF buildMatchTemplate_c_computes]

section \<open>Retrieval\<close>

definition getCredentials_c :: "'w krb5_lib \<Rightarrow> kctx \<Rightarrow> match_credential \<Rightarrow> ('w, goerror + byte list) cgo" where
  "getCredentials_c L k mc = do {
     (r, toFree) \<leftarrow> buildMatchTemplate_c L k mc;
     defer_do (cleanup_c (k_ctx k) toFree)
      (case r of
         Inl err \<Rightarrow> State_Monad.return (Inl err)
       | Inr inCreds \<Rightarrow> do {
           touch Context (k_ctx k);
           read_parts toFree;
           if krb5_is_config_principal L (cr_server inCreds)
           then State_Monad.return (Inl (KrbError CCNotFound ''Matching credential not found''))
           else do {
             touch Context (k_ctx k);
             touch Ccache (k_cc k);
             read_parts toFree;
             r \<leftarrow> lib (krb5_get_credentials L 0 workingCacheName inCreds);
             case r of
               Inl code \<Rightarrow> fail_c L (k_ctx k) code
             | Inr outCreds \<Rightarrow> do {
                 h \<leftarrow> alloc Creds;
                 defer_do (free_with Creds (k_ctx k) h) (marshalCreds_c L k (h, Creds) outCreds) } } }) }"

lemma getCredentials_c_effect: "kctx_live k N \<Longrightarrow> tidy N (getCredentials_c L k mc)"
  unfolding getCredentials_c_def by (auto intro!: effects)

lemma getCredentials_c_computes: "computes same (getCredentials_c L k mc) (getCredentials L mc)"
  unfolding getCredentials_c_def
  by (rule computes_cong, (rule computing)+) (simp add: getCredentials_def split: sum.split prod.split)

lemmas [effects] = effect_bind_tidy [OF getCredentials_c_effect]
lemmas [computing] = computes_bind [OF getCredentials_c_computes]

section \<open>Updating operations\<close>

type_synonym ('w, 'a) operation_c = "kctx \<Rightarrow> client \<Rightarrow> ('w, (goerror + 'a) \<times> client) cgo"

text \<open>The result of a call that reports only an error.\<close>

definition done_or :: "goerror option \<Rightarrow> 'a \<Rightarrow> goerror + 'a" where
  "done_or e x = (case e of Some err \<Rightarrow> Inl err | None \<Rightarrow> Inr x)"

definition remove_by_uuid_c :: "'w krb5_lib \<Rightarrow> uuid \<Rightarrow> ('w, bool) operation_c" where
  "remove_by_uuid_c L uuid k c = do {
     (e, found) \<leftarrow> forEachEntry_c L k (\<lambda>p cred w u s. State_Monad.return (wire_visitor uuid cred w u s)) None;
     case e of
       Some err \<Rightarrow> State_Monad.return (Inl err, c)
     | None \<Rightarrow>
    (case found of
       None \<Rightarrow> State_Monad.return (Inr False, c)
     | Some wire \<Rightarrow> do {
         r \<leftarrow> unmarshalCreds_c L k wire;
         case r of
           Inl err \<Rightarrow> State_Monad.return (Inl err, c)
         | Inr (h, creds) \<Rightarrow> defer_do (free_with Creds (k_ctx k) h) (do {
             touch Context (k_ctx k);
             touch Ccache (k_cc k);
             touch Creds h;
             code \<leftarrow> lib (krb5_cc_remove_cred L workingCacheName 0 creds);
             e \<leftarrow> newError_c L (k_ctx k) code;
             State_Monad.return (done_or e True, c) }) }) }"

definition remove_matching_c :: "'w krb5_lib \<Rightarrow> match_credential \<Rightarrow> ('w, unit) operation_c" where
  "remove_matching_c L mc k c = do {
     (r, toFree) \<leftarrow> buildMatchTemplate_c L k mc;
     defer_do (cleanup_c (k_ctx k) toFree)
      (case r of
         Inl err \<Rightarrow> State_Monad.return (Inl err, c)
       | Inr inCreds \<Rightarrow> do {
           touch Context (k_ctx k);
           touch Ccache (k_cc k);
           read_parts toFree;
           code \<leftarrow> lib (krb5_cc_remove_cred L workingCacheName 0 inCreds);
           e \<leftarrow> newError_c L (k_ctx k) code;
           State_Monad.return (done_or e (), c) }) }"

definition store_plain_c :: "'w krb5_lib \<Rightarrow> nat \<times> kind \<Rightarrow> krb5_creds \<Rightarrow> ('w, unit) operation_c" where
  "store_plain_c L p creds k c = do {
     touch Context (k_ctx k);
     touch Ccache (k_cc k);
     read_cred p;
     code \<leftarrow> lib (krb5_cc_store_cred L workingCacheName creds);
     e \<leftarrow> newError_c L (k_ctx k) code;
     State_Monad.return (done_or e (), c) }"

definition adopt_stored_c :: "'w krb5_lib \<Rightarrow> nat \<times> kind \<Rightarrow> krb5_creds \<Rightarrow> ('w, unit) operation_c" where
  "adopt_stored_c L p creds k c = do {
     r \<leftarrow> tgtInfoFrom_c L k p creds;
     case r of
       Inl err \<Rightarrow> State_Monad.return (Inl err, c)
     | Inr info \<Rightarrow> do {
         (e, c) \<leftarrow> setTGT_c L k info c;
         State_Monad.return (done_or e (), c) } }"

definition store_creds_c :: "'w krb5_lib \<Rightarrow> byte list \<Rightarrow> ('w, unit) operation_c" where
  "store_creds_c L credWire k c = do {
     r \<leftarrow> unmarshalCreds_c L k credWire;
     case r of
       Inl err \<Rightarrow> State_Monad.return (Inl err, c)
     | Inr (h, creds) \<Rightarrow> defer_do (free_with Creds (k_ctx k) h) (do {
         touch Creds h;
         if isLocalTGT (readPrincipal (cr_client creds)) (readPrincipal (cr_server creds))
         then do {
           r \<leftarrow> defaultPrincipal_c L k;
           case r of
             Inl err \<Rightarrow> State_Monad.return (Inl err, c)
           | Inr mine \<Rightarrow>
               if UnparseName mine = UnparseName (readPrincipal (cr_client creds))
               then adopt_stored_c L (h, Creds) creds k c
               else store_plain_c L (h, Creds) creds k c }
         else store_plain_c L (h, Creds) creds k c }) }"

definition initialize_cache_c :: "'w krb5_lib \<Rightarrow> principal \<Rightarrow> ('w, unit) operation_c" where
  "initialize_cache_c L p k c = do {
     r \<leftarrow> buildPrincipal_c L k p;
     case r of
       Inl err \<Rightarrow> State_Monad.return (Inl err, c)
     | Inr (h, princ) \<Rightarrow> defer_do (free_with Princ (k_ctx k) h) (do {
         touch Context (k_ctx k);
         touch Ccache (k_cc k);
         touch Princ h;
         code \<leftarrow> lib (krb5_cc_initialize L workingCacheName (Some princ));
         if code \<noteq> 0 then do { err \<leftarrow> error_c L (k_ctx k) code; State_Monad.return (Inl err, c) }
         else State_Monad.return (Inr (), resetRenewBackoff (c\<lparr>tgt := None\<rparr>)) }) }"

text \<open>An operation with a live context keeps the discipline and computes the functional operation.\<close>

definition operation_ok :: "('w, 'a) operation_c \<Rightarrow> ('w, 'a) operation \<Rightarrow> bool" where
  "operation_ok f_c f \<longleftrightarrow>
     (\<forall>k c N. kctx_live k N \<longrightarrow> tidy N (f_c k c)) \<and> (\<forall>k c. computes same (f_c k c) (paired (f c)))"

lemma operation_okI:
  assumes "\<And>k c N. kctx_live k N \<Longrightarrow> tidy N (f_c k c)" "\<And>k c. computes same (f_c k c) (paired (f c))"
  shows "operation_ok f_c f"
  unfolding operation_ok_def by (intro conjI allI impI assms) simp_all

lemmas operation_okD = operation_ok_def [THEN iffD1, THEN conjunct1, rule_format]
  operation_ok_def [THEN iffD1, THEN conjunct2, rule_format]

lemma wire_visitor_ok:
  "visitor_ok k (\<lambda>p cred w u s. State_Monad.return (wire_visitor uuid cred w u s)) (wire_visitor uuid)"
  by (rule visitor_okI) (auto intro!: effects computing)

lemma remove_by_uuid_c_ok: "operation_ok (remove_by_uuid_c L uuid) (remove_by_uuid L uuid)"
proof (rule operation_okI)
  show "tidy N (remove_by_uuid_c L uuid k c)" if "kctx_live k N" for k c N
    using that unfolding remove_by_uuid_c_def
    by (auto intro!: effects effect_bind_tidy [OF forEachEntry_c_effect [OF wire_visitor_ok]])
  note [computing] = computes_bind [OF forEachEntry_c_computes [OF wire_visitor_ok]]
  show "computes same (remove_by_uuid_c L uuid k c) (paired (remove_by_uuid L uuid c))" for k c
    unfolding remove_by_uuid_c_def
    by (rule computes_cong, (rule computing)+)
      (simp add: remove_by_uuid_def done_or_def split: sum.split option.split prod.split)
qed

lemma remove_matching_c_ok: "operation_ok (remove_matching_c L mc) (remove_matching L mc)"
proof (rule operation_okI)
  show "tidy N (remove_matching_c L mc k c)" if "kctx_live k N" for k c N
    using that unfolding remove_matching_c_def by (auto intro!: effects)
  show "computes same (remove_matching_c L mc k c) (paired (remove_matching L mc c))" for k c
    unfolding remove_matching_c_def
    by (rule computes_cong, (rule computing)+)
      (simp add: remove_matching_def done_or_def split: sum.split prod.split)
qed

lemma store_plain_c_effect: "kctx_live k N \<Longrightarrow> p \<in> N \<Longrightarrow> tidy N (store_plain_c L p creds k c)"
  unfolding store_plain_c_def by (auto intro!: effects)

lemma adopt_stored_c_effect: "kctx_live k N \<Longrightarrow> p \<in> N \<Longrightarrow> tidy N (adopt_stored_c L p creds k c)"
  unfolding adopt_stored_c_def by (auto intro!: effects)

lemma store_plain_c_computes: "computes same (store_plain_c L p creds k c) (paired (store_plain L creds c))"
  unfolding store_plain_c_def
  by (rule computes_cong, (rule computing)+) (simp add: store_plain_def done_or_def split: prod.split)

lemma adopt_stored_c_computes: "computes same (adopt_stored_c L p creds k c) (paired (adopt_stored L creds c))"
  unfolding adopt_stored_c_def
  by (rule computes_cong, (rule computing)+)
    (simp add: adopt_stored_def done_or_def split: sum.split option.split prod.split)

lemmas [effects] = store_plain_c_effect adopt_stored_c_effect
lemmas [computing] = store_plain_c_computes adopt_stored_c_computes

lemma store_creds_c_ok: "operation_ok (store_creds_c L credWire) (store_creds L credWire)"
proof (rule operation_okI)
  show "tidy N (store_creds_c L credWire k c)" if "kctx_live k N" for k c N
    using that unfolding store_creds_c_def by (auto intro!: effects)
  show "computes same (store_creds_c L credWire k c) (paired (store_creds L credWire c))" for k c
    unfolding store_creds_c_def
    by (rule computes_cong, (rule computing)+) (simp add: store_creds_def Let_def split: sum.split)
qed

lemma initialize_cache_c_ok: "operation_ok (initialize_cache_c L p) (initialize_cache L p)"
proof (rule operation_okI)
  show "tidy N (initialize_cache_c L p k c)" if "kctx_live k N" for k c N
    using that unfolding initialize_cache_c_def by (auto intro!: effects)
  show "computes same (initialize_cache_c L p k c) (paired (initialize_cache L p c))" for k c
    unfolding initialize_cache_c_def
    by (rule computes_cong, (rule computing)+) (simp add: initialize_cache_def split: sum.split prod.split)
qed

end
