(* ===== verification/Cgo_Session.thy ===== *)
theory Cgo_Session
  imports Cgo_Ops Describe
begin

text \<open>
  The pool's contexts with their handles (the list of idle ones, oldest first, as the channel \<^verbatim>\<open>c.free\<close> has them),
  the operations that borrow one, and a life of the client: \<^verbatim>\<open>Open\<close>, any sequence of operations and background
  rounds, \<^verbatim>\<open>Close\<close>. Operations run one after the other; that concurrent ones never share a context is shown in
  \<open>Pool\<close>.
\<close>

section \<open>The number of idle contexts\<close>

abbreviation idles :: "nat \<Rightarrow> client \<Rightarrow> 'w \<Rightarrow> bool" where
  "idles n \<equiv> \<lambda>c w. idle c = n"

lemma idle_backoff [simp]: "idle (noteRenewFailure now c) = idle c" "idle (resetRenewBackoff c) = idle c"
  by (simp_all add: noteRenewFailure_def resetRenewBackoff_def Let_def)

lemma setTGT_idle: "setTGT L info c w = (e, c', w') \<Longrightarrow> idle c' = idle c"
  by (auto simp: setTGT_def install_tgt_def split: op_splits)

lemma renewTGT_idle: "renewTGT L now c w = (e, c', w') \<Longrightarrow> idle c' = idle c"
  by (auto simp: renewTGT_def renew_start_def renew_finish_def Let_def split: op_splits dest!: setTGT_idle)

lemma loadNewerTGT_idle: "loadNewerTGT L now c w = (e, c', w') \<Longrightarrow> idle c' = idle c"
  by (auto simp: loadNewerTGT_def adopt_file_def install_tgt_def Let_def split: op_splits)

lemma maintain_idle: "maintain L now c w = (e, c', w') \<Longrightarrow> idle c' = idle c"
  by (auto simp: maintain_def reload_section_def Let_def split: op_splits dest!: renewTGT_idle loadNewerTGT_idle)

lemma keeps_idle:
  "keeps (idles n) (remove_by_uuid L uuid)" "keeps (idles n) (remove_matching L mc)"
  "keeps (idles n) (store_creds L wire)" "keeps (idles n) (initialize_cache L p)"
  by (auto simp: keeps_def remove_by_uuid_def remove_matching_def store_creds_def store_plain_def adopt_stored_def
      initialize_cache_def Let_def split: op_splits dest!: setTGT_idle)

lemma keeps_idle_maintained: "keeps (idles n) f \<Longrightarrow> keeps (idles n) (maintained L now f)"
  by (rule keeps_maintained) (auto dest: maintain_idle)

section \<open>The pool\<close>

definition acquire_c :: "'w krb5_lib \<Rightarrow> kctx list \<Rightarrow> client \<Rightarrow> ('w, goerror + (kctx \<times> kctx list) \<times> client) cgo" where
  "acquire_c L ks c =
     (case ks of
        k # ks \<Rightarrow> State_Monad.return (Inr ((k, ks), c\<lparr>idle := idle c - 1\<rparr>))
      | [] \<Rightarrow> do {
          r \<leftarrow> newKctx_c L;
          case r of
            Inl err \<Rightarrow> State_Monad.return (Inl err)
          | Inr k \<Rightarrow> State_Monad.return (Inr ((k, []), c)) })"

type_synonym ('w, 'a) pooled_c = "kctx list \<Rightarrow> client \<Rightarrow> ('w, ((goerror + 'a) \<times> client) \<times> kctx list) cgo"

definition with_context_c :: "'w krb5_lib \<Rightarrow> ('w, 'a) operation_c \<Rightarrow> ('w, 'a) pooled_c" where
  "with_context_c L f ks c = do {
     r \<leftarrow> acquire_c L ks c;
     case r of
       Inl err \<Rightarrow> State_Monad.return ((Inl err, c), ks)
     | Inr ((k, ks), c) \<Rightarrow> do {
         (r, c) \<leftarrow> f k c;
         State_Monad.return ((r, release c), ks @ [k]) } }"

fun Close_c :: "kctx list \<Rightarrow> ('w, unit) cgo" where
  "Close_c [] = State_Monad.return ()"
| "Close_c (k # ks) = do { free_c k; Close_c ks }"

definition pool_of :: "kctx list \<Rightarrow> handles" where
  "pool_of ks = (\<Union>k\<in>set ks. {ctx_of k, cc_of k})"

definition pool_distinct :: "kctx list \<Rightarrow> bool" where
  "pool_distinct ks \<longleftrightarrow> distinct (map k_ctx ks) \<and> distinct (map k_cc ks)"

fun pooled :: "'r \<times> kctx list \<Rightarrow> handles" where
  "pooled (r, ks) = (if pool_distinct ks then pool_of ks else UNIV)"

lemma pool_simps [simp]:
  "pool_of [] = {}" "pool_of (k # ks) = insert (ctx_of k) (insert (cc_of k) (pool_of ks))"
  "pool_of (ks @ ks') = pool_of ks \<union> pool_of ks'" "pool_distinct []"
  "pool_distinct (k # ks) \<longleftrightarrow> ctx_of k \<notin> pool_of ks \<and> cc_of k \<notin> pool_of ks \<and> pool_distinct ks"
  "pool_distinct (ks @ [k]) \<longleftrightarrow> pool_distinct (k # ks)"
  by (auto simp: pool_of_def pool_distinct_def)

lemma effect_with_context:
  assumes ks: "pool_distinct ks" "pool_of ks \<subseteq> N" and f: "operation_ok f_c f"
  shows "effect N (pool_of ks) (with_context_c L f_c ks c) pooled"
proof (cases ks)
  case Nil
  show ?thesis
    unfolding with_context_c_def acquire_c_def Nil
    by (auto intro!: effects effect_bind_newKctx effect_bind_tidy [OF operation_okD(1) [OF f]])
next
  case (Cons k ks')
  show ?thesis
    using ks unfolding with_context_c_def acquire_c_def Cons
    by (auto intro!: effects effect_bind_tidy [OF operation_okD(1) [OF f]])
qed

lemma Close_c_effect: "pool_distinct ks \<Longrightarrow> pool_of ks \<subseteq> N \<Longrightarrow> effect N (pool_of ks) (Close_c ks) (\<lambda>_. {})"
proof (induction ks arbitrary: N)
  case (Cons k ks)
  let ?S = "{cc_of k, ctx_of k}"
  have rest: "pool_distinct ks" "pool_of ks \<subseteq> N - ?S" "?S \<inter> pool_of ks = {}" "kctx_live k N"
    using Cons.prems by auto
  from effect_bind [OF free_c_effect [OF rest(4)] rest(3), of "\<lambda>_. True" "\<lambda>_. Close_c ks"]
    Cons.IH [OF rest(1,2)]
  show ?case by (simp add: insert_commute)
qed (auto intro!: effects)

lemma acquire_c_computes:
  assumes "idle c = length ks"
  shows "computes forget (acquire_c L ks c) (pure (acquire L c))"
proof (cases ks)
  case Nil
  show ?thesis unfolding acquire_c_def Nil list.case
    by (rule computes_cong, (rule computing)+) (simp add: acquire_def assms Nil split: option.split)
next
  case (Cons k ks')
  show ?thesis unfolding acquire_c_def Cons list.case
    by (rule computes_cong, (rule computing)+) (simp add: acquire_def assms Cons)
qed

lemma computes_case_handles: "(\<And>x y. computes \<pi> (n x y) f) \<Longrightarrow> computes \<pi> (case p of (x, y) \<Rightarrow> n x y) f"
  by (simp split: prod.split)

lemma with_context_c_computes:
  assumes "idle c = length ks" "operation_ok f_c f"
  shows "computes fst (with_context_c L f_c ks c) (paired (with_context L f c))"
proof -
  note [computing] = computes_bind_got [OF acquire_c_computes [OF assms(1)]]
    computes_bind [OF operation_okD(2) [OF assms(2)]] computes_case_handles
  show ?thesis unfolding with_context_c_def
    by (rule computes_cong, (rule computing)+) (simp add: with_context_def split: sum.split prod.split)
qed

section \<open>The operations\<close>

definition maintained_c :: "'w krb5_lib \<Rightarrow> gotime \<Rightarrow> ('w, 'a) operation_c \<Rightarrow> ('w, 'a) operation_c" where
  "maintained_c L now f k c = do {
     (p, c) \<leftarrow> maintain_c L k now c;
     case p of
       Some panic \<Rightarrow> State_Monad.return (Inl panic, c)
     | None \<Rightarrow> f k c }"

definition DefaultPrincipal_c :: "'w krb5_lib \<Rightarrow> ('w, principal) pooled_c" where
  "DefaultPrincipal_c L = with_context_c L (\<lambda>k c. do {
     r \<leftarrow> defaultPrincipal_c L k;
     State_Monad.return (r, c) })"

definition ListEntries_c :: "'w krb5_lib \<Rightarrow> gotime \<Rightarrow> ('w, entry list) pooled_c" where
  "ListEntries_c L now = with_context_c L (maintained_c L now (\<lambda>k c. do {
     r \<leftarrow> list_entries_c L c k;
     State_Monad.return (r, c) }))"

definition EntryByUUID_c :: "'w krb5_lib \<Rightarrow> gotime \<Rightarrow> uuid \<Rightarrow> ('w, entry option) pooled_c" where
  "EntryByUUID_c L now uuid = with_context_c L (maintained_c L now (\<lambda>k c. do {
     r \<leftarrow> find_entry_c L uuid c k;
     State_Monad.return (r, c) }))"

definition RemoveByUUID_c :: "'w krb5_lib \<Rightarrow> uuid \<Rightarrow> ('w, bool) pooled_c" where
  "RemoveByUUID_c L uuid = with_context_c L (remove_by_uuid_c L uuid)"

definition Retrieve_c :: "'w krb5_lib \<Rightarrow> gotime \<Rightarrow> match_credential \<Rightarrow> ('w, byte list) pooled_c" where
  "Retrieve_c L now mc ks c =
     (if HasServer mc \<and> isTGTServer (Server mc)
      then State_Monad.return
        ((Inl (KrbError FCCPerm ''retrieval of the ticket-granting ticket is not permitted''), c), ks)
      else with_context_c L (maintained_c L now (\<lambda>k c.
        case tgtError c now of
          Some err \<Rightarrow> State_Monad.return (Inl err, c)
        | None \<Rightarrow> do {
            r \<leftarrow> getCredentials_c L k mc;
            State_Monad.return (r, c) })) ks c)"

definition RemoveMatching_c :: "'w krb5_lib \<Rightarrow> match_credential \<Rightarrow> ('w, unit) pooled_c" where
  "RemoveMatching_c L mc = with_context_c L (remove_matching_c L mc)"

definition Store_c :: "'w krb5_lib \<Rightarrow> byte list \<Rightarrow> ('w, unit) pooled_c" where
  "Store_c L credWire = with_context_c L (store_creds_c L credWire)"

definition Initialize_c :: "'w krb5_lib \<Rightarrow> principal \<Rightarrow> ('w, unit) pooled_c" where
  "Initialize_c L p = with_context_c L (initialize_cache_c L p)"

definition summarize_c :: "'w krb5_lib \<Rightarrow> byte list \<Rightarrow> kctx \<Rightarrow> client \<Rightarrow> ('w, goerror + credential_summary) cgo" where
  "summarize_c L wire k c = do {
     r \<leftarrow> unmarshalCreds_c L k wire;
     case r of
       Inl err \<Rightarrow> State_Monad.return (Inl err)
     | Inr (h, creds) \<Rightarrow> defer_do (free_with Creds (k_ctx k) h) (do {
         touch Creds h;
         State_Monad.return (Inr (summary_of creds)) }) }"

definition SummarizeCredential_c :: "'w krb5_lib \<Rightarrow> byte list \<Rightarrow> ('w, credential_summary) pooled_c" where
  "SummarizeCredential_c L wire = with_context_c L (\<lambda>k c. do {
     r \<leftarrow> summarize_c L wire k c;
     State_Monad.return (r, c) })"

definition with_end_time_c ::
  "'w krb5_lib \<Rightarrow> byte list \<Rightarrow> gotime \<Rightarrow> kctx \<Rightarrow> client \<Rightarrow> ('w, goerror + byte list) cgo" where
  "with_end_time_c L wire end_t k c = do {
     r \<leftarrow> unmarshalCreds_c L k wire;
     case r of
       Inl err \<Rightarrow> State_Monad.return (Inl err)
     | Inr (h, creds) \<Rightarrow> defer_do (free_with Creds (k_ctx k) h) (do {
         touch Creds h;
         marshalCreds_c L k (h, Creds) (creds\<lparr>cr_endtime := unix_timestamp end_t\<rparr>) }) }"

definition withEndTime_c :: "'w krb5_lib \<Rightarrow> byte list \<Rightarrow> gotime \<Rightarrow> ('w, byte list) pooled_c" where
  "withEndTime_c L wire end_t = with_context_c L (\<lambda>k c. do {
     r \<leftarrow> with_end_time_c L wire end_t k c;
     State_Monad.return (r, c) })"

text \<open>\<^verbatim>\<open>ErrorMessage\<close> has no error result: a code without a context to ask is rendered as a number.\<close>

definition message_c :: "'w krb5_lib \<Rightarrow> i32 \<Rightarrow> kctx \<Rightarrow> ('w, string) cgo" where
  "message_c L code k = do {
     touch Context (k_ctx k);
     msg \<leftarrow> alloc Message;
     defer_do (free_with Message (k_ctx k) msg) (do {
       touch Message msg;
       State_Monad.return (krb5_get_error_message L code) }) }"

definition ErrorMessage_c :: "'w krb5_lib \<Rightarrow> i32 \<Rightarrow> ('w, string) pooled_c" where
  "ErrorMessage_c L code ks c =
     (if code = 0 then State_Monad.return ((Inr ''OK'', c), ks)
      else do {
        r \<leftarrow> acquire_c L ks c;
        case r of
          Inl err \<Rightarrow> State_Monad.return ((Inr (''krb5 error '' @ fmt_int (sint code)), c), ks)
        | Inr ((k, ks), c) \<Rightarrow> do {
            msg \<leftarrow> message_c L code k;
            State_Monad.return ((Inr msg, release c), ks @ [k]) } })"

text \<open>One round of the background loop. A panic ends the process with the context still borrowed.\<close>

definition run_round_c :: "'w krb5_lib \<Rightarrow> gotime \<Rightarrow> ('w, gotime) pooled_c" where
  "run_round_c L now ks c = do {
     r \<leftarrow> acquire_c L ks c;
     case r of
       Inl err \<Rightarrow> State_Monad.return ((Inr (nextWake c now), c), ks)
     | Inr ((k, ks), c) \<Rightarrow> do {
         (p, c) \<leftarrow> maintain_c L k now c;
         case p of
           Some panic \<Rightarrow> State_Monad.return ((Inl panic, c), ks)
         | None \<Rightarrow> State_Monad.return ((Inr (nextWake (release c) now), release c), ks @ [k]) } }"

text \<open>An operation over the pool: what it computes and what it does to the handles. The result \<open>Q\<close> is one that
  ends with every context given back.\<close>

definition faithful_when ::
  "(goerror + 'a \<Rightarrow> bool) \<Rightarrow> ('w, 'a) pooled_c \<Rightarrow> ('w, 'a) operation \<Rightarrow> bool" where
  "faithful_when Q op_c op \<longleftrightarrow>
     (\<forall>ks c w H r c' ks' w' H'.
        idle c = length ks \<longrightarrow> pool_distinct ks \<longrightarrow> pool_of ks \<subseteq> h_live H \<longrightarrow> good H \<longrightarrow>
        run_state (op_c ks c) (w, H) = (((r, c'), ks'), w', H') \<longrightarrow> 
        op c w = (r, c', w') \<and>
        (Q r \<longrightarrow> h_faults H' = [] \<and> h_live H' = (h_live H - pool_of ks) \<union> pool_of ks' \<and>
           good H' \<and> pool_distinct ks' \<and> length ks' = idle c'))"

abbreviation faithful :: "('w, 'a) pooled_c \<Rightarrow> ('w, 'a) operation \<Rightarrow> bool" where
  "faithful op_c op \<equiv> faithful_when (\<lambda>_. True) op_c op"

lemma operation_ok_read:
  assumes "\<And>k c N. kctx_live k N \<Longrightarrow> tidy N (f k c)" "\<And>k c. computes same (f k c) (pure (g c))"
  shows "operation_ok (\<lambda>k c. do { r \<leftarrow> f k c; State_Monad.return (r, c) }) (\<lambda>c w. (g c w, c, w))"
proof (rule operation_okI)
  show "computes same (do { r \<leftarrow> f k c; State_Monad.return (r, c) }) (paired (\<lambda>w. (g c w, c, w)))" for k c
    by (rule computes_cong, rule computes_bind [OF assms(2)], (rule computing)+) simp
qed (auto intro!: effects effect_bind_tidy [OF assms(1)])

lemma maintained_c_ok:
  assumes "operation_ok f_c f"
  shows "operation_ok (maintained_c L now f_c) (maintained L now f)"
proof (rule operation_okI)
  show "tidy N (maintained_c L now f_c k c)" if "kctx_live k N" for k c N
    using that unfolding maintained_c_def
    by (auto intro!: effects effect_bind_tidy [OF maintain_c_effect] operation_okD(1) [OF assms])
  note [computing] = computes_bind [OF maintain_c_computes] operation_okD(2) [OF assms]
  show "computes same (maintained_c L now f_c k c) (paired (maintained L now f c))" for k c
    unfolding maintained_c_def
    by (rule computes_cong, (rule computing)+) (simp add: maintained_def split: option.split prod.split)
qed

lemma acquire_c_length:
  "run_state (acquire_c L ks c) s = (Inr ((k, ks'), c'), s') \<Longrightarrow> idle c = length ks \<Longrightarrow> idle c' = length ks'"
  by (auto simp: acquire_c_def split: list.splits prod.splits sum.splits)

lemma with_context_c_length:
  assumes "operation_ok f_c f" "\<And>n. keeps (idles n) f" "idle c = length ks"
    "run_state (with_context_c L f_c ks c) (w, H) = (((r, c'), ks'), w', H')"
  shows "length ks' = idle c'"
proof -
  obtain a w1 H1 where a: "run_state (acquire_c L ks c) (w, H) = (a, w1, H1)" using prod_cases3 by blast
  show ?thesis
  proof (cases a)
    case (Inr x)
    then obtain k ks1 c1 where x: "a = Inr ((k, ks1), c1)" by (metis surj_pair)
    obtain y w2 H2 where f: "run_state (f_c k c1) (w1, H1) = (y, w2, H2)" using prod_cases3 by blast
    obtain r2 c2 where y: "y = (r2, c2)" by (cases y)
    from computesD [OF operation_okD(2) [OF assms(1)] f] have "f c1 w1 = (r2, c2, w2)"
      by (auto simp: y split: prod.splits)
    with keepsD [OF assms(2)] have "idle c2 = idle c1" by metis
    with assms(3,4) a x f y acquire_c_length [of L ks c "(w, H)" k ks1 c1] show ?thesis
      by (auto simp: with_context_c_def release_def)
  qed (use assms(3,4) a in \<open>auto simp: with_context_c_def\<close>)
qed

lemma faithfulI:
  assumes "\<And>ks c N. pool_distinct ks \<Longrightarrow> pool_of ks \<subseteq> N \<Longrightarrow>
      effect_when (\<lambda>x. Q (fst (fst x))) N (pool_of ks) (op_c ks c) pooled"
    "\<And>ks c. idle c = length ks \<Longrightarrow> computes fst (op_c ks c) (paired (op c))"
    "\<And>ks c w H r c' ks' w' H'. idle c = length ks \<Longrightarrow> Q r \<Longrightarrow>
      run_state (op_c ks c) (w, H) = (((r, c'), ks'), w', H') \<Longrightarrow> length ks' = idle c'"
  shows "faithful_when Q op_c op"
  unfolding faithful_when_def
proof (intro allI impI)
  fix ks c w H r c' ks' w' H'
  assume idle: "idle c = length ks" and ks: "pool_distinct ks" "pool_of ks \<subseteq> h_live H" and H: "good H"
    and run: "run_state (op_c ks c) (w, H) = (((r, c'), ks'), w', H')"
  have "op c w = (r, c', w')" using computesD [OF assms(2) [OF idle] run] by (auto split: prod.splits)
  moreover have "h_faults H' = [] \<and> h_live H' = (h_live H - pool_of ks) \<union> pool_of ks' \<and>
      good H' \<and> pool_distinct ks' \<and> length ks' = idle c'" if "Q r"
  proof -
    note e = effect_whenD [OF assms(1) [OF ks(1) subset_refl] H ks(2) run, simplified fst_conv, OF that]
    have "pooled ((r, c'), ks') \<noteq> UNIV" using e(3) good_not_UNIV [OF e(1)] by (metis Un_UNIV_right)
    then have "pool_distinct ks'" by (simp split: if_splits)
    then show ?thesis using e(1,3) assms(3) [OF idle that run] by (simp add: good_def)
  qed
  ultimately show "op c w = (r, c', w') \<and>
     (Q r \<longrightarrow> h_faults H' = [] \<and> h_live H' = (h_live H - pool_of ks) \<union> pool_of ks' \<and>
           good H' \<and> pool_distinct ks' \<and> length ks' = idle c')" by blast
qed

lemma faithful_with_context:
  assumes "operation_ok f_c f" "\<And>n. keeps (idles n) f"
  shows "faithful (with_context_c L f_c) (with_context L f)"
  by (rule faithfulI)
    (auto intro: effect_with_context with_context_c_computes with_context_c_length assms)

lemma run_round_c_effect:
  assumes "pool_distinct ks" "pool_of ks \<subseteq> N"
  shows "effect_when (\<lambda>x. isr (fst (fst x))) N (pool_of ks) (run_round_c L now ks c) pooled"
  using assms unfolding run_round_c_def acquire_c_def
  by (cases ks) (auto intro!: effects effect_bind_newKctx effect_bind_tidy [OF maintain_c_effect])

lemma run_round_c_faithful: "faithful_when isr (run_round_c L now) (run_round L now)"
proof (rule faithfulI)
  fix ks :: "kctx list" and c :: client
  assume "idle c = length ks"
  note [computing] = computes_bind_got [OF acquire_c_computes [OF this]] computes_case_handles
    computes_bind [OF maintain_c_computes]
  show "computes fst (run_round_c L now ks c) (paired (run_round L now c))"
    unfolding run_round_c_def
    by (rule computes_cong, (rule computing)+)
      (simp add: run_round_def split: sum.split option.split prod.split)
next
  fix ks c w H r c' ks' w' H'
  assume idle: "idle c = length ks" and r: "isr r"
    and run: "run_state (run_round_c L now ks c) (w, H) = (((r, c'), ks'), w', H')"
  obtain a w1 H1 where a: "run_state (acquire_c L ks c) (w, H) = (a, w1, H1)" using prod_cases3 by blast
  show "length ks' = idle c'"
  proof (cases a)
    case (Inr x)
    then obtain k ks1 c1 where x: "a = Inr ((k, ks1), c1)" by (metis surj_pair)
    obtain y w2 H2 where m: "run_state (maintain_c L k now c1) (w1, H1) = (y, w2, H2)" using prod_cases3 by blast
    obtain p c2 where y: "y = (p, c2)" by (cases y)
    from computesD [OF maintain_c_computes m] have "maintain L now c1 w1 = (p, c2, w2)"
      by (auto simp: y split: prod.splits)
    from maintain_idle [OF this] idle r run a x m y acquire_c_length [of L ks c "(w, H)" k ks1 c1] show ?thesis
      by (auto simp: run_round_c_def release_def split: option.splits)
  qed (use idle run a in \<open>auto simp: run_round_c_def\<close>)
qed (rule run_round_c_effect)

lemma retrieval_ok:
  "operation_ok
     (\<lambda>k c. case tgtError c now of
        Some err \<Rightarrow> State_Monad.return (Inl err, c)
      | None \<Rightarrow> do { r \<leftarrow> getCredentials_c L k mc; State_Monad.return (r, c) })
     (\<lambda>c w. case tgtError c now of
        Some err \<Rightarrow> (Inl err, c, w)
      | None \<Rightarrow> (case getCredentials L mc w of (r, w) \<Rightarrow> (r, c, w)))"
  by (rule operation_okI, auto intro!: effects split: option.split)
    (rule computes_cong, (rule computing)+, simp split: option.split prod.split)+

lemma faithful_maintained:
  assumes "operation_ok f_c f" "\<And>n. keeps (idles n) f"
  shows "faithful (with_context_c L (maintained_c L now f_c)) (with_context L (maintained L now f))"
  by (intro faithful_with_context maintained_c_ok keeps_idle_maintained assms)

lemma reading_ok:
  "operation_ok (\<lambda>k c. do { r \<leftarrow> defaultPrincipal_c L k; State_Monad.return (r, c) })
     (\<lambda>c w. (defaultPrincipal L w, c, w))"
  "operation_ok (\<lambda>k c. do { r \<leftarrow> list_entries_c L c k; State_Monad.return (r, c) })
     (\<lambda>c w. (list_entries L c w, c, w))"
  "operation_ok (\<lambda>k c. do { r \<leftarrow> find_entry_c L uuid c k; State_Monad.return (r, c) })
     (\<lambda>c w. (find_entry L uuid c w, c, w))"
  by (rule operation_ok_read [OF defaultPrincipal_c_effect defaultPrincipal_c_computes]
      operation_ok_read [OF list_entries_c_effect list_entries_c_computes]
      operation_ok_read [OF find_entry_c_effect find_entry_c_computes], simp)+

lemma summarize_c_ok:
  "operation_ok (\<lambda>k c. do { r \<leftarrow> summarize_c L wire k c; State_Monad.return (r, c) })
     (\<lambda>c w. ((case unmarshalCreds L wire of Inl err \<Rightarrow> Inl err | Inr creds \<Rightarrow> Inr (summary_of creds)), c, w))"
proof (rule operation_ok_read)
  show "computes same (summarize_c L wire k c)
      (pure (\<lambda>w. case unmarshalCreds L wire of Inl err \<Rightarrow> Inl err | Inr creds \<Rightarrow> Inr (summary_of creds)))" for k c
    unfolding summarize_c_def by (rule computes_cong, (rule computing)+) (simp split: sum.split)
qed (auto simp: summarize_c_def intro!: effects)

lemma with_end_time_c_ok:
  "operation_ok (\<lambda>k c. do { r \<leftarrow> with_end_time_c L wire end_t k c; State_Monad.return (r, c) })
     (\<lambda>c w. ((case unmarshalCreds L wire of
         Inl err \<Rightarrow> Inl err
       | Inr creds \<Rightarrow> marshalCreds L (creds\<lparr>cr_endtime := unix_timestamp end_t\<rparr>)), c, w))"
proof (rule operation_ok_read)
  show "computes same (with_end_time_c L wire end_t k c)
      (pure (\<lambda>w. case unmarshalCreds L wire of
         Inl err \<Rightarrow> Inl err
       | Inr creds \<Rightarrow> marshalCreds L (creds\<lparr>cr_endtime := unix_timestamp end_t\<rparr>)))" for k c
    unfolding with_end_time_c_def by (rule computes_cong, (rule computing)+) (simp split: sum.split)
qed (auto simp: with_end_time_c_def intro!: effects)

lemma message_c_effect: "ctx_of k \<in> N \<Longrightarrow> tidy N (message_c L code k)"
  unfolding message_c_def by (auto intro!: effects)

lemma message_c_computes: "computes same (message_c L code k) (pure (\<lambda>w. krb5_get_error_message L code))"
  unfolding message_c_def by (rule computes_cong, (rule computing)+) simp

lemma ErrorMessage_c_effect:
  assumes "pool_distinct ks" "pool_of ks \<subseteq> N"
  shows "effect N (pool_of ks) (ErrorMessage_c L code ks c) pooled"
  using assms unfolding ErrorMessage_c_def acquire_c_def
  by (cases ks) (auto intro!: effects effect_bind_newKctx effect_bind_tidy [OF message_c_effect])

lemma ErrorMessage_c_faithful:
  "faithful (ErrorMessage_c L code) (\<lambda>c w. case ErrorMessage L code c w of (msg, c, w) \<Rightarrow> (Inr msg, c, w))"
proof (rule faithfulI)
  fix ks :: "kctx list" and c :: client
  assume "idle c = length ks"
  note [computing] = computes_bind_got [OF acquire_c_computes [OF this]] computes_case_handles
    computes_bind [OF message_c_computes]
  show "computes fst (ErrorMessage_c L code ks c)
      (paired (\<lambda>w. case ErrorMessage L code c w of (msg, c, w) \<Rightarrow> (Inr msg, c, w)))"
    unfolding ErrorMessage_c_def
    by (rule computes_cong, (rule computing)+) (simp add: ErrorMessage_def split: sum.split)
next
  fix ks c w H r c' ks' w' H'
  assume "idle c = length ks" "run_state (ErrorMessage_c L code ks c) (w, H) = (((r, c'), ks'), w', H')"
  then show "length ks' = idle c'"
    by (auto simp: ErrorMessage_c_def release_def split: if_splits prod.splits sum.splits
        dest!: acquire_c_length)
qed (rule ErrorMessage_c_effect)

lemmas operations_ok = summarize_c_ok with_end_time_c_ok maintained_c_ok reading_ok retrieval_ok
  remove_by_uuid_c_ok remove_matching_c_ok store_creds_c_ok initialize_cache_c_ok

lemma Retrieve_c_faithful: "faithful (Retrieve_c L now mc) (Retrieve L now mc)"
proof (cases "HasServer mc \<and> isTGTServer (Server mc)")
  case True
  then show ?thesis by (auto simp: faithful_when_def Retrieve_c_def Retrieve_def good_def)
next
  case False
  have "keeps (idles n) (\<lambda>c w. case tgtError c now of
        Some err \<Rightarrow> (Inl err, c, w) | None \<Rightarrow> (case getCredentials L mc w of (r, w) \<Rightarrow> (r, c, w)))" for n
    by (auto simp: keeps_def split: option.splits prod.splits)
  note f = faithful_maintained [OF retrieval_ok this]
  show ?thesis
    unfolding Retrieve_c_def [abs_def] Retrieve_def [abs_def] if_not_P [OF False] by (rule f)
qed

text \<open>C9: the engine with its C objects. Every operation, run with the idle contexts \<open>ks\<close> of the pool live,
  computes what the operation of the same name of \<open>Ops\<close> computes, and makes no fault: nothing is used after it was
  freed, freed twice or freed as another kind. Afterwards the live handles are those from before, with the
  idle contexts of the pool then: every principal, credential, cursor, buffer and message was given back, on every path.
  So it is for a background round that does not panic; and \<^verbatim>\<open>Open\<close> computes what its functional version computes.\<close>

theorem operations_give_back_handles:
  "faithful (DefaultPrincipal_c L) (DefaultPrincipal L) \<and>
   faithful (ListEntries_c L now) (ListEntries L now) \<and>
   faithful (EntryByUUID_c L now uuid) (EntryByUUID L now uuid) \<and>
   faithful (RemoveByUUID_c L uuid) (RemoveByUUID L uuid) \<and>
   faithful (Retrieve_c L now mc) (Retrieve L now mc) \<and>
   faithful (RemoveMatching_c L mc) (RemoveMatching L mc) \<and>
   faithful (Store_c L credWire) (Store L credWire) \<and>
   faithful (Initialize_c L p) (Initialize L p) \<and>
   faithful (SummarizeCredential_c L credWire) (SummarizeCredential L credWire) \<and>
   faithful (withEndTime_c L credWire end_t) (withEndTime L credWire end_t) \<and>
   faithful (ErrorMessage_c L code) (\<lambda>c w. case ErrorMessage L code c w of (msg, c, w) \<Rightarrow> (Inr msg, c, w)) \<and>
   faithful_when isr (run_round_c L now) (run_round L now) \<and>
   computes forget (Open_c L path opts now) (Open L path opts now)"
  unfolding DefaultPrincipal_c_def DefaultPrincipal_def ListEntries_c_def ListEntries_def EntryByUUID_c_def
    EntryByUUID_def RemoveByUUID_c_def RemoveByUUID_def RemoveMatching_c_def RemoveMatching_def Store_c_def Store_def
    Initialize_c_def Initialize_def SummarizeCredential_c_def SummarizeCredential_def withEndTime_c_def withEndTime_def
  by (intro conjI Retrieve_c_faithful ErrorMessage_c_faithful run_round_c_faithful Open_c_computes faithful_maintained faithful_with_context operations_ok keeps_idle keeps_read)

section \<open>A life of the client\<close>

datatype call =
  Call_DefaultPrincipal
| Call_ListEntries gotime
| Call_EntryByUUID gotime uuid
| Call_RemoveByUUID uuid
| Call_Retrieve gotime match_credential
| Call_RemoveMatching match_credential
| Call_Store "byte list"
| Call_Initialize principal
| Call_SummarizeCredential "byte list"
| Call_ErrorMessage i32
| Background gotime

text \<open>A call with its answer dropped, except for a panic, which ends the process.\<close>

definition dropped :: "('w, ((goerror + 'a) \<times> client) \<times> kctx list) cgo \<Rightarrow>
    ('w, (goerror option \<times> client) \<times> kctx list) cgo" where
  "dropped m = do {
     ((r, c), ks) \<leftarrow> m;
     State_Monad.return ((case r of Inl err \<Rightarrow> (if is_panic err then Some err else None) | Inr _ \<Rightarrow> None, c), ks) }"

fun call_c :: "'w krb5_lib \<Rightarrow> call \<Rightarrow> kctx list \<Rightarrow> client \<Rightarrow> ('w, (goerror option \<times> client) \<times> kctx list) cgo" where
  "call_c L Call_DefaultPrincipal ks c = dropped (DefaultPrincipal_c L ks c)"
| "call_c L (Call_ListEntries now) ks c = dropped (ListEntries_c L now ks c)"
| "call_c L (Call_EntryByUUID now uuid) ks c = dropped (EntryByUUID_c L now uuid ks c)"
| "call_c L (Call_RemoveByUUID uuid) ks c = dropped (RemoveByUUID_c L uuid ks c)"
| "call_c L (Call_Retrieve now mc) ks c = dropped (Retrieve_c L now mc ks c)"
| "call_c L (Call_RemoveMatching mc) ks c = dropped (RemoveMatching_c L mc ks c)"
| "call_c L (Call_Store credWire) ks c = dropped (Store_c L credWire ks c)"
| "call_c L (Call_Initialize p) ks c = dropped (Initialize_c L p ks c)"
| "call_c L (Call_SummarizeCredential wire) ks c = dropped (SummarizeCredential_c L wire ks c)"
| "call_c L (Call_ErrorMessage code) ks c = dropped (ErrorMessage_c L code ks c)"
| "call_c L (Background now) ks c = do {
     ((r, c), ks) \<leftarrow> run_round_c L now ks c;
     State_Monad.return ((error_of r, c), ks) }"

fun calls_c :: "'w krb5_lib \<Rightarrow> call list \<Rightarrow> kctx list \<Rightarrow> client \<Rightarrow> ('w, (goerror option \<times> client) \<times> kctx list) cgo" where
  "calls_c L [] ks c = State_Monad.return ((None, c), ks)"
| "calls_c L (call # calls) ks c = do {
     ((p, c), ks) \<leftarrow> call_c L call ks c;
     case p of
       Some panic \<Rightarrow> State_Monad.return ((Some panic, c), ks)
     | None \<Rightarrow> calls_c L calls ks c }"

definition session_c ::
  "'w krb5_lib \<Rightarrow> string \<Rightarrow> options \<Rightarrow> gotime \<Rightarrow> call list \<Rightarrow> ('w, goerror + unit) cgo" where
  "session_c L path opts now calls = do {
     r \<leftarrow> Open_c L path opts now;
     case r of
       Inl err \<Rightarrow> State_Monad.return (Inl err)
     | Inr (k, c) \<Rightarrow> do {
         ((p, c), ks) \<leftarrow> calls_c L calls [k] c;
         case p of
           Some panic \<Rightarrow> State_Monad.return (Inl panic)
         | None \<Rightarrow> do { Close_c ks; State_Monad.return (Inr ()) } } }"

lemma effect_bind_pooled:
  assumes "effect_when P N (pool_of ks) m pooled" "\<And>x. \<not> P x \<Longrightarrow> never Q (f x)"
    "\<And>r ks'. P (r, ks') \<Longrightarrow> pool_distinct ks' \<Longrightarrow>
       effect_when Q (N - pool_of ks \<union> pool_of ks') (pool_of ks') (f (r, ks')) own"
  shows "effect_when Q N (pool_of ks) (State_Monad.bind m f) own"
proof -
  have "effect_when Q (N - pool_of ks \<union> pooled x) ({} \<union> pooled x) (f x) own" if "P x" "pooled x \<noteq> UNIV" for x
    using that assms(3) by (cases x) (auto split: if_splits)
  from effect_bind_when [OF assms(1) Int_empty_right assms(2) this] show ?thesis by simp
qed

lemma dropped_effect: "effect N (pool_of ks) m pooled \<Longrightarrow> effect N (pool_of ks) (dropped m) pooled"
  unfolding dropped_def by (erule effect_bind_pooled) (auto intro!: effects)

abbreviation no_panic :: "(goerror option \<times> client) \<times> kctx list \<Rightarrow> bool" where
  "no_panic \<equiv> \<lambda>x. fst (fst x) = None"

lemma effect_weaken: "effect N T m own \<Longrightarrow> effect_when Q N T m own"
  unfolding effect_when_def by blast

lemma dropped_with_context_effect:
  "operation_ok f_c f \<Longrightarrow> pool_distinct ks \<Longrightarrow> pool_of ks \<subseteq> N \<Longrightarrow>
     effect_when Q N (pool_of ks) (dropped (with_context_c L f_c ks c)) pooled"
  by (rule effect_weaken, rule dropped_effect, rule effect_with_context)

lemma call_c_effect:
  assumes ks: "pool_distinct ks" "pool_of ks \<subseteq> N"
  shows "effect_when no_panic N (pool_of ks) (call_c L call ks c) pooled"
proof (cases call)
  case (Background now)
  show ?thesis
    unfolding Background call_c.simps
    by (rule effect_bind_pooled [OF run_round_c_effect [OF ks]])
      (auto intro!: effects excluded split: prod.splits sum.splits)
next
  case (Call_Retrieve now mc)
  have "effect N (pool_of ks) (Retrieve_c L now mc ks c) pooled"
    unfolding Retrieve_c_def using ks
    by (auto intro!: effects effect_with_context operations_ok)
  then show ?thesis unfolding Call_Retrieve call_c.simps by (rule effect_weaken [OF dropped_effect])
next
  case (Call_ErrorMessage code)
  show ?thesis unfolding Call_ErrorMessage call_c.simps
    by (rule effect_weaken [OF dropped_effect [OF ErrorMessage_c_effect [OF ks]]])
qed (simp_all only: call_c.simps SummarizeCredential_c_def DefaultPrincipal_c_def ListEntries_c_def EntryByUUID_c_def RemoveByUUID_c_def
      RemoveMatching_c_def Store_c_def Initialize_c_def,
    (rule dropped_with_context_effect operations_ok ks)+)

lemma calls_c_effect:
  "pool_distinct ks \<Longrightarrow> pool_of ks \<subseteq> N \<Longrightarrow> effect_when no_panic N (pool_of ks) (calls_c L calls ks c) pooled"
proof (induction calls arbitrary: ks c N)
  case (Cons call calls)
  show ?case
    unfolding calls_c.simps
    by (rule effect_bind_pooled [OF call_c_effect [OF Cons.prems]])
      (auto intro!: effects excluded Cons.IH split: prod.splits option.splits)
qed (auto intro!: effects)

lemma effect_bind_Close:
  assumes "pool_distinct ks" "pool_of ks \<subseteq> N" "effect_when Q (N - pool_of ks) {} (f ()) own"
  shows "effect_when Q N (pool_of ks) (State_Monad.bind (Close_c ks) f) own"
  using effect_bind [OF Close_c_effect [OF assms(1,2)], of "{}" Q f own] assms(3) by simp

lemma session_c_effect: "effect_when isr N {} (session_c L path opts now calls) (\<lambda>_. {})"
proof -
  let ?rest = "\<lambda>k c. do {
     ((p, c), ks) \<leftarrow> calls_c L calls [k] c;
     case p of
       Some panic \<Rightarrow> State_Monad.return (Inl panic)
     | None \<Rightarrow> do { Close_c ks; State_Monad.return (Inr ()) } }"
  have rest: "effect_when isr M {ctx_of k, cc_of k} (?rest k c) (\<lambda>_. {})" if "kctx_live k M" for k c M
  proof -
    have "effect_when isr M (pool_of [k]) (?rest k c) (\<lambda>_. {})"
      by (rule effect_bind_pooled [OF calls_c_effect])
        (use that in \<open>auto intro!: effect_bind_Close effects excluded split: prod.splits option.splits\<close>)
    then show ?thesis by simp
  qed
  have "effect_when isr (N \<union> opened x) (opened x) (case x of Inl e \<Rightarrow> State_Monad.return (Inl e) | Inr (k, c) \<Rightarrow> ?rest k c)
      (\<lambda>_. {})" if "isr x" for x
    using that rest by (cases x rule: opened.cases) auto
  then have "effect_when isr N ({} \<union> {}) (session_c L path opts now calls) (\<lambda>_. {})"
    unfolding session_c_def
    by (intro effect_bind_when [OF Open_c_effect]) (auto intro!: excluded split: sum.splits)
  then show ?thesis by simp
qed

text \<open>C10: a life of the client leaks nothing. Whenever \<^verbatim>\<open>Open\<close> succeeds, then any sequence of operations and
  background rounds runs to its end without a panic, and then the pool is closed, no fault has been made and the
  live handles are those from before \<^verbatim>\<open>Open\<close>: every context, cache handle, cursor, principal, credential, message
  and buffer has been given back exactly once.\<close>

theorem session_gives_back_all:
  assumes "good H" "run_state (session_c L path opts now calls) (w, H) = (Inr (), w', H')"
  shows "h_faults H' = [] \<and> h_live H' = h_live H"
  using effect_whenD [OF session_c_effect assms(1) empty_subsetI assms(2)] by (simp add: good_def)

end
