(* ===== verification/Cgo_Examples.thy ===== *)
theory Cgo_Examples
  imports Cgo_Session Ref_Examples
begin

text \<open>The theorems about C objects applied to the reference library, from an empty heap.\<close>

definition empty_heap :: heap where
  "empty_heap = \<lparr>h_next = 0, h_live = {}, h_faults = []\<rparr>"

definition no_opts :: options where
  "no_opts = \<lparr>MinTicketLife = 0, OwnerUID = 1000, MaxConcurrent = 0\<rparr>"

lemma good_empty_heap [simp]: "good empty_heap"
  by (simp add: empty_heap_def good_def)

text \<open>A source file that is there but holds no cache.\<close>

definition bare_world :: ref_world where
  "bare_world = \<lparr>rw_caches = (\<lambda>_. None), rw_uids = [''/tmp/cc'' \<mapsto> 1000], rw_tickets = [], rw_renewed = None\<rparr>"

lemma Open_bare_world: "isl (fst (Open ref_lib ''/tmp/cc'' no_opts (GoTime 0) bare_world))"
  by (simp add: Open_def open_defaults_def no_opts_def bare_world_def fileOwner_def newKctx_def Let_def
      ref_lib_def ref_defs ref_stat_def FILE_name_def CString_def)

theorem Open_use_after_free_witness:
  "\<exists>err w' H' ctx. run_state (Open_c ref_lib ''/tmp/cc'' no_opts (GoTime 0)) (bare_world, empty_heap) = (Inl err, w', H') \<and>
     Use_after_free ctx Context \<in> set (h_faults H')"
proof -
  obtain r w' H' where run: "run_state (Open_c ref_lib ''/tmp/cc'' no_opts (GoTime 0)) (bare_world, empty_heap)
      = (r, w', H')" using prod_cases3 by blast
  from computesD [OF Open_c_computes run] Open_bare_world obtain err where r: "r = Inl err" by (cases r) auto
  have "\<exists>ctx. Use_after_free ctx Context \<in> set (h_faults H')"
    by (rule Open_use_after_free [where uid = 1000, OF _ _ _ _ good_empty_heap run [unfolded r]])
      (simp_all add: no_opts_def bare_world_def fileOwner_def newKctx_def ref_lib_def ref_stat_def)
  with run r show ?thesis by blast
qed

definition ex_calls :: "call list" where
  "ex_calls = [Call_DefaultPrincipal, Background (GoTime 0), Call_Retrieve (GoTime 0) ex_mc, Call_Initialize no_principal]"

lemma ex_session: "fst (run_state (session_c ref_lib ''/tmp/cc'' no_opts (GoTime 0) ex_calls) (ex_world [] [], empty_heap)) = Inr ()"
  by code_simp

theorem session_gives_back_all_witness:
  "\<exists>w' H'. run_state (session_c ref_lib ''/tmp/cc'' no_opts (GoTime 0) ex_calls) (ex_world [] [], empty_heap)
     = (Inr (), w', H') \<and> h_faults H' = [] \<and> h_live H' = {}"
proof -
  obtain w' H' where run: "run_state (session_c ref_lib ''/tmp/cc'' no_opts (GoTime 0) ex_calls) (ex_world [] [], empty_heap)
     = (Inr (), w', H')" using ex_session by (metis prod.collapse)
  from session_gives_back_all [OF good_empty_heap run] run show ?thesis by (simp add: empty_heap_def)
qed

end
