(* ===== verification/Synth.thy ===== *)
theory Synth
  imports Ref_Examples
begin

text \<open>
  \<^verbatim>\<open>internal/krb5c/synth.go\<close>: made-up credentials and FILE caches that hold them. What the two functions
  rely on of FILE caches is the locale \<open>file_ccache\<close>; with it, a cache that was written reads back as the
  tickets that were asked for. \<^verbatim>\<open>krb5_c_make_random_key\<close> is the argument \<open>make_key\<close>.
\<close>

type_synonym 'w make_key = "i32 \<Rightarrow> 'w \<Rightarrow> i32 + i32 \<times> byte list"

definition ENCTYPE_AES256_CTS_HMAC_SHA1_96 :: i32 where "ENCTYPE_AES256_CTS_HMAC_SHA1_96 = 18"

text \<open>\<^verbatim>\<open>C.krb5_timestamp(t.Unix())\<close>: whole seconds, cut to 32 bits.\<close>

definition krb5_timestamp :: "gotime \<Rightarrow> i32" where
  "krb5_timestamp t = word_of_int (nanos t div Second)"

definition synth_ticket :: "string \<Rightarrow> byte list" where
  "synth_ticket server = bytes_of_string (''not-a-real-ticket:'' @ server)"

definition synthCredential ::
  "'w krb5_lib \<Rightarrow> 'w make_key \<Rightarrow> string \<Rightarrow> string \<Rightarrow> gotime \<Rightarrow> gotime \<Rightarrow> i32 \<Rightarrow> 'w \<Rightarrow> goerror + byte list" where
  "synthCredential L make_key client server start end flags w =
     (case newKctx L w of Some err \<Rightarrow> Inl err | None \<Rightarrow>
     (case parseName L client of Inl err \<Rightarrow> Inl err | Inr cl \<Rightarrow>
     (case parseName L server of Inl err \<Rightarrow> Inl err | Inr sv \<Rightarrow>
     (case make_key ENCTYPE_AES256_CTS_HMAC_SHA1_96 w of
        Inl code \<Rightarrow> Inl (krbErr L code)
      | Inr (enctype, key) \<Rightarrow>
          (let creds = empty_creds\<lparr>cr_client := Some cl, cr_server := Some sv, cr_enctype := enctype, cr_key := key,
                 cr_ticket := synth_ticket server, cr_authtime := krb5_timestamp start,
                 cr_starttime := krb5_timestamp start, cr_endtime := krb5_timestamp end\<rparr>;
               creds = (if flags AND tktFlgRenewable \<noteq> 0
                        then creds\<lparr>cr_renew_till := krb5_timestamp (Add end (7 * 24 * 60 * Minute))\<rparr> else creds)
           in marshalCreds L (creds\<lparr>cr_ticket_flags := flags\<rparr>))))))"

fun store_wires :: "'w krb5_lib \<Rightarrow> string \<Rightarrow> byte list list \<Rightarrow> 'w \<Rightarrow> goerror option \<times> 'w" where
  "store_wires L cc [] w = (None, w)"
| "store_wires L cc (wire # wires) w =
     (case unmarshalCreds L wire of
        Inl err \<Rightarrow> (Some err, w)
      | Inr creds \<Rightarrow>
     (case krb5_cc_store_cred L cc creds w of
        (code, w) \<Rightarrow> if code \<noteq> 0 then (newError L code, w) else store_wires L cc wires w))"

definition writeFileCcache ::
  "'w krb5_lib \<Rightarrow> string \<Rightarrow> string \<Rightarrow> byte list list \<Rightarrow> 'w \<Rightarrow> goerror option \<times> 'w" where
  "writeFileCcache L path pname wires w =
     (case newKctx L w of Some err \<Rightarrow> (Some err, w) | None \<Rightarrow>
      let cc = FILE_name path; code = krb5_cc_resolve L cc w in
      if code \<noteq> 0 then (newError L code, w)
      else
     (case parseName L pname of Inl err \<Rightarrow> (Some err, w) | Inr princ \<Rightarrow>
     (case krb5_cc_initialize L cc (Some princ) w of
        (code, w) \<Rightarrow> if code \<noteq> 0 then (newError L code, w) else store_wires L cc wires w)))"

section \<open>FILE caches\<close>

text \<open>A FILE cache is emptied by \<^verbatim>\<open>krb5_cc_initialize\<close>, grows by what is stored, and a cursor reads it in order.
  The key type is kept in 16 bits.\<close>

locale file_ccache = mem_ccache +
  fixes name :: string
    and file_owner :: "'a \<Rightarrow> krb5_principal option"
    and file_creds :: "'a \<Rightarrow> krb5_creds list"
  assumes file_initialize:
      "krb5_cc_initialize L name p w = (0, w') \<Longrightarrow> file_owner w' = p \<and> file_creds w' = []"
    and file_store:
      "krb5_cc_store_cred L name cr w = (0, w') \<Longrightarrow>
         file_owner w' = file_owner w \<and> (\<exists>e. file_creds w' = file_creds w @ [cr\<lparr>cr_enctype := e\<rparr>])"
    and file_read:
      "file_owner w = Some me \<Longrightarrow>
         krb5_cc_get_principal L name w = Inr me \<and> krb5_cc_seq_get L name w = Inr (file_creds w, CCEnd, 0)"
begin

abbreviation same_cred :: "krb5_creds \<Rightarrow> krb5_creds \<Rightarrow> bool" where
  "same_cred cr cr' \<equiv> \<exists>e. cr' = cr\<lparr>cr_enctype := e\<rparr>"

lemma store_wires_effect:
  "list_all2 (\<lambda>cr wire. marshalCreds L cr = Inr wire) crs wires \<Longrightarrow> store_wires L name wires w = (None, w') \<Longrightarrow>
     file_owner w' = file_owner w \<and> (\<exists>new. file_creds w' = file_creds w @ new \<and> list_all2 same_cred crs new)"
proof (induction crs wires arbitrary: w rule: list_all2_induct)
  case (Cons cr crs wire wires)
  obtain e where e: "unmarshalCreds L wire = Inr (cr\<lparr>cr_enctype := e\<rparr>)"
    using unmarshalCreds_marshalCreds [OF Cons.hyps(1)] by blast
  obtain code w1 where s: "krb5_cc_store_cred L name (cr\<lparr>cr_enctype := e\<rparr>) w = (code, w1)" by fastforce
  with Cons.prems e have code: "code = 0" and rest: "store_wires L name wires w1 = (None, w')"
    by (auto simp: newError_def split: if_splits)
  obtain e' where "file_owner w1 = file_owner w" "file_creds w1 = file_creds w @ [cr\<lparr>cr_enctype := e'\<rparr>]"
    using file_store s code by fastforce
  moreover obtain new where "file_owner w' = file_owner w1" "file_creds w' = file_creds w1 @ new"
    "list_all2 same_cred crs new" using Cons.IH [OF rest] by blast
  ultimately show ?case by (intro conjI exI [of _ "cr\<lparr>cr_enctype := e'\<rparr> # new"]) auto
qed simp

lemma writeFileCcache_effect:
  assumes "name = FILE_name path" "list_all2 (\<lambda>cr wire. marshalCreds L cr = Inr wire) crs wires"
    "writeFileCcache L path pname wires w = (None, w')"
  shows "\<exists>p new. parseName L pname = Inr p \<and> krb5_cc_get_principal L name w' = Inr p \<and>
    krb5_cc_seq_get L name w' = Inr (new, CCEnd, 0) \<and> list_all2 same_cred crs new"
proof -
  obtain p w1 where p: "parseName L pname = Inr p" "krb5_cc_initialize L name (Some p) w = (0, w1)"
    "store_wires L name wires w1 = (None, w')"
    using assms(1,3) by (auto simp: writeFileCcache_def Let_def newError_def split: option.splits sum.splits if_splits prod.splits)
  from store_wires_effect [OF assms(2) p(3)] file_initialize [OF p(2)] file_read [of w'] p(1) show ?thesis by auto
qed

end

interpretation ref_file: file_ccache ref_lib ref_entries ref_owner name
  "\<lambda>w. rc_owner (ref_cache name w)" "\<lambda>w. rc_creds (ref_cache name w)" for name
proof unfold_locales
  fix cr w w'
  assume "krb5_cc_store_cred ref_lib name cr w = (0, w')"
  then show "rc_owner (ref_cache name w') = rc_owner (ref_cache name w) \<and>
      (\<exists>e. rc_creds (ref_cache name w') = rc_creds (ref_cache name w) @ [cr\<lparr>cr_enctype := e\<rparr>])"
    by (auto simp: ref_lib_def ref_store_def ref_set_def ref_cache_def intro!: exI [of _ "cr_enctype cr"])
qed (auto simp: ref_lib_def ref_defs)

section \<open>What was asked for is what is read\<close>

record ticket_request =
  tr_client :: string
  tr_server :: string
  tr_start :: gotime
  tr_end :: gotime
  tr_flags :: i32

text \<open>Whole seconds after the epoch, and before the 32 bits run out in 2106.\<close>

definition representable :: "gotime \<Rightarrow> bool" where
  "representable t \<longleftrightarrow> nanos t mod Second = 0 \<and> 0 < nanos t \<and> nanos t < 2 ^ 32 * Second"

lemma krbTime_timestamp:
  assumes "representable t"
  shows "krbTime (krb5_timestamp t) = t"
proof -
  let ?n = "nanos t div Second"
  have "nanos t = ?n * Second" using assms div_mult_mod_eq [of "nanos t" Second] by (simp add: representable_def)
  moreover from this have "0 < ?n" "?n < 2 ^ 32"
    using assms by (auto simp: representable_def Second_def)
  moreover from this have "uint (krb5_timestamp t) = ?n"
    by (simp add: krb5_timestamp_def uint_word_of_int_eq take_bit_int_eq_self)
  ultimately show ?thesis by (auto simp: krbTime_def intro: gotime_eqI)
qed

definition synthesized :: "'w krb5_lib \<Rightarrow> 'w make_key \<Rightarrow> ticket_request \<Rightarrow> byte list \<Rightarrow> bool" where
  "synthesized L make_key r wire \<longleftrightarrow>
     (\<exists>w. synthCredential L make_key (tr_client r) (tr_server r) (tr_start r) (tr_end r) (tr_flags r) w = Inr wire)"

definition as_asked :: "'w krb5_lib \<Rightarrow> ticket_request \<Rightarrow> krb5_creds \<Rightarrow> bool" where
  "as_asked L r cr \<longleftrightarrow>
     map_option Inr (cr_client cr) = Some (parseName L (tr_client r)) \<and>
     map_option Inr (cr_server cr) = Some (parseName L (tr_server r)) \<and>
     cr_ticket cr = synth_ticket (tr_server r) \<and> cr_ticket_flags cr = tr_flags r \<and>
     (representable (tr_start r) \<longrightarrow> krbTime (cr_starttime cr) = tr_start r) \<and>
     (representable (tr_end r) \<longrightarrow> krbTime (cr_endtime cr) = tr_end r) \<and>
     (cr_renew_till cr \<noteq> 0 \<longrightarrow> tr_flags r AND tktFlgRenewable \<noteq> 0)"

lemma synthesized_cred:
  assumes "synthesized L make_key r wire"
  shows "\<exists>cr. marshalCreds L cr = Inr wire \<and> as_asked L r cr"
proof -
  obtain w where "synthCredential L make_key (tr_client r) (tr_server r) (tr_start r) (tr_end r) (tr_flags r) w = Inr wire"
    using assms by (auto simp: synthesized_def)
  then show ?thesis
    by (fastforce simp: synthCredential_def as_asked_def Let_def krbTime_timestamp empty_creds_def
        split: option.splits sum.splits prod.splits if_splits)
qed

lemma as_asked_enctype: "as_asked L r (cr\<lparr>cr_enctype := e\<rparr>) = as_asked L r cr"
  by (simp add: as_asked_def)

text \<open>C37: Synthetic caches read back. For every library that keeps the contract of FILE caches: when
  \<^verbatim>\<open>writeFileCcache\<close> succeeds with credentials that \<^verbatim>\<open>synthCredential\<close> made, the file belongs to the principal
  that was named and a cursor yields the tickets that were asked for, in order, with their client, server,
  flags and ticket, with the times to the second, and renewable only if asked for.\<close>

theorem synthetic_ccache_reads_back:
  assumes "file_ccache L entries owner (FILE_name path) file_owner file_creds"
    and "list_all2 (synthesized L make_key) requests wires"
    and "writeFileCcache L path pname wires w = (None, w')"
  shows "\<exists>p creds. parseName L pname = Inr p \<and> krb5_cc_get_principal L (FILE_name path) w' = Inr p \<and>
    krb5_cc_seq_get L (FILE_name path) w' = Inr (creds, CCEnd, 0) \<and> list_all2 (as_asked L) requests creds"
proof -
  obtain crs where crs: "list_all2 (\<lambda>cr wire. marshalCreds L cr = Inr wire) crs wires" "list_all2 (as_asked L) requests crs"
    using assms(2)
  proof (induction requests wires arbitrary: thesis rule: list_all2_induct)
    case (Cons r rs wire wires)
    obtain cr where "marshalCreds L cr = Inr wire" "as_asked L r cr" using synthesized_cred [OF Cons(1)] by blast
    moreover obtain crs where "list_all2 (\<lambda>cr wire. marshalCreds L cr = Inr wire) crs wires" "list_all2 (as_asked L) rs crs"
      using Cons.IH by blast
    ultimately show ?case by (intro Cons.prems [of "cr # crs"]) auto
  qed simp
  obtain p new where new: "parseName L pname = Inr p" "krb5_cc_get_principal L (FILE_name path) w' = Inr p"
    "krb5_cc_seq_get L (FILE_name path) w' = Inr (new, CCEnd, 0)" "list_all2 (\<lambda>cr cr'. \<exists>e. cr' = cr\<lparr>cr_enctype := e\<rparr>) crs new"
    using file_ccache.writeFileCcache_effect [OF assms(1) refl crs(1) assms(3)] by blast
  have "list_all2 (as_asked L) requests new"
    using crs(2) new(4) by (rule list_all2_trans [rotated]) (auto simp: as_asked_enctype)
  with new show ?thesis by blast
qed

text \<open>An empty cache for alice, and one with a renewable TGT.\<close>

definition ex_request :: ticket_request where
  "ex_request = \<lparr>tr_client = ''alice@R'', tr_server = ''krbtgt/R@R'', tr_start = GoTime (1000 * Second),
     tr_end = GoTime (37000 * Second), tr_flags = tktFlgRenewable\<rparr>"

lemma ex_parse: "parseName ref_lib ''alice@R'' = Inr ex_alice"
  "parseName ref_lib ''krbtgt/R@R'' = Inr \<lparr>kp_type = 1, kp_realm = ''R'', kp_data = [''krbtgt'', ''R'']\<rparr>"
  by (simp_all add: parseName_def ref_lib_def ref_parse_name_def CString_def name_of_text_def ex_alice_def)

definition ex_synth :: krb5_creds where
  "ex_synth = empty_creds\<lparr>cr_client := Some ex_alice,
     cr_server := Some \<lparr>kp_type = 1, kp_realm = ''R'', kp_data = [''krbtgt'', ''R'']\<rparr>, cr_enctype := 18,
     cr_key := [1, 2, 3, 4], cr_authtime := 1000, cr_starttime := 1000, cr_endtime := 37000,
     cr_renew_till := 641800, cr_ticket_flags := tktFlgRenewable, cr_ticket := synth_ticket ''krbtgt/R@R''\<rparr>"

abbreviation ex_key :: "ref_world make_key" where
  "ex_key e w \<equiv> Inr (e, [1, 2, 3, 4])"

lemma ex_synth_encodable: "cred_encodable ex_synth"
  by (simp add: ex_synth_def cred_encodable_def put_cred_def length_MarshalPrincipal put_list_def typed_encodable_def
      put_data_def principal_encodable_def readPrincipal_def empty_creds_def ex_alice_def synth_ticket_def)

lemma ex_synthesized: "synthesized ref_lib ex_key ex_request (put_cred ex_synth)"
proof -
  have "synthCredential ref_lib ex_key ''alice@R'' ''krbtgt/R@R'' (GoTime (1000 * Second)) (GoTime (37000 * Second))
      tktFlgRenewable w = marshalCreds ref_lib ex_synth" for w
    by (simp add: synthCredential_def newKctx_def Let_def ex_parse ex_synth_def empty_creds_def krb5_timestamp_def time_defs
        tktFlgRenewable_def ENCTYPE_AES256_CTS_HMAC_SHA1_96_def)
  then show ?thesis
    using ex_synth_encodable by (simp add: synthesized_def ex_request_def marshalCreds_def ref_lib_def ref_marshal_def)
qed

theorem synthetic_ccache_reads_back_witness:
  "\<exists>w' cr. writeFileCcache ref_lib ''/tmp/cc'' ''alice@R'' [put_cred ex_synth] (ex_world [] []) = (None, w') \<and>
     krb5_cc_seq_get ref_lib ''FILE:/tmp/cc'' w' = Inr ([cr], CCEnd, 0) \<and>
     krbTime (cr_endtime cr) = GoTime (37000 * Second)"
proof -
  obtain w' where w: "writeFileCcache ref_lib ''/tmp/cc'' ''alice@R'' [put_cred ex_synth] (ex_world [] []) = (None, w')"
    using unmarshal_put [OF ex_synth_encodable]
    by (simp add: writeFileCcache_def newKctx_def Let_def ex_parse ref_initialize_def ref_store_def)
  have "list_all2 (synthesized ref_lib ex_key) [ex_request] [put_cred ex_synth]" using ex_synthesized by simp
  from synthetic_ccache_reads_back [OF ref_file.file_ccache_axioms this w] obtain cr where
    cr: "krb5_cc_seq_get ref_lib (FILE_name ''/tmp/cc'') w' = Inr ([cr], CCEnd, 0)" "as_asked ref_lib ex_request cr"
    by (auto simp: list_all2_Cons1)
  moreover have "representable (tr_end ex_request)" by (simp add: representable_def ex_request_def Second_def)
  ultimately have "krbTime (cr_endtime cr) = GoTime (37000 * Second)" by (simp add: as_asked_def ex_request_def)
  then show ?thesis using w cr(1) by auto
qed

end
