(* ===== verification/Cgo_Synth.thy ===== *)
theory Cgo_Synth
  imports Cgo_Client Synth
begin

text \<open>
  The two functions of \<open>Synth\<close> with the C objects they handle, as in \<open>Cgo\<close>: a context of their own that is freed
  last, the fields of a credential that is built in place, and the cache that is written. They give back all
  of it, on every path, and compute what the functional versions compute.
\<close>

text \<open>The fields \<^verbatim>\<open>synthCredential\<close> sets.\<close>

definition synth_creds ::
  "krb5_principal \<Rightarrow> krb5_principal \<Rightarrow> i32 \<Rightarrow> byte list \<Rightarrow> string \<Rightarrow> gotime \<Rightarrow> gotime \<Rightarrow> i32 \<Rightarrow> krb5_creds" where
  "synth_creds cl sv enctype key server start end flags =
     (let creds = empty_creds\<lparr>cr_client := Some cl, cr_server := Some sv, cr_enctype := enctype, cr_key := key,
            cr_ticket := synth_ticket server, cr_authtime := krb5_timestamp start,
            cr_starttime := krb5_timestamp start, cr_endtime := krb5_timestamp end\<rparr>;
          creds = (if flags AND tktFlgRenewable \<noteq> 0
                   then creds\<lparr>cr_renew_till := krb5_timestamp (Add end (7 * 24 * 60 * Minute))\<rparr> else creds)
      in creds\<lparr>cr_ticket_flags := flags\<rparr>)"

definition synthCredential_c ::
  "'w krb5_lib \<Rightarrow> 'w make_key \<Rightarrow> string \<Rightarrow> string \<Rightarrow> gotime \<Rightarrow> gotime \<Rightarrow> i32 \<Rightarrow> ('w, goerror + byte list) cgo" where
  "synthCredential_c L make_key client server start end flags = do {
     r \<leftarrow> newKctx_c L;
     case r of
       Inl err \<Rightarrow> State_Monad.return (Inl err)
     | Inr k \<Rightarrow> defer_do (free_c k) (do {
         r \<leftarrow> parseName_c L k client;
         case r of
           Inl err \<Rightarrow> State_Monad.return (Inl err)
         | Inr (hc, cl) \<Rightarrow> defer_do (free_with Princ (k_ctx k) hc) (do {
             r \<leftarrow> parseName_c L k server;
             case r of
               Inl err \<Rightarrow> State_Monad.return (Inl err)
             | Inr (hs, sv) \<Rightarrow> defer_do (free_with Princ (k_ctx k) hs) (do {
                 touch Context (k_ctx k);
                 r \<leftarrow> query (make_key ENCTYPE_AES256_CTS_HMAC_SHA1_96);
                 case r of
                   Inl code \<Rightarrow> fail_c L (k_ctx k) code
                 | Inr (enctype, key) \<Rightarrow> do {
                     hk \<leftarrow> alloc Keyblock;
                     defer_do (free_with Keyblock (k_ctx k) hk) (do {
                       ticket \<leftarrow> alloc Malloc;
                       defer_do (dealloc Malloc ticket) (do {
                         touch Princ hc;
                         touch Princ hs;
                         touch Keyblock hk;
                         marshalCreds_c L k (ticket, Malloc) (synth_creds cl sv enctype key server start end flags) }) }) } }) }) }) }"

fun store_wires_c :: "'w krb5_lib \<Rightarrow> kctx \<Rightarrow> nat \<Rightarrow> string \<Rightarrow> byte list list \<Rightarrow> ('w, goerror option) cgo" where
  "store_wires_c L k cc name [] = State_Monad.return None"
| "store_wires_c L k cc name (wire # wires) = do {
     r \<leftarrow> unmarshalCreds_c L k wire;
     case r of
       Inl err \<Rightarrow> State_Monad.return (Some err)
     | Inr (h, creds) \<Rightarrow> do {
         touch Context (k_ctx k);
         touch Ccache cc;
         touch Creds h;
         code \<leftarrow> lib (krb5_cc_store_cred L name creds);
         free_with Creds (k_ctx k) h;
         if code \<noteq> 0 then newError_c L (k_ctx k) code else store_wires_c L k cc name wires } }"

definition writeFileCcache_c ::
  "'w krb5_lib \<Rightarrow> string \<Rightarrow> string \<Rightarrow> byte list list \<Rightarrow> ('w, goerror option) cgo" where
  "writeFileCcache_c L path pname wires = do {
     r \<leftarrow> newKctx_c L;
     case r of
       Inl err \<Rightarrow> State_Monad.return (Some err)
     | Inr k \<Rightarrow> defer_do (free_c k) (do {
         name \<leftarrow> alloc Malloc;
         defer_do (dealloc Malloc name) (do {
           touch Context (k_ctx k);
           touch Malloc name;
           code \<leftarrow> query (krb5_cc_resolve L (FILE_name path));
           if code \<noteq> 0 then newError_c L (k_ctx k) code
           else do {
             cc \<leftarrow> alloc Ccache;
             defer_do (free_with Ccache (k_ctx k) cc) (do {
               r \<leftarrow> parseName_c L k pname;
               case r of
                 Inl err \<Rightarrow> State_Monad.return (Some err)
               | Inr (h, princ) \<Rightarrow> defer_do (free_with Princ (k_ctx k) h) (do {
                   touch Context (k_ctx k);
                   touch Ccache cc;
                   touch Princ h;
                   code \<leftarrow> lib (krb5_cc_initialize L (FILE_name path) (Some princ));
                   if code \<noteq> 0 then newError_c L (k_ctx k) code
                   else store_wires_c L k cc (FILE_name path) wires }) }) } }) }) }"

lemma effect_bind_own_context:
  assumes "\<And>e. effect_when Q N {} (p e) own"
    "\<And>k. ctx_of k \<notin> N \<Longrightarrow> cc_of k \<notin> N \<Longrightarrow> effect_when Q (insert (ctx_of k) (insert (cc_of k) N)) {} (q k) own"
  shows "effect_when Q N {} (State_Monad.bind (newKctx_c L)
    (\<lambda>r. case r of Inl e \<Rightarrow> p e | Inr k \<Rightarrow> defer_do (free_c k) (q k))) own"
proof (rule effect_bind_newKctx)
  fix k assume new: "ctx_of k \<notin> N" "cc_of k \<notin> N"
  let ?N = "insert (ctx_of k) (insert (cc_of k) N)"
  have "effect ?N {cc_of k, ctx_of k} (free_c k) (\<lambda>_. {})" by (rule free_c_effect) simp
  then have "effect_when Q ?N ({cc_of k, ctx_of k} \<union> {}) (defer_do (free_c k) (q k)) own"
    using assms(2) [OF new] by (intro effect_defer) auto
  then show "effect_when Q ?N {ctx_of k, cc_of k}
      (case Inr k of Inl e \<Rightarrow> p e | Inr k \<Rightarrow> defer_do (free_c k) (q k)) own"
    by (simp add: insert_commute)
qed (simp add: assms(1))

lemma store_wires_c_effect:
  "ctx_of k \<in> N \<Longrightarrow> (cc, Ccache) \<in> N \<Longrightarrow> tidy N (store_wires_c L k cc name wires)"
  by (induction wires) (auto intro!: effects)

lemmas [effects] = store_wires_c_effect

lemma synthCredential_c_effect: "tidy N (synthCredential_c L make_key client server start end flags)"
  unfolding synthCredential_c_def by (rule effect_bind_own_context) (rule effects | simp)+

lemma writeFileCcache_c_effect: "tidy N (writeFileCcache_c L path pname wires)"
  unfolding writeFileCcache_c_def by (rule effect_bind_own_context) (auto intro!: effects)

lemma store_wires_c_computes: "computes same (store_wires_c L k cc name wires) (store_wires L name wires)"
proof (induction wires)
  case Nil
  show ?case unfolding store_wires_c.simps by (rule computes_cong, (rule computing)+) simp
next
  case (Cons wire wires)
  note [computing] = Cons.IH
  show ?case unfolding store_wires_c.simps
    by (rule computes_cong, (rule computing)+) (simp split: sum.split prod.split)
qed

lemmas [computing] = store_wires_c_computes

lemma synthCredential_unfold:
  "synthCredential L make_key client server start end flags w =
     (case newKctx L w of Some err \<Rightarrow> Inl err | None \<Rightarrow>
     (case parseName L client of Inl err \<Rightarrow> Inl err | Inr cl \<Rightarrow>
     (case parseName L server of Inl err \<Rightarrow> Inl err | Inr sv \<Rightarrow>
     (case make_key ENCTYPE_AES256_CTS_HMAC_SHA1_96 w of
        Inl code \<Rightarrow> Inl (krbErr L code)
      | Inr (enctype, key) \<Rightarrow> marshalCreds L (synth_creds cl sv enctype key server start end flags)))))"
  by (simp only: synthCredential_def synth_creds_def Let_def)

lemma synthCredential_c_computes:
  "computes same (synthCredential_c L make_key client server start end flags)
     (pure (synthCredential L make_key client server start end flags))"
  unfolding synthCredential_c_def
  by (rule computes_cong, (rule computing)+)
    (simp add: synthCredential_unfold split: option.split sum.split prod.split)

lemma writeFileCcache_c_computes:
  "computes same (writeFileCcache_c L path pname wires) (writeFileCcache L path pname wires)"
  unfolding writeFileCcache_c_def
  by (rule computes_cong, (rule computing)+)
    (simp add: writeFileCcache_def Let_def split: option.split sum.split prod.split)

end
