(* ===== verification/Threads.thy ===== *)
theory Threads
  imports Locking
begin

text \<open>
  Goroutines over shared data. An operation is a program whose steps are single calls of libkrb5, pieces of Go code
  that read or write the fields of \<^verbatim>\<open>Client\<close>, and synchronisation calls (those of \<open>Locking\<close>); between two steps
  any other goroutine may make one. \<open>run_alone\<close> is what a program computes when it runs alone, \<open>calls\<close> are its
  synchronisation calls, and \<open>conf_step\<close> interleaves the steps of all goroutines under the lock \<^verbatim>\<open>c.mu\<close>.

  The locale \<open>critical_sections\<close> is the contract of the lock. What is \<open>settled\<close> holds whenever no writer is inside;
  a writer may break it and has to restore it before it unlocks, a reader finds it and has to keep it, and who holds
  nothing may not touch what the lock protects. \<open>wp\<close> says that a program keeps this contract whatever the others do
  between its steps, as long as they keep it.
\<close>

section \<open>Programs\<close>

datatype ('s, 'a) prog =
    Ret 'a
  | Act "'s \<Rightarrow> 's" "'s \<Rightarrow> ('s, 'a) prog" \<comment> \<open>change the data, and go on depending on what they were\<close>
  | Call act "('s, 'a) prog"

primrec bind :: "('s, 'a) prog \<Rightarrow> ('a \<Rightarrow> ('s, 'b) prog) \<Rightarrow> ('s, 'b) prog" where
  "bind (Ret x) g = g x"
| "bind (Act f k) g = Act f (\<lambda>s. bind (k s) g)"
| "bind (Call a p) g = Call a (bind p g)"

definition step :: "('s \<Rightarrow> 'a \<times> 's) \<Rightarrow> ('s, 'a) prog" where
  "step f = Act (\<lambda>s. snd (f s)) (\<lambda>s. Ret (fst (f s)))"

primrec run_alone :: "('s, 'a) prog \<Rightarrow> 's \<Rightarrow> 'a \<times> 's" where
  "run_alone (Ret x) = (\<lambda>s. (x, s))"
| "run_alone (Act f k) = (\<lambda>s. run_alone (k s) (f s))"
| "run_alone (Call a p) = run_alone p"

lemma run_bind [simp]: "run_alone (bind p g) s = (case run_alone p s of (x, s) \<Rightarrow> run_alone (g x) s)"
  by (induction p arbitrary: s) simp_all

lemma run_step [simp]: "run_alone (step f) = f"
  by (simp add: step_def fun_eq_iff)

lemma bind_assoc: "bind (bind p g) h = bind p (\<lambda>x. bind (g x) h)"
  by (induction p) simp_all

lemma bind_Ret [simp]: "bind p Ret = p"
  by (induction p) simp_all

text \<open>The synchronisation calls a program may make, in order, whatever the data are at its steps.\<close>

inductive calls :: "('s, 'a) prog \<Rightarrow> act list \<Rightarrow> 'a \<Rightarrow> bool" where
  "calls (Ret x) [] x"
| "calls (k s) as x \<Longrightarrow> calls (Act f k) as x"
| "calls p as x \<Longrightarrow> calls (Call a p) (a # as) x"

inductive_simps calls_simps [simp]: "calls (Ret x) as y" "calls (Act f k) as y" "calls (Call a p) as y"

lemma calls_bind:
  "calls (bind p g) as y \<longleftrightarrow> (\<exists>as1 as2 x. as = as1 @ as2 \<and> calls p as1 x \<and> calls (g x) as2 y)"
proof (induction p arbitrary: as)
  case (Act f k)
  then show ?case by simp blast
next
  case (Call a p)
  have "calls (bind (Call a p) g) as y \<longleftrightarrow>
      (\<exists>bs as1 as2 x. as = a # bs \<and> bs = as1 @ as2 \<and> calls p as1 x \<and> calls (g x) as2 y)"
    using Call by auto
  then show ?case by (auto simp: Cons_eq_append_conv) blast+
qed simp

lemma calls_step [simp]: "calls (step f) as x \<longleftrightarrow> as = [] \<and> (\<exists>s. x = fst (f s))"
  by (auto simp: step_def)

section \<open>Interleaving\<close>

fun lock_after :: "act \<Rightarrow> hold \<Rightarrow> hold option" where
  "lock_after RLock h = (if h = Free then Some Read else None)"
| "lock_after RUnlock h = (if h = Read then Some Free else None)"
| "lock_after Lock h = (if h = Free then Some Write else None)"
| "lock_after Unlock h = (if h = Write then Some Free else None)"
| "lock_after _ h = Some h"

fun may_call :: "act \<Rightarrow> hold list \<Rightarrow> bool" where
  "may_call RLock hs \<longleftrightarrow> Write \<notin> set hs"
| "may_call Lock hs \<longleftrightarrow> set hs \<subseteq> {Free}"
| "may_call _ hs \<longleftrightarrow> True"

text \<open>A goroutine holds the lock in some way and has a program left, whose result says whether it panicked.\<close>

record 's conf =
  cf_data :: 's
  cf_gors :: "(hold \<times> ('s, bool) prog) list"

abbreviation cf_holds :: "'s conf \<Rightarrow> hold list" where
  "cf_holds C \<equiv> map fst (cf_gors C)"

abbreviation put_gor :: "nat \<Rightarrow> hold \<Rightarrow> ('s, bool) prog \<Rightarrow> 's conf \<Rightarrow> 's conf" where
  "put_gor i h p C \<equiv> C\<lparr>cf_gors := (cf_gors C)[i := (h, p)]\<rparr>"

definition new_conf :: "'s \<Rightarrow> nat \<Rightarrow> 's conf" where
  "new_conf s n = \<lparr>cf_data = s, cf_gors = replicate n (Free, Ret False)\<rparr>"

text \<open>\<open>env\<close>: changes made outside of the process; \<open>ops\<close>: the operations goroutines run, one after the other.\<close>

inductive conf_step ::
  "('s \<Rightarrow> 's \<Rightarrow> bool) \<Rightarrow> (('s, bool) prog \<Rightarrow> bool) \<Rightarrow> 's conf \<Rightarrow> 's conf \<Rightarrow> bool" for env ops C where
  act: "i < length (cf_gors C) \<Longrightarrow> cf_gors C ! i = (h, Act f k) \<Longrightarrow>
    conf_step env ops C (C\<lparr>cf_data := f (cf_data C), cf_gors := (cf_gors C)[i := (h, k (cf_data C))]\<rparr>)"
| call: "i < length (cf_gors C) \<Longrightarrow> cf_gors C ! i = (h, Call a p) \<Longrightarrow> lock_after a h = Some h' \<Longrightarrow>
    may_call a (cf_holds C) \<Longrightarrow> conf_step env ops C (put_gor i h' p C)"
| start: "i < length (cf_gors C) \<Longrightarrow> cf_gors C ! i = (Free, Ret False) \<Longrightarrow> ops p \<Longrightarrow>
    conf_step env ops C (put_gor i Free p C)"
| outside: "env (cf_data C) s \<Longrightarrow> conf_step env ops C (C\<lparr>cf_data := s\<rparr>)"

definition writer_alone :: "hold list \<Rightarrow> bool" where
  "writer_alone hs \<longleftrightarrow> (\<forall>i < length hs. \<forall>j < length hs. i \<noteq> j \<longrightarrow> hs ! i = Write \<longrightarrow> hs ! j = Free)"

lemma writer_aloneD:
  "writer_alone hs \<Longrightarrow> i < length hs \<Longrightarrow> j < length hs \<Longrightarrow> i \<noteq> j \<Longrightarrow> hs ! i = Write \<Longrightarrow> hs ! j = Free"
  unfolding writer_alone_def by blast

text \<open>A schedule as a list of goroutines, each making the step it is at; to run examples.\<close>

definition go :: "nat \<Rightarrow> 's conf \<Rightarrow> 's conf option" where
  "go i C =
     (if i < length (cf_gors C)
      then (case cf_gors C ! i of
              (h, Ret x) \<Rightarrow> None
            | (h, Act f k) \<Rightarrow> 
                Some (C\<lparr>cf_data := f (cf_data C), cf_gors := (cf_gors C)[i := (h, k (cf_data C))]\<rparr>)
            | (h, Call a p) \<Rightarrow>
                (case lock_after a h of
                   None \<Rightarrow> None
                 | Some h' \<Rightarrow> if may_call a (cf_holds C) then Some (put_gor i h' p C) else None))
      else None)"

primrec follow :: "nat list \<Rightarrow> 's conf \<Rightarrow> 's conf option" where
  "follow [] C = Some C"
| "follow (i # is) C = (case go i C of None \<Rightarrow> None | Some C \<Rightarrow> follow is C)"

lemma go_step: "go i C = Some C' \<Longrightarrow> conf_step env ops C C'"
  by (auto simp: go_def split: if_splits prod.splits prog.splits option.splits intro: conf_step.act conf_step.call)

lemma follow_append: "follow (is @ js) C = (case follow is C of None \<Rightarrow> None | Some C \<Rightarrow> follow js C)"
  by (induction "is" arbitrary: C) (simp_all split: option.splits)

lemma follow_steps: "follow is C = Some C' \<Longrightarrow> (conf_step env ops)\<^sup>*\<^sup>* C C'"
proof (induction "is" arbitrary: C)
  case (Cons i "is")
  then obtain C1 where "go i C = Some C1" "follow is C1 = Some C'" by (auto split: option.splits)
  then show ?case using Cons.IH go_step converse_rtranclp_into_rtranclp by metis
qed simp

section \<open>The contract of the lock\<close>

locale critical_sections =
  fixes settled :: "'s \<Rightarrow> bool" \<comment> \<open>while no writer is inside\<close>
    and always :: "'s \<Rightarrow> bool" \<comment> \<open>also while one is\<close>
    and rest :: "'s \<Rightarrow> 's \<Rightarrow> bool" \<comment> \<open>nothing that the lock protects changes\<close>
    and fields :: "'s \<Rightarrow> 'v" \<comment> \<open>what only a writer changes\<close>
  assumes rest_refl [simp]: "rest s s"
    and rest_trans: "rest s s' \<Longrightarrow> rest s' s'' \<Longrightarrow> rest s s''"
    and rest_fields: "rest s s' \<Longrightarrow> fields s' = fields s"
    and rest_settled: "rest s s' \<Longrightarrow> settled s \<Longrightarrow> settled s'"
    and rest_always: "rest s s' \<Longrightarrow> always s \<Longrightarrow> always s'"
    and settled_always: "settled s \<Longrightarrow> always s"
begin

fun relies :: "hold \<Rightarrow> 's \<Rightarrow> 's \<Rightarrow> bool" where
  "relies Free s s' = True"
| "relies Read s s' = (settled s' \<and> fields s' = fields s)"
| "relies Write s s' = rest s s'"

fun grants :: "hold \<Rightarrow> 's \<Rightarrow> 's \<Rightarrow> bool" where
  "grants Free s s' = rest s s'"
| "grants Read s s' = (settled s \<longrightarrow> settled s' \<and> fields s' = fields s)"
| "grants Write s s' = (always s \<longrightarrow> always s')"

primrec wp :: "('s, 'a) prog \<Rightarrow> ('a \<Rightarrow> hold \<Rightarrow> 's \<Rightarrow> bool) \<Rightarrow> hold \<Rightarrow> 's \<Rightarrow> bool" where
  "wp (Ret x) Q = (\<lambda>h s. Q x h s)"
| "wp (Act f k) Q = (\<lambda>h s. \<forall>s'. relies h s s' \<longrightarrow> grants h s' (f s') \<and> wp (k s') Q h (f s'))"
| "wp (Call a p) Q = (\<lambda>h s. \<exists>h'. lock_after a h = Some h' \<and>
     (\<forall>s'. relies h s s' \<longrightarrow> (a \<in> {RLock, Lock} \<longrightarrow> settled s') \<longrightarrow> (a = Unlock \<longrightarrow> settled s') \<and> wp p Q h' s'))"

lemma relies_trans: "relies h s s' \<Longrightarrow> relies h s' s'' \<Longrightarrow> relies h s s''"
  by (cases h) (auto intro: rest_trans)

lemma wp_bind: "wp (bind p g) Q h s = wp p (\<lambda>x. wp (g x) Q) h s"
  by (induction p arbitrary: h s) simp_all

lemma wp_step: "wp (step f) Q h s \<longleftrightarrow> (\<forall>s' x s''. relies h s s' \<longrightarrow> f s' = (x, s'') \<longrightarrow> grants h s' s'' \<and> Q x h s'')"
  by (simp add: step_def) (metis prod.collapse prod.inject)

lemma wp_relies:
  assumes "wp p Q h s" "relies h s s'" "\<And>x h s s'. Q x h s \<Longrightarrow> relies h s s' \<Longrightarrow> Q x h s'"
  shows "wp p Q h s'"
proof (cases p)
  case (Ret x)
  then show ?thesis using assms by simp
next
  case (Act f k)
  then show ?thesis using assms(1) relies_trans [OF assms(2)] by simp
next
  case (Call a q)
  then show ?thesis using assms(1) relies_trans [OF assms(2)] by (simp del: insert_iff) blast
qed

lemma wp_mono: "wp p Q h s \<Longrightarrow> (\<And>x h s. Q x h s \<Longrightarrow> Q' x h s) \<Longrightarrow> wp p Q' h s"
  by (induction p arbitrary: h s) (simp_all, blast+)

end

text \<open>Goroutines whose operations keep the contract, in an environment that leaves alone what is protected.\<close>

locale concurrent_sections = critical_sections +
  fixes env :: "'a \<Rightarrow> 'a \<Rightarrow> bool"
    and ops :: "('a, bool) prog \<Rightarrow> bool"
  assumes env_rest: "env s s' \<Longrightarrow> rest s s'"
    and ops_wp: "ops p \<Longrightarrow> wp p (\<lambda>panicked h _. h = Free \<or> panicked) Free s"
begin

abbreviation ended :: "bool \<Rightarrow> hold \<Rightarrow> 'a \<Rightarrow> bool" where
  "ended \<equiv> \<lambda>panicked h _. h = Free \<or> panicked"

definition conf_inv :: "'a conf \<Rightarrow> bool" where
  "conf_inv C \<longleftrightarrow> always (cf_data C) \<and> (Write \<notin> set (cf_holds C) \<longrightarrow> settled (cf_data C)) \<and>
     writer_alone (cf_holds C) \<and>
     (\<forall>g \<in> set (cf_gors C). wp (snd g) ended (fst g) (cf_data C))"

lemma wp_ended: "wp p ended h s \<Longrightarrow> relies h s s' \<Longrightarrow> wp p ended h s'"
  by (erule wp_relies) auto

text \<open>What the step of one goroutine, or of the environment, is to the others.\<close>

lemma others_rely:
  assumes "conf_inv C" "j < length (cf_gors C)"
    "\<And>h. h = fst (cf_gors C ! j) \<Longrightarrow> h \<noteq> Free \<Longrightarrow> relies h (cf_data C) s"
  shows "wp (snd (cf_gors C ! j)) ended (fst (cf_gors C ! j)) s"
proof -
  have "relies (fst (cf_gors C ! j)) (cf_data C) s" using assms(3) by (cases "fst (cf_gors C ! j)") auto
  moreover have "wp (snd (cf_gors C ! j)) ended (fst (cf_gors C ! j)) (cf_data C)"
    using assms(1,2) by (simp add: conf_inv_def)
  ultimately show ?thesis using wp_ended by blast
qed

lemma conf_inv_update:
  assumes "conf_inv C" "i < length (cf_gors C)" "always s" "wp p ended h s"
    and writes: "\<And>j. j < length (cf_gors C) \<Longrightarrow> j \<noteq> i \<Longrightarrow> h = Write \<Longrightarrow> fst (cf_gors C ! j) = Free"
    and written: "\<And>j. j < length (cf_gors C) \<Longrightarrow> j \<noteq> i \<Longrightarrow> fst (cf_gors C ! j) = Write \<Longrightarrow> h = Free"
    and rely: "\<And>j. j < length (cf_gors C) \<Longrightarrow> j \<noteq> i \<Longrightarrow> fst (cf_gors C ! j) \<noteq> Free \<Longrightarrow>
      relies (fst (cf_gors C ! j)) (cf_data C) s"
    and "Write \<notin> set (map fst ((cf_gors C)[i := (h, p)])) \<Longrightarrow> settled s"
  shows "conf_inv \<lparr>cf_data = s, cf_gors = (cf_gors C)[i := (h, p)]\<rparr>"
proof -
  let ?gs = "(cf_gors C)[i := (h, p)]"
  have "wp (snd (?gs ! j)) ended (fst (?gs ! j)) s" if "j < length ?gs" for j
    using that assms(2,4) rely [of j] others_rely [OF assms(1), of j s] by (cases "j = i") auto
  then have "\<forall>g \<in> set ?gs. wp (snd g) ended (fst g) s" unfolding all_set_conv_all_nth by blast
  moreover have "writer_alone (map fst ?gs)"
    unfolding writer_alone_def
  proof (intro allI impI)
    fix j k
    assume jk: "j < length (map fst ?gs)" "k < length (map fst ?gs)" "j \<noteq> k" "map fst ?gs ! j = Write"
    then have len: "j < length (cf_gors C)" "k < length (cf_gors C)" by simp_all
    show "map fst ?gs ! k = Free"
    proof (cases "j = i")
      case True
      then have "h = Write" "k \<noteq> i" using jk(3,4) len(1) by simp_all
      then show ?thesis using writes [OF len(2)] len(2) by simp
    next
      case False
      then have w: "fst (cf_gors C ! j) = Write" using jk(4) len(1) by simp
      show ?thesis
      proof (cases "k = i")
        case True
        then show ?thesis using written [OF len(1) False w] len(2) by simp
      next
        case False
        have "cf_holds C ! k = Free"
          using writer_aloneD [of "cf_holds C" j k] assms(1) len jk(3) w by (simp add: conf_inv_def)
        then show ?thesis using False len by simp
      qed
    qed
  qed
  ultimately show ?thesis using assms(3,8) by (simp add: conf_inv_def)
qed

lemma conf_inv_gor:
  assumes "conf_inv C" "i < length (cf_gors C)"
  shows "wp (snd (cf_gors C ! i)) ended (fst (cf_gors C ! i)) (cf_data C)"
    "relies (fst (cf_gors C ! i)) (cf_data C) (cf_data C)"
    "fst (cf_gors C ! i) = Read \<Longrightarrow> settled (cf_data C)"
proof -
  show "wp (snd (cf_gors C ! i)) ended (fst (cf_gors C ! i)) (cf_data C)"
    using assms by (simp add: conf_inv_def)
  show read: "settled (cf_data C)" if r: "fst (cf_gors C ! i) = Read"
  proof -
    have "cf_holds C ! j \<noteq> Write" if "j < length (cf_gors C)" for j
      using that assms r writer_aloneD [of "cf_holds C" j i] by (cases "j = i") (auto simp: conf_inv_def)
    then have "Write \<notin> set (cf_holds C)" by (metis in_set_conv_nth length_map)
    then show ?thesis using assms(1) by (simp add: conf_inv_def)
  qed
  then show "relies (fst (cf_gors C ! i)) (cf_data C) (cf_data C)" by (cases "fst (cf_gors C ! i)") auto
qed

lemma conf_inv_alone:
  assumes "conf_inv C" "i < length (cf_gors C)" "j < length (cf_gors C)" "i \<noteq> j"
  shows "fst (cf_gors C ! i) = Write \<Longrightarrow> fst (cf_gors C ! j) = Free"
  using assms writer_aloneD [of "cf_holds C" i j] by (simp add: conf_inv_def)

lemma may_call_settled: "conf_inv C \<Longrightarrow> may_call a (cf_holds C) \<Longrightarrow> a \<in> {RLock, Lock} \<Longrightarrow> settled (cf_data C)"
  by (auto simp: conf_inv_def simp del: set_map)

lemma conf_act:
  assumes "conf_inv C" "i < length (cf_gors C)" "cf_gors C ! i = (h, Act f k)"
  shows "conf_inv (C\<lparr>cf_data := f (cf_data C), cf_gors := (cf_gors C)[i := (h, k (cf_data C))]\<rparr>)"
proof -
  let ?s = "cf_data C"
  have w: "grants h ?s (f ?s)" "wp (k ?s) ended h (f ?s)"
    using conf_inv_gor(1,2) [OF assms(1,2)] assms(3) by simp_all
  have al: "always ?s" using assms(1) by (simp add: conf_inv_def)
  have set: "settled ?s" if "h = Read" using conf_inv_gor(3) [OF assms(1,2)] assms(3) that by simp
  have "relies (fst (cf_gors C ! j)) ?s (f ?s)"
    if "j < length (cf_gors C)" "j \<noteq> i" "fst (cf_gors C ! j) \<noteq> Free" for j
  proof (cases "fst (cf_gors C ! j)")
    case Read
    then have "h \<noteq> Write" using conf_inv_alone [OF assms(1,2) that(1)] that(2) assms(3) by auto
    moreover have "settled ?s" using conf_inv_gor(3) [OF assms(1) that(1)] Read by simp
    ultimately show ?thesis using w(1) Read rest_settled rest_fields by (cases h) auto
  next
    case Write
    then have "h = Free" using conf_inv_alone [OF assms(1) that(1) assms(2)] that(2) assms(3) by auto
    then show ?thesis using w(1) Write by simp
  qed (use that in simp)
  note rely = this
  note alone = conf_inv_alone [OF assms(1,2), unfolded assms(3) fst_conv] conf_inv_alone [OF assms(1) _ assms(2), unfolded assms(3) fst_conv]
  have "settled (f ?s)" if nw: "Write \<notin> set (map fst ((cf_gors C)[i := (h, k ?s)]))"
  proof -
    have "map fst ((cf_gors C)[i := (h, k ?s)]) = cf_holds C"
      using assms(2,3) by (simp add: map_update list_update_same_conv)
    then have "Write \<notin> set (cf_holds C)" using nw by simp
    moreover have "h \<in> set (cf_holds C)" using nth_mem [OF assms(2)] assms(3) by force
    ultimately have "Write \<notin> set (cf_holds C)" "h \<noteq> Write" by metis+
    then show ?thesis using assms(1) w(1) rest_settled by (cases h) (auto simp: conf_inv_def)
  qed
  moreover have "always (f ?s)" using w(1) al set rest_always settled_always by (cases h) auto
  ultimately have "conf_inv \<lparr>cf_data = f ?s, cf_gors = (cf_gors C)[i := (h, k ?s)]\<rparr>"
    by (intro conf_inv_update [OF assms(1,2) _ w(2)]) (auto intro: alone rely)
  then show ?thesis by (cases C) simp
qed

lemma conf_call:
  assumes "conf_inv C" "i < length (cf_gors C)" "cf_gors C ! i = (h, Call a p)" "lock_after a h = Some h'"
    "may_call a (cf_holds C)"
  shows "conf_inv (put_gor i h' p C)"
proof -
  let ?s = "cf_data C"
  have w: "a = Unlock \<longrightarrow> settled ?s" "wp p ended h' ?s"
    using conf_inv_gor(1,2) [OF assms(1,2)] assms(3,4) may_call_settled [OF assms(1,5)] by auto
  have al: "always ?s" using assms(1) by (simp add: conf_inv_def)
  note alone = conf_inv_alone [OF assms(1,2), unfolded assms(3) fst_conv] conf_inv_alone [OF assms(1) _ assms(2), unfolded assms(3) fst_conv]
  have holds: "fst (cf_gors C ! j) \<in> set (cf_holds C)" if "j < length (cf_gors C)" for j
    using nth_mem that by (metis length_map nth_map)
  have writes: "fst (cf_gors C ! j) = Free" if "j < length (cf_gors C)" "j \<noteq> i" "h' = Write" for j
  proof (cases "a = Lock")
    case True
    then show ?thesis using assms(5) holds [OF that(1)] by (auto simp del: set_map)
  next
    case False
    then have "h = Write" using assms(4) that(3) by (cases a) (auto split: if_splits)
    then show ?thesis using alone(1) that by blast
  qed
  have written: "h' = Free" if "j < length (cf_gors C)" "j \<noteq> i" "fst (cf_gors C ! j) = Write" for j
  proof -
    have "h = Free" using alone(2) that by blast
    moreover have "Write \<in> set (cf_holds C)" using holds [OF that(1)] that(3) by simp
    ultimately show ?thesis using assms(4,5) by (cases a) (auto split: if_splits simp del: set_map)
  qed
  have settled: "settled ?s" if nw: "Write \<notin> set (map fst ((cf_gors C)[i := (h', p)]))"
  proof (cases "a = Unlock")
    case False
    have "h' \<noteq> Write" using nw assms(2) set_update_memI [of i "cf_holds C" Write] by (auto simp: map_update simp del: set_map)
    then have "h \<noteq> Write" using assms(4) False by (cases a) (auto split: if_splits)
    then have "cf_holds C ! j \<noteq> Write" if "j < length (cf_gors C)" for j
      using nw that assms(2,3) by (cases "j = i") (auto simp: in_set_conv_nth map_update)
    then have "Write \<notin> set (cf_holds C)" by (metis in_set_conv_nth length_map)
    then show ?thesis using assms(1) by (simp add: conf_inv_def)
  qed (use w in simp)
  have "conf_inv \<lparr>cf_data = ?s, cf_gors = (cf_gors C)[i := (h', p)]\<rparr>"
    by (rule conf_inv_update [OF assms(1,2) al w(2)]) (use writes written settled conf_inv_gor(2) [OF assms(1)] in blast)+
  then show ?thesis by (cases C) simp
qed

lemma conf_start:
  assumes "conf_inv C" "i < length (cf_gors C)" "cf_gors C ! i = (Free, Ret False)" "ops p"
  shows "conf_inv (put_gor i Free p C)"
proof -
  have same: "map fst ((cf_gors C)[i := (Free, p)]) = cf_holds C"
    using assms(2,3) by (simp add: map_update list_update_same_conv)
  have "conf_inv \<lparr>cf_data = cf_data C, cf_gors = (cf_gors C)[i := (Free, p)]\<rparr>"
  proof (rule conf_inv_update [OF assms(1,2) _ ops_wp [OF assms(4)]])
    show "settled (cf_data C)" if "Write \<notin> set (map fst ((cf_gors C)[i := (Free, p)]))"
      using that assms(1) unfolding same by (simp add: conf_inv_def)
  qed (use assms(1) conf_inv_gor(2) [OF assms(1)] in \<open>auto simp: conf_inv_def\<close>)
  then show ?thesis by (cases C) simp
qed

lemma conf_outside:
  assumes "conf_inv C" "env (cf_data C) s"
  shows "conf_inv (C\<lparr>cf_data := s\<rparr>)"
proof -
  have r: "rest (cf_data C) s" using assms(2) by (rule env_rest)
  have "wp (snd (cf_gors C ! j)) ended (fst (cf_gors C ! j)) s" if "j < length (cf_gors C)" for j
  proof (rule others_rely [OF assms(1) that])
    show "relies h (cf_data C) s" if "h = fst (cf_gors C ! j)" for h
      using that conf_inv_gor(3) [OF assms(1) \<open>j < _\<close>] r rest_settled rest_fields by (cases h) auto
  qed
  then have "\<forall>g \<in> set (cf_gors C). wp (snd g) ended (fst g) s" unfolding all_set_conv_all_nth by blast
  then show ?thesis using assms(1) r rest_settled rest_always by (auto simp: conf_inv_def)
qed

lemma conf_step_inv: "conf_inv C \<Longrightarrow> conf_step env ops C C' \<Longrightarrow> conf_inv C'"
  by (erule conf_step.cases) (auto intro: conf_act conf_call conf_start conf_outside simp del: lock_after.simps may_call.simps)

lemma new_conf_inv: "settled s \<Longrightarrow> conf_inv (new_conf s n)"
  by (auto simp: conf_inv_def new_conf_def writer_alone_def settled_always)

text \<open>While a reader is inside, nobody changes what only writers change.\<close>

lemma conf_step_fields:
  assumes "conf_inv C" "conf_step env ops C C'" "Read \<in> set (cf_holds C)"
  shows "fields (cf_data C') = fields (cf_data C)"
proof -
  obtain j where j: "j < length (cf_gors C)" "fst (cf_gors C ! j) = Read"
    using assms(3) unfolding in_set_conv_nth by auto
  from assms(2) show ?thesis
  proof cases
    case (act i h f k)
    have "h \<noteq> Write" using conf_inv_alone [OF assms(1) act(2) j(1)] j(2) act(3) by (cases "i = j") auto
    moreover have "grants h (cf_data C) (f (cf_data C))"
      using conf_inv_gor(1,2) [OF assms(1) act(2)] act(3) by simp
    ultimately show ?thesis
      using act(1) conf_inv_gor(3) [OF assms(1) j] by (cases h) (auto simp: rest_fields)
  qed (auto dest: env_rest rest_fields)
qed

end

sublocale concurrent_sections \<subseteq> conf: invariant_system "\<lambda>C. \<exists>s n. settled s \<and> C = new_conf s n" "conf_step env ops" conf_inv
  by unfold_locales (auto intro: conf_step_inv new_conf_inv)

context concurrent_sections
begin

lemma conf_reachable: "settled s \<Longrightarrow> (conf_step env ops)\<^sup>*\<^sup>* (new_conf s n) C \<Longrightarrow> conf_inv C"
  by (rule conf.reachable_inv) blast

end

end
