(* ===== verification/Sections.thy ===== *)
theory Sections
  imports Threads Ops
begin

text \<open>
  The operations of \<^verbatim>\<open>krb5c.go\<close>, \<^verbatim>\<open>tgt.go\<close> and \<^verbatim>\<open>ops.go\<close> as programs (suffix \<open>_p\<close>): one step for each call of
  libkrb5 that reads or changes a cache, the file or the KDC, one for each piece of Go code that reads or
  writes the fields of \<^verbatim>\<open>Client\<close>, and the synchronisation calls where the source has them. A cursor is a snapshot, as
  in \<open>Krb5_Lib\<close>. Each program, run alone, is the operation of \<open>Client\<close> or \<open>Ops\<close> (\<open>Requests\<close>), and its
  synchronisation calls are those \<open>Locking\<close> gives the operation.
\<close>

type_synonym ('w, 'a) routine = "(client \<times> 'w, 'a) prog"

section \<open>Steps\<close>

definition lib_step :: "('w \<Rightarrow> 'a \<times> 'w) \<Rightarrow> ('w, 'a) routine" where
  "lib_step f = step (\<lambda>(c, w). case f w of (r, w) \<Rightarrow> (r, c, w))"

definition ask :: "('w \<Rightarrow> 'a) \<Rightarrow> ('w, 'a) routine" where
  "ask f = step (\<lambda>(c, w). (f w, c, w))"

definition fields_step :: "(client \<Rightarrow> 'a \<times> client) \<Rightarrow> ('w, 'a) routine" where
  "fields_step f = step (\<lambda>(c, w). case f c of (r, c) \<Rightarrow> (r, c, w))"

definition get :: "(client \<Rightarrow> 'a) \<Rightarrow> ('w, 'a) routine" where
  "get f = fields_step (\<lambda>c. (f c, c))"

definition upd :: "(client \<Rightarrow> client) \<Rightarrow> ('w, unit) routine" where
  "upd f = fields_step (\<lambda>c. ((), f c))"

definition reading :: "('s, 'a) prog \<Rightarrow> ('s, 'a) prog" where
  "reading p = Call RLock (bind p (\<lambda>x. Call RUnlock (Ret x)))"

definition writing :: "('s, 'a) prog \<Rightarrow> ('s, 'a) prog" where
  "writing p = Call Lock (bind p (\<lambda>x. Call Unlock (Ret x)))"

text \<open>A step that may fail, and one whose error code is all it gives.\<close>

definition or_fail :: "('s, 'e + 'a) prog \<Rightarrow> ('a \<Rightarrow> ('s, 'e + 'b) prog) \<Rightarrow> ('s, 'e + 'b) prog" where
  "or_fail p g = bind p (\<lambda>r. case r of Inl err \<Rightarrow> Ret (Inl err) | Inr x \<Rightarrow> g x)"

definition unless_fails :: "('s, goerror option) prog \<Rightarrow> ('s, goerror option) prog \<Rightarrow> ('s, goerror option) prog" where
  "unless_fails p q = bind p (\<lambda>r. case r of Some err \<Rightarrow> Ret (Some err) | None \<Rightarrow> q)"

definition or_code :: "'w krb5_lib \<Rightarrow> ('s, i32) prog \<Rightarrow> ('s, goerror + 'b) prog \<Rightarrow> ('s, goerror + 'b) prog" where
  "or_code L p q = bind p (\<lambda>code. if code \<noteq> 0 then Ret (Inl (krbErr L code)) else q)"

section \<open>Contexts\<close>

definition take_idle :: "client \<Rightarrow> bool \<times> client" where
  "take_idle c = (if 0 < idle c then (True, c\<lparr>idle := idle c - 1\<rparr>) else (False, c))"

definition newKctx_p :: "'w krb5_lib \<Rightarrow> ('w, goerror option) routine" where
  "newKctx_p L =
     bind (ask (krb5_init_context L)) (\<lambda>code.
       if code \<noteq> 0 then Ret (Some (PlainError (''krb5_init_context failed (code '' @ fmt_int (sint code) @ '')'')))
       else bind (ask (krb5_cc_resolve L workingCacheName)) (\<lambda>code.
         Ret (if code \<noteq> 0 then Some (WrapError ''resolving working cache: '' (krbErr L code)) else None)))"

definition acquire_p :: "'w krb5_lib \<Rightarrow> ('w, goerror option) routine" where
  "acquire_p L =
     Call Slot (bind (fields_step take_idle) (\<lambda>got.
       if got then Ret None
       else bind (newKctx_p L) (\<lambda>e. case e of Some err \<Rightarrow> Call Unslot (Ret (Some err)) | None \<Rightarrow> Ret None)))"

definition release_p :: "('w, unit) routine" where
  "release_p = bind (upd release) (\<lambda>_. Call Unslot (Ret ()))"

definition with_context_p :: "'w krb5_lib \<Rightarrow> ('w, goerror + 'a) routine \<Rightarrow> ('w, goerror + 'a) routine" where
  "with_context_p L p =
     bind (acquire_p L) (\<lambda>e. case e of
       Some err \<Rightarrow> Ret (Inl err)
     | None \<Rightarrow> bind p (\<lambda>r. bind release_p (\<lambda>_. Ret r)))"

section \<open>Loading and swapping the TGT\<close>

fun load_creds_p ::
  "'w krb5_lib \<Rightarrow> gotime \<Rightarrow> krb5_creds list \<Rightarrow> i32 \<Rightarrow> tgtInfo option \<Rightarrow> ('w, goerror + tgtInfo option) routine" where
  "load_creds_p L now [] code found = Ret (if code = CCEnd then Inr found else Inl (krbErr L code))"
| "load_creds_p L now (cred # creds) code found =
     or_fail (lib_step (loadOne L now cred found)) (\<lambda>found. load_creds_p L now creds code found)"

definition loadFrom_p :: "'w krb5_lib \<Rightarrow> string \<Rightarrow> gotime \<Rightarrow> ('w, goerror + tgtInfo option) routine" where
  "loadFrom_p L src now =
     bind (ask (krb5_cc_seq_get L src)) (\<lambda>r. case r of
       Inl code \<Rightarrow> Ret (Inl (krbErr L code))
     | Inr (creds, code, endcode) \<Rightarrow>
         or_fail (load_creds_p L now creds code None) (\<lambda>found.
           Ret (case newError L endcode of Some err \<Rightarrow> Inl err | None \<Rightarrow> Inr found)))"

definition setTGT_p :: "'w krb5_lib \<Rightarrow> tgtInfo \<Rightarrow> ('w, goerror option) routine" where
  "setTGT_p L info =
     (case unmarshalCreds L (ti_wire info) of
        Inl err \<Rightarrow> Ret (Some err)
      | Inr creds \<Rightarrow>
          bind (get tgt) (\<lambda>old.
          bind (case old of None \<Rightarrow> Ret None | Some (_, t) \<Rightarrow> lib_step (removeCredExact L (ti_wire t))) (\<lambda>e. case e of
            Some err \<Rightarrow> Ret (Some (WrapError ''removing previous TGT: '' err))
          | None \<Rightarrow>
              unless_fails (lib_step (storeTGT L creds))
                (bind (upd (install_tgt info)) (\<lambda>_. bind (upd resetRenewBackoff) (\<lambda>_. Ret None))))))"

section \<open>Renewal\<close>

definition renew_scratch_p :: "'w krb5_lib \<Rightarrow> krb5_creds \<Rightarrow> ('w, goerror + tgtInfo) routine" where
  "renew_scratch_p L creds =
     or_code L (lib_step (krb5_cc_initialize L renewCacheName (cr_client creds)))
       (or_code L (lib_step (krb5_cc_store_cred L renewCacheName creds))
         (bind (lib_step (krb5_get_renewed_creds L (cr_client creds) renewCacheName)) (\<lambda>r. case r of
            Inl code \<Rightarrow> Ret (Inl (krbErr L code))
          | Inr renewed \<Rightarrow> Ret (tgtInfoFrom L renewed))))"

definition renewExchange_p :: "'w krb5_lib \<Rightarrow> byte list \<Rightarrow> ('w, goerror + tgtInfo) routine" where
  "renewExchange_p L wire =
     (case unmarshalCreds L wire of
        Inl err \<Rightarrow> Ret (Inl err)
      | Inr creds \<Rightarrow>
          or_code L (ask (krb5_cc_resolve L renewCacheName))
            (bind (renew_scratch_p L creds) (\<lambda>res.
               bind (lib_step (\<lambda>w. ((), krb5_cc_destroy L renewCacheName w))) (\<lambda>_. Ret res))))"

definition renew_failed_p :: "gotime \<Rightarrow> goerror \<Rightarrow> ('w, goerror option) routine" where
  "renew_failed_p now err = bind (upd (noteRenewFailure now)) (\<lambda>_. Ret (Some err))"

definition renew_finish_p ::
  "'w krb5_lib \<Rightarrow> nat \<times> tgtInfo \<Rightarrow> gotime \<Rightarrow> goerror + tgtInfo \<Rightarrow> ('w, goerror option) routine" where
  "renew_finish_p L started now res =
     bind (upd (\<lambda>c. c\<lparr>renewing := False\<rparr>)) (\<lambda>_.
     bind (get (\<lambda>c. map_option fst (tgt c) = Some (fst started))) (\<lambda>same.
       if \<not> same then Ret None
       else (case res of
          Inl err \<Rightarrow> renew_failed_p now err
        | Inr info \<Rightarrow>
            bind (setTGT_p L info) (\<lambda>e. case e of Some err \<Rightarrow> renew_failed_p now err | None \<Rightarrow> Ret None))))"

definition renewTGT_p :: "'w krb5_lib \<Rightarrow> gotime \<Rightarrow> ('w, goerror option) routine" where
  "renewTGT_p L now =
     bind (writing (fields_step renew_start)) (\<lambda>r. case r of
       Inl err \<Rightarrow> Ret (Some err)
     | Inr started \<Rightarrow>
         bind (renewExchange_p L (ti_wire (snd started))) (\<lambda>res. writing (renew_finish_p L started now res)))"

section \<open>Adopting a newer TGT\<close>

definition adopt_file_p :: "'w krb5_lib \<Rightarrow> string \<Rightarrow> krb5_principal \<Rightarrow> gotime \<Rightarrow> ('w, goerror option) routine" where
  "adopt_file_p L src princ now =
     bind (lib_step (krb5_cc_initialize L workingCacheName (Some princ))) (\<lambda>code.
       if code \<noteq> 0 then Ret None
       else bind (upd (\<lambda>c. c\<lparr>tgt := None\<rparr>)) (\<lambda>_.
         bind (loadFrom_p L src now) (\<lambda>r. case r of
           Inl err \<Rightarrow> Ret None
         | Inr None \<Rightarrow> bind (upd resetRenewBackoff) (\<lambda>_.
             Ret (Some (GoPanic ''invalid memory address or nil pointer dereference'')))
         | Inr (Some info) \<Rightarrow> bind (upd (install_tgt info)) (\<lambda>_. bind (upd resetRenewBackoff) (\<lambda>_. Ret None)))))"

definition consider_peek_p ::
  "'w krb5_lib \<Rightarrow> string \<Rightarrow> krb5_principal \<Rightarrow> gotime \<Rightarrow> tgtInfo \<Rightarrow> ('w, goerror option) routine" where
  "consider_peek_p L src princ now peek =
     (if expired peek now then Ret None
      else bind (get (\<lambda>c. case tgt c of None \<Rightarrow> False | Some (_, t) \<Rightarrow> \<not> After (ti_endTime peek) (ti_endTime t)))
        (\<lambda>older. if older then Ret None else adopt_file_p L src princ now))"

definition read_source_p :: "'w krb5_lib \<Rightarrow> string \<Rightarrow> gotime \<Rightarrow> ('w, goerror option) routine" where
  "read_source_p L src now =
     bind (ask (krb5_cc_resolve L src)) (\<lambda>code.
       if code \<noteq> 0 then Ret None
       else bind (ask (krb5_cc_get_principal L src)) (\<lambda>r. case r of
         Inl code \<Rightarrow> Ret None
       | Inr princ \<Rightarrow> bind (ask (peekTGT L src)) (\<lambda>r. case r of
           Inl err \<Rightarrow> Ret None
         | Inr None \<Rightarrow> Ret None
         | Inr (Some peek) \<Rightarrow> consider_peek_p L src princ now peek)))"

definition loadNewerTGT_p :: "'w krb5_lib \<Rightarrow> gotime \<Rightarrow> ('w, goerror option) routine" where
  "loadNewerTGT_p L now =
     bind (get (\<lambda>c. Sub now (lastFileCheck c) < fileCheckInterval)) (\<lambda>recent.
       if recent then Ret None
       else bind (upd (\<lambda>c. c\<lparr>lastFileCheck := now\<rparr>)) (\<lambda>_.
         bind (step (\<lambda>(c, w). (owner_ok L c w, c, w))) (\<lambda>ok.
           if \<not> ok then Ret None
           else bind (get (\<lambda>c. FILE_name (srcPath c))) (\<lambda>src. read_source_p L src now))))"

section \<open>Eviction and maintenance\<close>

fun stale_wires_p :: "'w krb5_lib \<Rightarrow> gotime \<Rightarrow> krb5_creds list \<Rightarrow> ('w, byte list list) routine" where
  "stale_wires_p L now [] = Ret []"
| "stale_wires_p L now (cred # creds) =
     bind (get (\<lambda>c. stale L c now cred)) (\<lambda>evict.
     bind (stale_wires_p L now creds) (\<lambda>wires.
       Ret (if evict then (case marshalCreds L cred of Inl err \<Rightarrow> wires | Inr wire \<Rightarrow> wire # wires) else wires)))"

fun evict_p :: "'w krb5_lib \<Rightarrow> byte list list \<Rightarrow> ('w, unit) routine" where
  "evict_p L [] = Ret ()"
| "evict_p L (wire # wires) = bind (lib_step (removeCredExact L wire)) (\<lambda>_. evict_p L wires)"

definition sweep_p :: "'w krb5_lib \<Rightarrow> gotime \<Rightarrow> ('w, unit) routine" where
  "sweep_p L now =
     reading (bind (ask (krb5_cc_seq_get L workingCacheName)) (\<lambda>r. case r of
       Inl code \<Rightarrow> Ret ()
     | Inr (creds, _, _) \<Rightarrow> bind (stale_wires_p L now creds) (evict_p L)))"

text \<open>The section that may reload the file: a panic in it leaves the lock taken, and ends the process.\<close>

definition reload_p :: "'w krb5_lib \<Rightarrow> gotime \<Rightarrow> ('w, goerror + bool) routine" where
  "reload_p L now =
     Call Lock
       (bind (get (\<lambda>c. tgtNeedsAttention c now)) (\<lambda>needed.
        bind (if needed then loadNewerTGT_p L now else Ret None) (\<lambda>p. case p of
          Some panic \<Rightarrow> Ret (Inl panic)
        | None \<Rightarrow> bind (get (\<lambda>c. renewWanted c now)) (\<lambda>renew. Call Unlock (Ret (Inr renew))))))"

text \<open>A failed renewal is logged, with fields read under the lock.\<close>

definition renew_logged_p :: "'w krb5_lib \<Rightarrow> gotime \<Rightarrow> ('w, unit) routine" where
  "renew_logged_p L now =
     bind (renewTGT_p L now) (\<lambda>e. case e of
       None \<Rightarrow> Ret ()
     | Some err \<Rightarrow> if err = ErrRenewBusy then Ret () else reading (get (\<lambda>c. ())))"

definition maintain_p :: "'w krb5_lib \<Rightarrow> gotime \<Rightarrow> ('w, goerror option) routine" where
  "maintain_p L now =
     bind (reading (get (\<lambda>c. (reload_due c now, renewWanted c now)))) (\<lambda>(reload, renew).
     bind (if reload then reload_p L now else Ret (Inr renew)) (\<lambda>r. case r of
       Inl panic \<Rightarrow> Ret (Some panic)
     | Inr renew \<Rightarrow>
         bind (if renew then renew_logged_p L now else Ret ()) (\<lambda>_.
         bind (sweep_p L now) (\<lambda>_. Ret None))))"

definition maintained_p ::
  "'w krb5_lib \<Rightarrow> gotime \<Rightarrow> ('w, goerror + 'a) routine \<Rightarrow> ('w, goerror + 'a) routine" where
  "maintained_p L now p =
     bind (maintain_p L now) (\<lambda>e. case e of Some panic \<Rightarrow> Ret (Inl panic) | None \<Rightarrow> p)"

definition run_round_p :: "'w krb5_lib \<Rightarrow> gotime \<Rightarrow> ('w, goerror + gotime) routine" where
  "run_round_p L now =
     bind (bind (acquire_p L) (\<lambda>e. case e of
       Some err \<Rightarrow> Ret None
     | None \<Rightarrow> unless_fails (maintain_p L now) (bind release_p (\<lambda>_. Ret None)))) (\<lambda>e. case e of
       Some panic \<Rightarrow> Ret (Inl panic)
     | None \<Rightarrow> reading (get (\<lambda>c. Inr (nextWake c now))))"

section \<open>Reading operations\<close>

fun walk_p ::
  "'w krb5_lib \<Rightarrow> (client \<Rightarrow> 's visitor) \<Rightarrow> krb5_creds list \<Rightarrow> i32 \<Rightarrow> 's \<Rightarrow> ('w, goerror option \<times> 's) routine" where
  "walk_p L fn [] code s = Ret ((if code = CCEnd then None else Some (krbErr L code)), s)"
| "walk_p L fn (cred # creds) code s =
     (if krb5_is_config_principal L (cr_server cred) then walk_p L fn creds code s
      else
     (case marshalCreds L cred of
        Inl err \<Rightarrow> Ret (Some err, s)
      | Inr wire \<Rightarrow>
          bind (get (\<lambda>c. fn c cred wire (uuidOf wire) s)) (\<lambda>(stop, s).
            if stop then Ret (None, s) else walk_p L fn creds code s)))"

definition forEachEntry_p ::
  "'w krb5_lib \<Rightarrow> (client \<Rightarrow> 's visitor) \<Rightarrow> 's \<Rightarrow> ('w, goerror option \<times> 's) routine" where
  "forEachEntry_p L fn s =
     bind (ask (krb5_cc_seq_get L workingCacheName)) (\<lambda>r. case r of
       Inl code \<Rightarrow> Ret (Some (krbErr L code), s)
     | Inr (creds, code, endcode) \<Rightarrow>
         bind (walk_p L fn creds code s) (\<lambda>(e, s). case e of
           Some err \<Rightarrow> Ret (Some err, s)
         | None \<Rightarrow> Ret (newError L endcode, s)))"

text \<open>The result of a walk whose visitor may fail too: its error comes first.\<close>

definition walked :: "goerror option \<times> 'a \<times> goerror option \<Rightarrow> goerror + 'a" where
  "walked = (\<lambda>(err, x, redErr). case redErr of Some e \<Rightarrow> Inl e | None \<Rightarrow> (case err of Some e \<Rightarrow> Inl e | None \<Rightarrow> Inr x))"

definition DefaultPrincipal_p :: "'w krb5_lib \<Rightarrow> ('w, goerror + principal) routine" where
  "DefaultPrincipal_p L = with_context_p L (reading (ask (defaultPrincipal L)))"

definition ListEntries_p :: "'w krb5_lib \<Rightarrow> gotime \<Rightarrow> ('w, goerror + entry list) routine" where
  "ListEntries_p L now =
     with_context_p L (maintained_p L now
       (reading (bind (forEachEntry_p L (list_visitor L) ([], None)) (\<lambda>r. Ret (walked r)))))"

definition EntryByUUID_p :: "'w krb5_lib \<Rightarrow> gotime \<Rightarrow> uuid \<Rightarrow> ('w, goerror + entry option) routine" where
  "EntryByUUID_p L now uuid =
     with_context_p L (maintained_p L now
       (reading (bind (forEachEntry_p L (\<lambda>c. find_visitor L c uuid) (None, None)) (\<lambda>r. Ret (walked r)))))"

definition TGT_p :: "('w, tgt_status) routine" where
  "TGT_p = reading (get TGT)"

section \<open>Retrieval\<close>

definition getCredentials_p :: "'w krb5_lib \<Rightarrow> match_credential \<Rightarrow> ('w, goerror + byte list) routine" where
  "getCredentials_p L mc =
     or_fail (ask (buildMatchTemplate L mc)) (\<lambda>inCreds.
       if krb5_is_config_principal L (cr_server inCreds)
       then Ret (Inl (KrbError CCNotFound ''Matching credential not found''))
       else bind (lib_step (krb5_get_credentials L 0 workingCacheName inCreds)) (\<lambda>r. case r of
         Inl code \<Rightarrow> Ret (Inl (krbErr L code))
       | Inr outCreds \<Rightarrow> Ret (marshalCreds L outCreds)))"

text \<open>\<open>joined\<close>: the result of the flight this call joined, if it does not lead one.\<close>

definition retrieve_p ::
  "'w krb5_lib \<Rightarrow> gotime \<Rightarrow> match_credential \<Rightarrow> (goerror + byte list) option \<Rightarrow> ('w, goerror + byte list) routine" where
  "retrieve_p L now mc joined =
     bind (get (\<lambda>c. tgtError c now)) (\<lambda>e. case e of
       Some err \<Rightarrow> Ret (Inl err)
     | None \<Rightarrow> Call (Do (matchKey mc)) (case joined of Some r \<Rightarrow> Ret r | None \<Rightarrow> getCredentials_p L mc))"

definition Retrieve_p ::
  "'w krb5_lib \<Rightarrow> gotime \<Rightarrow> match_credential \<Rightarrow> (goerror + byte list) option \<Rightarrow> ('w, goerror + byte list) routine" where
  "Retrieve_p L now mc joined =
     (if HasServer mc \<and> isTGTServer (Server mc)
      then Ret (Inl (KrbError FCCPerm ''retrieval of the ticket-granting ticket is not permitted''))
      else with_context_p L (maintained_p L now (reading (retrieve_p L now mc joined))))"

section \<open>Updating operations\<close>

definition code_result :: "'w krb5_lib \<Rightarrow> 'a \<Rightarrow> i32 \<Rightarrow> goerror + 'a" where
  "code_result L x code = (case newError L code of Some err \<Rightarrow> Inl err | None \<Rightarrow> Inr x)"

definition remove_by_uuid_p :: "'w krb5_lib \<Rightarrow> uuid \<Rightarrow> ('w, goerror + bool) routine" where
  "remove_by_uuid_p L uuid =
     bind (forEachEntry_p L (\<lambda>c. wire_visitor uuid) None) (\<lambda>r. case r of
       (Some err, _) \<Rightarrow> Ret (Inl err)
     | (None, None) \<Rightarrow> Ret (Inr False)
     | (None, Some wire) \<Rightarrow>
         (case unmarshalCreds L wire of
            Inl err \<Rightarrow> Ret (Inl err)
          | Inr creds \<Rightarrow>
              bind (lib_step (krb5_cc_remove_cred L workingCacheName 0 creds)) (\<lambda>code. Ret (code_result L True code))))"

definition RemoveByUUID_p :: "'w krb5_lib \<Rightarrow> uuid \<Rightarrow> ('w, goerror + bool) routine" where
  "RemoveByUUID_p L uuid = with_context_p L (writing (remove_by_uuid_p L uuid))"

definition remove_matching_p :: "'w krb5_lib \<Rightarrow> match_credential \<Rightarrow> ('w, goerror + unit) routine" where
  "remove_matching_p L mc =
     or_fail (ask (buildMatchTemplate L mc)) (\<lambda>inCreds.
       bind (lib_step (krb5_cc_remove_cred L workingCacheName 0 inCreds)) (\<lambda>code. Ret (code_result L () code)))"

definition RemoveMatching_p :: "'w krb5_lib \<Rightarrow> match_credential \<Rightarrow> ('w, goerror + unit) routine" where
  "RemoveMatching_p L mc = with_context_p L (writing (remove_matching_p L mc))"

definition store_plain_p :: "'w krb5_lib \<Rightarrow> krb5_creds \<Rightarrow> ('w, goerror + unit) routine" where
  "store_plain_p L creds =
     bind (lib_step (krb5_cc_store_cred L workingCacheName creds)) (\<lambda>code. Ret (code_result L () code))"

definition adopt_stored_p :: "'w krb5_lib \<Rightarrow> krb5_creds \<Rightarrow> ('w, goerror + unit) routine" where
  "adopt_stored_p L creds =
     (case tgtInfoFrom L creds of
        Inl err \<Rightarrow> Ret (Inl err)
      | Inr info \<Rightarrow> bind (setTGT_p L info) (\<lambda>e. Ret (case e of Some err \<Rightarrow> Inl err | None \<Rightarrow> Inr ())))"

definition store_creds_p :: "'w krb5_lib \<Rightarrow> byte list \<Rightarrow> ('w, goerror + unit) routine" where
  "store_creds_p L credWire =
     (case unmarshalCreds L credWire of
        Inl err \<Rightarrow> Ret (Inl err)
      | Inr creds \<Rightarrow>
          if local_tgt creds
          then or_fail (ask (defaultPrincipal L)) (\<lambda>mine.
            if UnparseName mine = UnparseName (readPrincipal (cr_client creds)) then adopt_stored_p L creds
            else store_plain_p L creds)
          else store_plain_p L creds)"

definition Store_p :: "'w krb5_lib \<Rightarrow> byte list \<Rightarrow> ('w, goerror + unit) routine" where
  "Store_p L credWire = with_context_p L (writing (store_creds_p L credWire))"

definition initialize_cache_p :: "'w krb5_lib \<Rightarrow> principal \<Rightarrow> ('w, goerror + unit) routine" where
  "initialize_cache_p L p =
     (case buildPrincipal L p of
        Inl err \<Rightarrow> Ret (Inl err)
      | Inr princ \<Rightarrow>
          or_code L (lib_step (krb5_cc_initialize L workingCacheName (Some princ)))
            (bind (upd (\<lambda>c. c\<lparr>tgt := None\<rparr>)) (\<lambda>_. bind (upd resetRenewBackoff) (\<lambda>_. Ret (Inr ())))))"

definition Initialize_p :: "'w krb5_lib \<Rightarrow> principal \<Rightarrow> ('w, goerror + unit) routine" where
  "Initialize_p L p = with_context_p L (writing (initialize_cache_p L p))"

section \<open>Run alone, a program is the operation\<close>

lemma run_steps [simp]:
  "run_alone (lib_step f) (c, w) = (case f w of (r, w) \<Rightarrow> (r, c, w))"
  "run_alone (ask g) (c, w) = (g w, c, w)"
  "run_alone (fields_step h) (c, w) = (case h c of (r, c) \<Rightarrow> (r, c, w))"
  "run_alone (get k) (c, w) = (k c, c, w)"
  "run_alone (upd u) (c, w) = ((), u c, w)"
  by (simp_all add: lib_step_def ask_def fields_step_def get_def upd_def)

lemma run_shapes [simp]:
  "run_alone (reading p1) s = run_alone p1 s" "run_alone (writing p2) s = run_alone p2 s"
  "run_alone (or_fail p g) s = (case run_alone p s of (Inl err, s) \<Rightarrow> (Inl err, s) | (Inr x, s) \<Rightarrow> run_alone (g x) s)"
  "run_alone (unless_fails q r) s = (case run_alone q s of (Some err, s) \<Rightarrow> (Some err, s) | (None, s) \<Rightarrow> run_alone r s)"
  "run_alone (or_code L e t) s = (case run_alone e s of (code, s) \<Rightarrow> if code \<noteq> 0 then (Inl (krbErr L code), s) else run_alone t s)"
  by (simp_all add: reading_def writing_def or_fail_def unless_fails_def or_code_def split: prod.splits sum.splits option.splits)

named_theorems running \<open>what the programs compute\<close>

lemma run_newKctx [running]: "run_alone (newKctx_p L) (c, w) = (newKctx L w, c, w)"
  by (simp add: newKctx_p_def newKctx_def)

lemma run_acquire [running]:
  "run_alone (acquire_p L) (c, w) = (case acquire L c w of Inl err \<Rightarrow> (Some err, c, w) | Inr c \<Rightarrow> (None, c, w))"
  by (simp add: acquire_p_def acquire_def take_idle_def running split: option.splits)

lemma run_release [running]: "run_alone release_p (c, w) = ((), release c, w)"
  by (simp add: release_p_def)

lemma run_with_context [running]:
  "(\<And>c w. run_alone p (c, w) = f c w) \<Longrightarrow> run_alone (with_context_p L p) (c, w) = with_context L f c w"
  by (simp add: with_context_p_def with_context_def running split: sum.splits prod.splits)

lemma run_load_creds [running]:
  "run_alone (load_creds_p L now creds code found) (c, w) =
     (case load_creds L now creds code found w of (r, w) \<Rightarrow> (r, c, w))"
  by (induction creds arbitrary: found w) (simp_all split: prod.splits sum.splits)

lemma run_loadFrom [running]:
  "run_alone (loadFrom_p L src now) (c, w) = (case loadFrom L src now w of (r, w) \<Rightarrow> (r, c, w))"
  by (simp add: loadFrom_p_def loadFrom_def running split: prod.splits sum.splits option.splits)

lemma run_setTGT [running]: "run_alone (setTGT_p L info) (c, w) = setTGT L info c w"
  by (simp add: setTGT_p_def setTGT_def split: prod.splits sum.splits option.splits)

lemma run_renewExchange [running]:
  "run_alone (renewExchange_p L wire) (c, w) = (case renewExchange L wire w of (r, w) \<Rightarrow> (r, c, w))"
  by (simp add: renewExchange_p_def renew_scratch_p_def renewExchange_def Let_def split: prod.splits sum.splits)

lemma run_renew_finish [running]: "run_alone (renew_finish_p L started now res) (c, w) = renew_finish L started now res c w"
  by (simp add: renew_finish_p_def renew_finish_def renew_failed_p_def running Let_def split: prod.splits sum.splits option.splits)

lemma run_renewTGT [running]: "run_alone (renewTGT_p L now) (c, w) = renewTGT L now c w"
  by (simp add: renewTGT_p_def renewTGT_def running split: prod.splits sum.splits)

lemma run_adopt_file [running]: "run_alone (adopt_file_p L src princ now) (c, w) = adopt_file L src princ now c w"
  by (simp add: adopt_file_p_def adopt_file_def running Let_def split: prod.splits sum.splits option.splits)

lemma run_loadNewerTGT [running]: "run_alone (loadNewerTGT_p L now) (c, w) = loadNewerTGT L now c w"
  by (simp add: loadNewerTGT_p_def loadNewerTGT_def read_source_p_def consider_peek_p_def running Let_def
      split: prod.splits sum.splits option.splits)

lemma run_stale_wires [running]: "run_alone (stale_wires_p L now creds) (c, w) = (stale_wires L c now creds, c, w)"
  by (induction creds) (simp_all split: sum.splits)

lemma run_evict [running]:
  "run_alone (evict_p L wires) (c, w) = ((), c, fold (\<lambda>wire w. snd (removeCredExact L wire w)) wires w)"
  by (induction wires arbitrary: w) (simp_all split: prod.splits)

lemma run_sweep [running]: "run_alone (sweep_p L now) (c, w) = ((), c, sweep L now c w)"
  by (simp add: sweep_p_def sweep_def running split: sum.splits)

lemma run_reload [running]:
  "run_alone (reload_p L now) (c, w) =
     (case reload_section L now c w of
        (Some panic, c, w) \<Rightarrow> (Inl panic, c, w)
      | (None, c, w) \<Rightarrow> (Inr (renewWanted c now), c, w))"
  by (simp add: reload_p_def reload_section_def running split: prod.splits option.splits)

lemma run_renew_logged [running]:
  "run_alone (renew_logged_p L now) (c, w) = (case renewTGT L now c w of (err, c, w) \<Rightarrow> ((), c, w))"
  by (simp add: renew_logged_p_def running split: prod.splits option.splits)

lemma run_maintain [running]: "run_alone (maintain_p L now) (c, w) = maintain L now c w"
  by (simp add: maintain_p_def maintain_def running Let_def split: prod.splits option.splits)

lemma run_maintained [running]:
  "(\<And>c w. run_alone p (c, w) = f c w) \<Longrightarrow> run_alone (maintained_p L now p) (c, w) = maintained L now f c w"
  by (simp add: maintained_p_def maintained_def running split: prod.splits option.splits)

lemma run_walk [running]: "run_alone (walk_p L fn creds code s) (c, w) = (walk L (fn c) creds code s, c, w)"
  by (induction creds arbitrary: s) (simp_all split: prod.splits sum.splits)

lemma run_forEachEntry [running]: "run_alone (forEachEntry_p L fn s) (c, w) = (forEachEntry L (fn c) s w, c, w)"
  by (simp add: forEachEntry_p_def forEachEntry_def running split: prod.splits sum.splits option.splits)

lemma run_getCredentials [running]:
  "run_alone (getCredentials_p L mc) (c, w) = (case getCredentials L mc w of (r, w) \<Rightarrow> (r, c, w))"
  by (simp add: getCredentials_p_def getCredentials_def split: prod.splits sum.splits)

lemma run_remove_by_uuid [running]: "run_alone (remove_by_uuid_p L uuid) (c, w) = remove_by_uuid L uuid c w"
  by (simp add: remove_by_uuid_p_def remove_by_uuid_def code_result_def running split: prod.splits sum.splits option.splits)

lemma run_remove_matching [running]: "run_alone (remove_matching_p L mc) (c, w) = remove_matching L mc c w"
  by (simp add: remove_matching_p_def remove_matching_def code_result_def split: prod.splits sum.splits option.splits)

lemma run_retrieve [running]:
  "run_alone (retrieve_p L now mc None) (c, w) =
     (case tgtError c now of Some err \<Rightarrow> (Inl err, c, w) | None \<Rightarrow> (case getCredentials L mc w of (r, w) \<Rightarrow> (r, c, w)))"
  by (simp add: retrieve_p_def running split: option.splits)

lemma run_store_creds [running]: "run_alone (store_creds_p L wire) (c, w) = store_creds L wire c w"
  by (simp add: store_creds_p_def store_plain_p_def adopt_stored_p_def store_creds_def store_plain_def adopt_stored_def
      local_tgt_def code_result_def running Let_def split: prod.splits sum.splits option.splits)

lemma run_initialize_cache [running]: "run_alone (initialize_cache_p L p) (c, w) = initialize_cache L p c w"
  by (simp add: initialize_cache_p_def initialize_cache_def split: prod.splits sum.splits)

lemma run_reading_programs:
  "run_alone (DefaultPrincipal_p L) (c, w) = DefaultPrincipal L c w"
  "run_alone (ListEntries_p L now) (c, w) = ListEntries L now c w"
  "run_alone (EntryByUUID_p L now u) (c, w) = EntryByUUID L now u c w"
  "run_alone TGT_p (c, w) = (TGT c, c, w)"
  by (simp_all add: DefaultPrincipal_p_def DefaultPrincipal_def ListEntries_p_def ListEntries_def EntryByUUID_p_def
      EntryByUUID_def list_entries_def find_entry_def walked_def TGT_p_def running)

lemma run_updating_programs:
  "run_alone (RemoveByUUID_p L u) (c, w) = RemoveByUUID L u c w"
  "run_alone (RemoveMatching_p L mc) (c, w) = RemoveMatching L mc c w"
  "run_alone (Store_p L wire) (c, w) = Store L wire c w"
  "run_alone (Initialize_p L p) (c, w) = Initialize L p c w"
  by (simp_all add: RemoveByUUID_p_def RemoveByUUID_def RemoveMatching_p_def RemoveMatching_def Store_p_def Store_def
      Initialize_p_def Initialize_def running)

lemma run_Retrieve_program: "run_alone (Retrieve_p L now mc None) (c, w) = Retrieve L now mc c w"
  by (simp add: Retrieve_p_def Retrieve_def running)

lemma run_round_program: "run_alone (run_round_p L now) (c, w) = run_round L now c w"
  by (simp add: run_round_p_def run_round_def running split: prod.splits sum.splits option.splits)

end
