(* ===== verification/Requests.thy ===== *)
theory Requests
  imports Sections Describe
begin

text \<open>
  The operations a goroutine runs, as one program per request of the client, and what ties the programs to the other
  models: run alone they are the functional operations, and the synchronisation calls they make are the sequences
  of \<open>Locking\<close>.
\<close>

section \<open>Operations that only borrow a context\<close>

definition ErrorMessage_p :: "'w krb5_lib \<Rightarrow> i32 \<Rightarrow> ('w, string) routine" where
  "ErrorMessage_p L code =
     (if code = 0 then Ret ''OK''
      else bind (acquire_p L) (\<lambda>e. case e of
        Some err \<Rightarrow> Ret (''krb5 error '' @ fmt_int (sint code))
      | None \<Rightarrow> bind release_p (\<lambda>_. Ret (krb5_get_error_message L code))))"

definition SummarizeCredential_p :: "'w krb5_lib \<Rightarrow> byte list \<Rightarrow> ('w, goerror + credential_summary) routine" where
  "SummarizeCredential_p L wire =
     with_context_p L (Ret (case unmarshalCreds L wire of Inl err \<Rightarrow> Inl err | Inr creds \<Rightarrow> Inr (summary_of creds)))"

lemma run_describing_programs:
  "run_alone (ErrorMessage_p L code) (c, w) = ErrorMessage L code c w"
  "run_alone (SummarizeCredential_p L wire) (c, w) = SummarizeCredential L wire c w"
  by (simp_all add: ErrorMessage_p_def ErrorMessage_def SummarizeCredential_p_def SummarizeCredential_def running
      split: sum.splits)

section \<open>Requests\<close>

datatype op_request =
    Get_principal
  | List_all gotime
  | Get_entry gotime uuid
  | Remove_entry uuid
  | Remove_matches match_credential
  | Fetch gotime match_credential "(goerror + byte list) option"
  | Put_cred "byte list"
  | Reset principal
  | Explain i32
  | Summarize "byte list"
  | Held_TGT
  | Maintenance gotime

definition as_goroutine :: "('s, goerror + 'a) prog \<Rightarrow> ('s, bool) prog" where
  "as_goroutine p = bind p (\<lambda>r. Ret (case r of Inl err \<Rightarrow> is_panic err | Inr _ \<Rightarrow> False))"

fun op_prog :: "'w krb5_lib \<Rightarrow> op_request \<Rightarrow> ('w, bool) routine" where
  "op_prog L Get_principal = as_goroutine (DefaultPrincipal_p L)"
| "op_prog L (List_all now) = as_goroutine (ListEntries_p L now)"
| "op_prog L (Get_entry now u) = as_goroutine (EntryByUUID_p L now u)"
| "op_prog L (Remove_entry u) = as_goroutine (RemoveByUUID_p L u)"
| "op_prog L (Remove_matches mc) = as_goroutine (RemoveMatching_p L mc)"
| "op_prog L (Fetch now mc joined) = as_goroutine (Retrieve_p L now mc joined)"
| "op_prog L (Put_cred wire) = as_goroutine (Store_p L wire)"
| "op_prog L (Reset p) = as_goroutine (Initialize_p L p)"
| "op_prog L (Explain code) = bind (ErrorMessage_p L code) (\<lambda>_. Ret False)"
| "op_prog L (Summarize wire) = as_goroutine (SummarizeCredential_p L wire)"
| "op_prog L Held_TGT = bind TGT_p (\<lambda>_. Ret False)"
| "op_prog L (Maintenance now) = as_goroutine (run_round_p L now)"

section \<open>Synchronisation calls\<close>

text \<open>Programs that make none.\<close>

definition quiet :: "('s, 'a) prog \<Rightarrow> bool" where
  "quiet p \<longleftrightarrow> (\<forall>as x. calls p as x \<longrightarrow> as = [])"

named_theorems quieting \<open>programs without synchronisation calls\<close>

lemma quietD: "quiet p \<Longrightarrow> calls p as x \<Longrightarrow> as = []"
  unfolding quiet_def by blast

lemma quiet_steps [quieting]:
  "quiet (Ret x)" "quiet (lib_step f)" "quiet (ask g)" "quiet (fields_step h)" "quiet (get k)" "quiet (upd u)" "quiet (step i)"
  by (simp_all add: quiet_def lib_step_def ask_def fields_step_def get_def upd_def)

lemma quiet_bind [quieting]: "quiet p \<Longrightarrow> (\<And>x. quiet (g x)) \<Longrightarrow> quiet (bind p g)"
  by (auto simp: quiet_def calls_bind)

lemma quiet_case [quieting]:
  "(\<And>e. x = Inl e \<Longrightarrow> quiet (p e)) \<Longrightarrow> (\<And>y. x = Inr y \<Longrightarrow> quiet (q y)) \<Longrightarrow> quiet (case x of Inl e \<Rightarrow> p e | Inr y \<Rightarrow> q y)"
  "(o' = None \<Longrightarrow> quiet r) \<Longrightarrow> (\<And>y. o' = Some y \<Longrightarrow> quiet (s y)) \<Longrightarrow> quiet (case o' of None \<Rightarrow> r | Some y \<Rightarrow> s y)"
  "(\<And>a b. z = (a, b) \<Longrightarrow> quiet (t a b)) \<Longrightarrow> quiet (case z of (a, b) \<Rightarrow> t a b)"
  "(c \<Longrightarrow> quiet u) \<Longrightarrow> (\<not> c \<Longrightarrow> quiet v) \<Longrightarrow> quiet (if c then u else v)"
  by (simp_all split: sum.splits option.splits prod.splits)

lemma quiet_shapes [quieting]:
  "quiet p \<Longrightarrow> (\<And>x. quiet (g x)) \<Longrightarrow> quiet (or_fail p g)"
  "quiet q \<Longrightarrow> quiet r \<Longrightarrow> quiet (unless_fails q r)"
  "quiet e \<Longrightarrow> quiet t \<Longrightarrow> quiet (or_code L e t)"
  unfolding or_fail_def unless_fails_def or_code_def by (intro quieting; simp)+

lemma quiet_load_creds [quieting]: "quiet (load_creds_p L now creds code found)"
  by (induction creds arbitrary: found) (simp_all add: quieting)

lemma quiet_loadFrom [quieting]: "quiet (loadFrom_p L src now)"
  unfolding loadFrom_p_def by (intro quieting)

lemma quiet_setTGT [quieting]: "quiet (setTGT_p L info)"
  unfolding setTGT_p_def by (intro quieting)

lemma quiet_renewExchange [quieting]: "quiet (renewExchange_p L wire)"
  unfolding renewExchange_p_def renew_scratch_p_def by (intro quieting)

lemma quiet_renew_finish [quieting]: "quiet (renew_finish_p L started now res)"
  unfolding renew_finish_p_def renew_failed_p_def by (intro quieting)

lemma quiet_loadNewerTGT [quieting]: "quiet (loadNewerTGT_p L now)"
  unfolding loadNewerTGT_p_def read_source_p_def consider_peek_p_def adopt_file_p_def by (intro quieting)

lemma quiet_stale_wires [quieting]: "quiet (stale_wires_p L now creds)"
  by (induction creds) (simp_all add: quieting)

lemma quiet_evict [quieting]: "quiet (evict_p L wires)"
  by (induction wires) (simp_all add: quieting)

lemma quiet_walk [quieting]: "quiet (walk_p L fn creds code s)"
  by (induction creds arbitrary: s) (auto intro!: quieting)

lemma quiet_forEachEntry [quieting]: "quiet (forEachEntry_p L fn s)"
  unfolding forEachEntry_p_def by (intro quieting)

lemma quiet_getCredentials [quieting]: "quiet (getCredentials_p L mc)"
  unfolding getCredentials_p_def by (intro quieting)

lemma quiet_updates [quieting]:
  "quiet (remove_by_uuid_p L u)" "quiet (remove_matching_p L mc)" "quiet (store_creds_p L wire)"
  "quiet (initialize_cache_p L p)" "quiet (newKctx_p L)"
  unfolding remove_by_uuid_p_def remove_matching_p_def store_creds_p_def store_plain_p_def adopt_stored_p_def
    initialize_cache_p_def newKctx_p_def
  by (intro quieting)+

text \<open>What a program may return.\<close>

definition yields :: "('a \<Rightarrow> bool) \<Rightarrow> ('s, 'a) prog \<Rightarrow> bool" where
  "yields P p \<longleftrightarrow> (\<forall>as x. calls p as x \<longrightarrow> P x)"

named_theorems yielding \<open>what programs return\<close>

lemma yieldsD: "yields P p \<Longrightarrow> calls p as x \<Longrightarrow> P x"
  unfolding yields_def by blast

lemma yields_Ret [yielding]: "P x \<Longrightarrow> yields P (Ret x)"
  by (simp add: yields_def)

lemma yields_bind [yielding]: "(\<And>x. yields P (g x)) \<Longrightarrow> yields P (bind p g)"
  unfolding yields_def calls_bind by blast

lemma yields_case [yielding]:
  "(\<And>e. yields P (p1 e)) \<Longrightarrow> (\<And>y. yields P (p2 y)) \<Longrightarrow> yields P (case x of Inl e \<Rightarrow> p1 e | Inr y \<Rightarrow> p2 y)"
  "yields P q1 \<Longrightarrow> (\<And>y. yields P (q2 y)) \<Longrightarrow> yields P (case z of None \<Rightarrow> q1 | Some y \<Rightarrow> q2 y)"
  "yields P r1 \<Longrightarrow> yields P r2 \<Longrightarrow> yields P (if c then r1 else r2)"
  by (simp_all split: sum.splits option.splits)

text \<open>The calls around a quiet program.\<close>

lemma calls_quiet_bind:
  "quiet p \<Longrightarrow> calls (bind p g) as y \<Longrightarrow> \<exists>x. calls p [] x \<and> calls (g x) as y"
  unfolding calls_bind by (metis append_Nil quietD)

lemma calls_bindE:
  assumes "calls (bind p g) as y"
  obtains as1 as2 x where "as = as1 @ as2" "calls p as1 x" "calls (g x) as2 y"
  using assms unfolding calls_bind by blast

lemma calls_quiet_bindE:
  assumes "calls (bind p g) as y" "quiet p"
  obtains x where "calls p [] x" "calls (g x) as y"
  using calls_quiet_bind [OF assms(2,1)] by blast

lemma calls_reading: "quiet p \<Longrightarrow> calls (reading p) as x \<Longrightarrow> as = [RLock, RUnlock] \<and> calls p [] x"
  unfolding reading_def by (auto dest: calls_quiet_bind)

lemma calls_writing: "quiet p \<Longrightarrow> calls (writing p) as x \<Longrightarrow> as = [Lock, Unlock] \<and> calls p [] x"
  unfolding writing_def by (auto dest: calls_quiet_bind)

lemma calls_acquire:
  assumes "calls (acquire_p L) as e"
  shows "(case e of None \<Rightarrow> as = [Slot] | Some err \<Rightarrow> as = [Slot, Unslot])"
proof -
  obtain bs where bs: "as = Slot # bs" "calls (bind (fields_step take_idle) (\<lambda>got. if got then Ret None
       else bind (newKctx_p L) (\<lambda>e. case e of Some err \<Rightarrow> Call Unslot (Ret (Some err)) | None \<Rightarrow> Ret None))) bs e"
    using assms by (auto simp: acquire_p_def)
  have q: "quiet (fields_step take_idle :: ('a, bool) routine)" "quiet (newKctx_p L)" by (intro quieting)+
  from calls_quiet_bind [OF q(1) bs(2)] show ?thesis
    using bs(1) by (auto split: if_splits option.splits dest!: calls_quiet_bind [OF q(2)])
qed

lemma calls_release: "calls release_p as x \<Longrightarrow> as = [Unslot]"
  unfolding release_p_def by (auto dest!: calls_quiet_bind [rotated] intro: quieting)

lemma calls_with_context:
  assumes "calls (with_context_p L p) as r"
  shows "(as = [Slot, Unslot] \<and> (\<exists>err. r = Inl err)) \<or> (\<exists>bs. as = [Slot] @ bs @ [Unslot] \<and> calls p bs r)"
proof -
  obtain as1 as2 e where e: "as = as1 @ as2" "calls (acquire_p L) as1 e"
    "calls (case e of Some err \<Rightarrow> Ret (Inl err) | None \<Rightarrow> bind p (\<lambda>r. bind release_p (\<lambda>_. Ret r))) as2 r"
    using assms unfolding with_context_p_def calls_bind by blast
  show ?thesis
  proof (cases e)
    case None
    then have "calls (bind p (\<lambda>r. bind release_p (\<lambda>_. Ret r))) as2 r" using e(3) by simp
    then obtain bs where "as2 = bs @ [Unslot]" "calls p bs r"
      by (auto simp: calls_bind dest!: calls_release)
    then show ?thesis using e(1) calls_acquire [OF e(2)] None by simp
  next
    case (Some err)
    then show ?thesis using e(1,3) calls_acquire [OF e(2)] by simp
  qed
qed

section \<open>The calls of maintenance\<close>

lemma calls_renew_logged:
  fixes L :: "'w krb5_lib"
  assumes "calls (renew_logged_p L now) as u"
  shows "\<exists>renew. as = renew_sync renew"
proof -
  obtain as1 as2 e where e: "as = as1 @ as2" "calls (renewTGT_p L now) as1 e"
    "calls (case e of None \<Rightarrow> Ret () | Some err \<Rightarrow>
       if err = ErrRenewBusy then Ret () else reading (get (\<lambda>c. ()) :: ('w, unit) routine)) as2 u"
    using assms unfolding renew_logged_p_def by (rule calls_bindE)
  have log: "as2 = [] \<or> as2 = [RLock, RUnlock]"
    using e(3) by (auto split: option.splits if_splits dest!: calls_reading [rotated] intro: quieting)
  obtain bs cs r where r: "as1 = bs @ cs" "calls (writing (fields_step renew_start :: ('w, goerror + nat \<times> tgtInfo) routine)) bs r"
    "calls (case r of Inl err \<Rightarrow> Ret (Some err) | Inr started \<Rightarrow>
       bind (renewExchange_p L (ti_wire (snd started))) (\<lambda>res. writing (renew_finish_p L started now res))) cs e"
    using e(2) unfolding renewTGT_p_def by (rule calls_bindE)
  have "bs = [Lock, Unlock]" using calls_writing [OF quiet_steps(4) r(2)] by simp
  moreover have "cs = [] \<or> cs = [Lock, Unlock]"
  proof (cases r)
    case (Inr started)
    then have "calls (bind (renewExchange_p L (ti_wire (snd started))) (\<lambda>res. writing (renew_finish_p L started now res))) cs e"
      using r(3) by simp
    then obtain res where "calls (writing (renew_finish_p L started now res)) cs e"
      using quiet_renewExchange by (rule calls_quiet_bindE)
    from calls_writing [OF quiet_renew_finish this] show ?thesis by simp
  qed (use r(3) in simp)
  ultimately have "as1 = [Lock, Unlock] \<or> as1 = [Lock, Unlock] @ [Lock, Unlock]" using r(1) by auto
  with log have "as \<in> {renew_sync Busy, renew_sync No_TGT, renew_sync (Exchanged False), renew_sync (Exchanged True)}"
    using e(1) by auto
  then show ?thesis by blast
qed

lemma yields_panic: "yields (\<lambda>e. \<forall>p. e = Some p \<longrightarrow> is_panic p) (loadNewerTGT_p L now)"
  unfolding loadNewerTGT_p_def read_source_p_def consider_peek_p_def adopt_file_p_def by (intro yielding) simp_all

lemma calls_reload:
  fixes L :: "'w krb5_lib"
  assumes "calls (reload_p L now) as r"
  shows "case r of Inl panic \<Rightarrow> is_panic panic | Inr renew \<Rightarrow> as = [Lock, Unlock]"
proof -
  obtain bs needed p cs where p: "as = Lock # bs"
    "calls (if needed then loadNewerTGT_p L now else Ret None) [] p"
    "calls (case p of Some panic \<Rightarrow> Ret (Inl panic) | None \<Rightarrow>
       bind (get (\<lambda>c. renewWanted c now) :: ('w, bool) routine) (\<lambda>renew. Call Unlock (Ret (Inr renew)))) bs r"
  proof -
    obtain bs where bs: "as = Lock # bs" "calls (bind (get (\<lambda>c. tgtNeedsAttention c now) :: ('w, bool) routine) (\<lambda>needed.
        bind (if needed then loadNewerTGT_p L now else Ret None) (\<lambda>p. case p of
          Some panic \<Rightarrow> Ret (Inl panic)
        | None \<Rightarrow> bind (get (\<lambda>c. renewWanted c now) :: ('w, bool) routine) (\<lambda>renew. Call Unlock (Ret (Inr renew)))))) bs r"
      using assms by (auto simp: reload_p_def)
    from bs(2) quiet_steps(5) obtain needed where "calls (bind (if needed then loadNewerTGT_p L now else Ret None) (\<lambda>p. case p of
          Some panic \<Rightarrow> Ret (Inl panic)
        | None \<Rightarrow> bind (get (\<lambda>c. renewWanted c now) :: ('w, bool) routine) (\<lambda>renew. Call Unlock (Ret (Inr renew))))) bs r"
      by (rule calls_quiet_bindE)
    moreover have "quiet (if needed then loadNewerTGT_p L now else Ret None)" by (intro quieting)
    ultimately show thesis by (rule calls_quiet_bindE) (rule that [OF bs(1)])
  qed
  show ?thesis
  proof (cases p)
    case None
    then have "calls (bind (get (\<lambda>c. renewWanted c now) :: ('w, bool) routine) (\<lambda>renew. Call Unlock (Ret (Inr renew)))) bs r" using p(3) by simp
    from this quiet_steps(5) obtain renew where "calls (Call Unlock (Ret (Inr renew)) :: ('w, goerror + bool) routine) bs r" by (rule calls_quiet_bindE)
    with p(1) show ?thesis by auto
  next
    case (Some panic)
    have "calls (loadNewerTGT_p L now) [] (Some panic)" using p(2) Some by (simp split: if_splits)
    from yieldsD [OF yields_panic this] have "is_panic panic" by simp
    with p(3) Some show ?thesis by simp
  qed
qed

lemma calls_sweep: "calls (sweep_p L now) as x \<Longrightarrow> as = [RLock, RUnlock]"
proof -
  have "quiet (bind (ask (krb5_cc_seq_get L workingCacheName)) (\<lambda>r. case r of
       Inl code \<Rightarrow> Ret () | Inr (creds, _, _) \<Rightarrow> bind (stale_wires_p L now creds) (evict_p L)))"
    by (intro quieting)
  from calls_reading [OF this] show "calls (sweep_p L now) as x \<Longrightarrow> as = [RLock, RUnlock]"
    unfolding sweep_p_def by blast
qed

lemma calls_maintain:
  fixes L :: "'w krb5_lib"
  assumes "calls (maintain_p L now) as e"
  shows "case e of Some panic \<Rightarrow> is_panic panic | None \<Rightarrow> \<exists>reload renew. as = maintain_sync reload renew"
proof -
  have m: "maintain_p L now = bind (reading (get (\<lambda>c. (reload_due c now, renewWanted c now)))) (\<lambda>x.
      bind (if fst x then reload_p L now else Ret (Inr (snd x))) (\<lambda>r. case r of
        Inl panic \<Rightarrow> Ret (Some panic)
      | Inr renew \<Rightarrow> bind (if renew then renew_logged_p L now else Ret ()) (\<lambda>_. bind (sweep_p L now) (\<lambda>_. Ret None))))"
    by (simp add: maintain_p_def split_def)
  obtain as1 as2 x where x: "as = as1 @ as2"
    "calls (reading (get (\<lambda>c. (reload_due c now, renewWanted c now)) :: ('w, bool \<times> bool) routine)) as1 x"
    "calls (bind (if fst x then reload_p L now else Ret (Inr (snd x))) (\<lambda>r. case r of
        Inl panic \<Rightarrow> Ret (Some panic)
      | Inr renew \<Rightarrow> bind (if renew then renew_logged_p L now else Ret ()) (\<lambda>_. bind (sweep_p L now) (\<lambda>_. Ret None)))) as2 e"
    using assms unfolding m by (rule calls_bindE)
  have as1: "as1 = [RLock, RUnlock]" using calls_reading [OF quiet_steps(5) x(2)] by simp
  obtain bs cs r where r: "as2 = bs @ cs" "calls (if fst x then reload_p L now else Ret (Inr (snd x))) bs r"
    "calls (case r of
        Inl panic \<Rightarrow> Ret (Some panic)
      | Inr renew \<Rightarrow> bind (if renew then renew_logged_p L now else Ret ()) (\<lambda>_. bind (sweep_p L now) (\<lambda>_. Ret None))) cs e"
    using x(3) by (rule calls_bindE)
  show ?thesis
  proof (cases r)
    case (Inl panic)
    then show ?thesis using r(2,3) calls_reload [of L now bs r] by (auto split: if_splits)
  next
    case (Inr renew)
    have bs: "bs = (if fst x then [Lock, Unlock] else [])"
      using r(2) Inr calls_reload [of L now bs r] by (auto split: if_splits)
    have "calls (bind (if renew then renew_logged_p L now else Ret ()) (\<lambda>_. bind (sweep_p L now) (\<lambda>_. Ret None))) cs e"
      using r(3) Inr by simp
    then obtain ds es u where d: "cs = ds @ es" "calls (if renew then renew_logged_p L now else Ret ()) ds u"
      "calls (bind (sweep_p L now) (\<lambda>_. Ret None)) es e"
      by (rule calls_bindE)
    have "\<exists>path. ds = renew_sync path"
      using d(2) calls_renew_logged [of L now ds u] by (cases renew) (auto intro: exI [of _ Not_due])
    moreover have "es = [RLock, RUnlock] \<and> e = None"
      using d(3) by (auto elim!: calls_bindE dest!: calls_sweep)
    ultimately show ?thesis using x(1) as1 r(1) bs d(1) unfolding maintain_sync_def by auto
  qed
qed

section \<open>The calls of a request\<close>

lemma calls_maintained:
  assumes "calls (maintained_p L now p) as r" "\<And>e. r = Inl e \<Longrightarrow> \<not> is_panic e"
  shows "\<exists>reload renew bs. as = maintain_sync reload renew @ bs \<and> calls p bs r"
proof -
  obtain as1 as2 e where e: "as = as1 @ as2" "calls (maintain_p L now) as1 e"
    "calls (case e of Some panic \<Rightarrow> Ret (Inl panic) | None \<Rightarrow> p) as2 r"
    using assms(1) unfolding maintained_p_def by (rule calls_bindE)
  from calls_maintain [OF e(2)] e(1,3) assms(2) show ?thesis by (cases e) auto
qed

lemma calls_as_goroutine:
  fixes p :: "('s, goerror + 'a) prog"
  assumes "calls (as_goroutine p) as False"
  shows "\<exists>r. calls p as r \<and> (\<forall>e. r = Inl e \<longrightarrow> \<not> is_panic e)"
proof -
  obtain as1 as2 r where "as = as1 @ as2" "calls p as1 r"
    "calls (Ret (case r of Inl err \<Rightarrow> is_panic err | Inr _ \<Rightarrow> False) :: ('s, bool) prog) as2 False"
    using assms unfolding as_goroutine_def by (rule calls_bindE)
  then show ?thesis by (cases r) auto
qed

lemma calls_with_context_reading:
  assumes "calls (with_context_p L (reading p)) as r" "quiet p"
  shows "as \<in> {op_sync No_context, op_sync Reading}"
  using calls_with_context [OF assms(1)] calls_reading [OF assms(2)] by auto

lemma calls_with_context_writing:
  assumes "calls (with_context_p L (writing p)) as r" "quiet p"
  shows "as \<in> {op_sync No_context, op_sync Updating}"
  using calls_with_context [OF assms(1)] calls_writing [OF assms(2)] by auto

lemma calls_listing:
  assumes "calls (with_context_p L (maintained_p L now p)) as r" "\<And>e. r = Inl e \<Longrightarrow> \<not> is_panic e"
    and "\<And>bs. calls p bs r \<Longrightarrow> bs = [RLock, RUnlock] \<or> bs = [RLock, Do key, RUnlock]"
  shows "\<exists>path. as = op_sync path"
  using calls_with_context [OF assms(1)]
proof
  assume "as = [Slot, Unslot] \<and> (\<exists>err. r = Inl err)"
  then show ?thesis using op_sync.simps(1) by metis
next
  assume "\<exists>bs. as = [Slot] @ bs @ [Unslot] \<and> calls (maintained_p L now p) bs r"
  then obtain bs where bs: "as = [Slot] @ bs @ [Unslot]" "calls (maintained_p L now p) bs r" by blast
  obtain reload renew cs where cs: "bs = maintain_sync reload renew @ cs" "calls p cs r"
    using calls_maintained [OF bs(2) assms(2)] by blast
  from assms(3) [OF cs(2)] bs(1) cs(1)
  have "as = op_sync (Listing reload renew) \<or> as = op_sync (Retrieving reload renew key)" by auto
  then show ?thesis by blast
qed

lemma calls_Retrieve:
  assumes "calls (Retrieve_p L now mc joined) as r" "\<And>e. r = Inl e \<Longrightarrow> \<not> is_panic e"
  shows "as = [] \<or> (\<exists>path. as = op_sync path)"
proof (cases "HasServer mc \<and> isTGTServer (Server mc)")
  case False
  then have c: "calls (with_context_p L (maintained_p L now (reading (retrieve_p L now mc joined)))) as r"
    using assms(1) by (simp only: Retrieve_p_def if_False)
  have "bs = [RLock, RUnlock] \<or> bs = [RLock, Do (matchKey mc), RUnlock]"
    if "calls (reading (retrieve_p L now mc joined)) bs r" for bs
  proof -
    from that obtain cs where cs: "bs = RLock # cs @ [RUnlock]" "calls (retrieve_p L now mc joined) cs r"
      by (auto simp: reading_def elim!: calls_bindE)
    from cs(2) have "cs = [] \<or> cs = [Do (matchKey mc)]"
      unfolding retrieve_p_def
      by (rule calls_quiet_bindE [OF _ quiet_steps(5)]) (auto split: option.splits dest: quietD [OF quiet_getCredentials])
    then show ?thesis using cs(1) by auto
  qed
  from calls_listing [OF c assms(2) this] show ?thesis by simp
qed (use assms(1) in \<open>simp add: Retrieve_p_def\<close>)

lemma calls_round:
  fixes L :: "'w krb5_lib"
  assumes "calls (run_round_p L now) as r" "\<And>e. r = Inl e \<Longrightarrow> \<not> is_panic e"
  shows "\<exists>path. as = op_sync path"
proof -
  let ?m = "unless_fails (maintain_p L now) (bind release_p (\<lambda>_. Ret None))"
  obtain as1 as2 e where e: "as = as1 @ as2"
    "calls (bind (acquire_p L) (\<lambda>e. case e of Some err \<Rightarrow> Ret None | None \<Rightarrow> ?m)) as1 e"
    "calls (case e of Some panic \<Rightarrow> Ret (Inl panic) | None \<Rightarrow> reading (get (\<lambda>c. Inr (nextWake c now)) :: ('w, goerror + gotime) routine)) as2 r"
    using assms(1) unfolding run_round_p_def by (rule calls_bindE)
  obtain bs cs a where a: "as1 = bs @ cs" "calls (acquire_p L) bs a"
    "calls (case a of Some err \<Rightarrow> Ret None | None \<Rightarrow> ?m) cs e"
    using e(2) by (rule calls_bindE)
  have m: "case e' of Some panic \<Rightarrow> is_panic panic | None \<Rightarrow> \<exists>reload renew. ds = maintain_sync reload renew @ [Unslot]"
    if "calls ?m ds e'" for ds e'
    using that unfolding unless_fails_def
    by (auto elim!: calls_bindE dest!: calls_maintain calls_release split: option.splits) blast
  show ?thesis
  proof (cases e)
    case None
    then have "calls (reading (get (\<lambda>c. Inr (nextWake c now)) :: ('w, goerror + gotime) routine)) as2 r" using e(3) by simp
    from calls_reading [OF quiet_steps(5) this] have as2: "as2 = [RLock, RUnlock]" by simp
    show ?thesis
    proof (cases a)
      case None
      then obtain reload renew where "cs = maintain_sync reload renew @ [Unslot]"
        using m a(3) \<open>e = None\<close> by fastforce
      then have "as = op_sync (Round reload renew)" using e(1) a(1) as2 calls_acquire [OF a(2)] None by simp
      then show ?thesis by blast
    next
      case (Some err)
      then have "as = op_sync Round_skipped" using e(1) a as2 calls_acquire [OF a(2)] by simp
      then show ?thesis by blast
    qed
  next
    case (Some panic)
    then have "r = Inl panic" using e(3) by simp
    moreover have "is_panic panic" using a(3) m Some by (cases a) fastforce+
    ultimately show ?thesis using assms(2) by blast
  qed
qed

lemma calls_ErrorMessage:
  assumes "calls (ErrorMessage_p L code) as x"
  shows "as = [] \<or> as = op_sync Describing"
  using assms
  by (auto simp: ErrorMessage_p_def split: if_splits option.splits elim!: calls_bindE dest!: calls_acquire calls_release)

lemma calls_TGT: "calls TGT_p as x \<Longrightarrow> as = op_sync Status"
  unfolding TGT_p_def by (auto dest!: calls_reading [OF quiet_steps(5)])

text \<open>An operation that does not panic makes the calls of one of its paths in \<open>Locking\<close>, or none.\<close>

lemma calls_op_prog:
  assumes "calls (op_prog L req) as False"
  shows "as = [] \<or> (\<exists>path. as = op_sync path)"
proof (cases req)
  case Get_principal
  then show ?thesis
    using assms by (auto simp: DefaultPrincipal_p_def dest!: calls_as_goroutine calls_with_context_reading [OF _ quiet_steps(3)])
next
  case (List_all now)
  then obtain r where r: "calls (ListEntries_p L now) as r" "\<And>e. r = Inl e \<Longrightarrow> \<not> is_panic e"
    using assms calls_as_goroutine by fastforce
  have "quiet (bind (forEachEntry_p L (list_visitor L) ([], None)) (\<lambda>r. Ret (walked r)))" by (intro quieting)
  from calls_listing [OF r(1) [unfolded ListEntries_p_def] r(2)] calls_reading [OF this] show ?thesis by metis
next
  case (Get_entry now u)
  then obtain r where r: "calls (EntryByUUID_p L now u) as r" "\<And>e. r = Inl e \<Longrightarrow> \<not> is_panic e"
    using assms calls_as_goroutine by fastforce
  have "quiet (bind (forEachEntry_p L (\<lambda>c. find_visitor L c u) (None, None)) (\<lambda>r. Ret (walked r)))" by (intro quieting)
  from calls_listing [OF r(1) [unfolded EntryByUUID_p_def] r(2)] calls_reading [OF this] show ?thesis by metis
next
  case (Fetch now mc joined)
  then obtain r where "calls (Retrieve_p L now mc joined) as r" "\<And>e. r = Inl e \<Longrightarrow> \<not> is_panic e"
    using assms calls_as_goroutine by fastforce
  then show ?thesis by (rule calls_Retrieve)
next
  case (Maintenance now)
  then obtain r where "calls (run_round_p L now) as r" "\<And>e. r = Inl e \<Longrightarrow> \<not> is_panic e"
    using assms calls_as_goroutine by fastforce
  then show ?thesis using calls_round by blast
next
  case (Explain code)
  then have "as = [] \<or> as = op_sync Describing" using assms by (auto elim!: calls_bindE dest!: calls_ErrorMessage)
  then show ?thesis by blast
next
  case (Summarize wire)
  then have "as = [Slot, Unslot]"
    using assms by (auto simp: SummarizeCredential_p_def dest!: calls_as_goroutine calls_with_context)
  then show ?thesis using op_sync.simps(1) by metis
next
  case Held_TGT
  then have "as = op_sync Status" using assms by (auto elim!: calls_bindE dest!: calls_TGT)
  then show ?thesis by blast
qed (use assms in \<open>auto simp: RemoveByUUID_p_def RemoveMatching_p_def Store_p_def Initialize_p_def
    dest!: calls_as_goroutine calls_with_context_writing [OF _ quiet_updates(1)] calls_with_context_writing [OF _ quiet_updates(2)]
      calls_with_context_writing [OF _ quiet_updates(3)] calls_with_context_writing [OF _ quiet_updates(4)]\<close>)


end
