(* ===== verification/Settled.thy ===== *)
theory Settled
  imports Requests
begin

text \<open>
  What concurrent requests may rely on: between two write sections the held TGT is in the working cache, and no TGT
  of its owner is in it with the renewable flag. Every program of \<open>Sections\<close> keeps the contract of the lock for
  this (\<open>wp\<close> of \<open>Threads\<close>), which is proved by rules for what happens under the write lock (\<open>writes\<close>), under the
  read lock (\<open>reads\<close>) and without a lock (\<open>unlocked\<close>), and so it holds in every state that any interleaving of the
  steps of any number of requests reaches.
\<close>

section \<open>Rules\<close>

context critical_sections
begin

definition stable :: "('s \<Rightarrow> bool) \<Rightarrow> bool" where
  "stable P \<longleftrightarrow> (\<forall>s s'. P s \<longrightarrow> rest s s' \<longrightarrow> P s')"

text \<open>Under the write lock: from \<open>P\<close> to \<open>Q\<close>, with only changes outside between the steps.\<close>

definition writes :: "('s \<Rightarrow> bool) \<Rightarrow> ('s, 'a) prog \<Rightarrow> ('a \<Rightarrow> 's \<Rightarrow> bool) \<Rightarrow> bool" where
  "writes P p Q \<longleftrightarrow> (\<forall>s. P s \<longrightarrow> wp p (\<lambda>x h s. h = hold.Write \<and> Q x s) hold.Write s)"

text \<open>Under the read lock: what is settled stays so, and \<open>P\<close> and \<open>Q\<close> are about the fields.\<close>

definition reads :: "('v \<Rightarrow> bool) \<Rightarrow> ('s, 'a) prog \<Rightarrow> ('a \<Rightarrow> 'v \<Rightarrow> bool) \<Rightarrow> bool" where
  "reads P p Q \<longleftrightarrow> (\<forall>s. settled s \<longrightarrow> P (fields s) \<longrightarrow> wp p (\<lambda>x h s. h = hold.Read \<and> settled s \<and> Q x (fields s)) hold.Read s)"

text \<open>Without a lock, which may be taken and is given back unless the result is \<open>bad\<close>: \<open>Q\<close> is about the result.\<close>

definition unlocked :: "('a \<Rightarrow> bool) \<Rightarrow> ('s, 'a) prog \<Rightarrow> ('a \<Rightarrow> bool) \<Rightarrow> bool" where
  "unlocked bad p Q \<longleftrightarrow> (\<forall>s. wp p (\<lambda>x h s. (h = Free \<or> bad x) \<and> Q x) Free s)"

abbreviation no :: "'a \<Rightarrow> bool" where
  "no \<equiv> \<lambda>_. False"

lemma rest_grants: "rest s s' \<Longrightarrow> grants h s s'"
  by (cases h) (auto intro: rest_settled rest_fields rest_always)

lemma writes_Ret: "(\<And>s. P s \<Longrightarrow> Q x s) \<Longrightarrow> writes P (Ret x) Q"
  by (simp add: writes_def)

lemma writes_step:
  assumes "stable P" "\<And>s x s'. P s \<Longrightarrow> f s = (x, s') \<Longrightarrow> (always s \<longrightarrow> always s') \<and> Q x s'"
  shows "writes P (step f) Q"
  unfolding writes_def wp_step
proof (intro allI impI)
  fix s s' x s''
  assume "P s" "relies hold.Write s s'" "f s' = (x, s'')"
  moreover from this have "P s'" using assms(1) by (auto simp: stable_def)
  ultimately show "grants hold.Write s' s'' \<and> hold.Write = hold.Write \<and> Q x s''" using assms(2) by simp
qed

lemma writes_bind: "writes P p R \<Longrightarrow> (\<And>x. writes (R x) (g x) Q) \<Longrightarrow> writes P (bind p g) Q"
  unfolding writes_def wp_bind by (auto elim!: wp_mono)

lemma writes_pre: "writes P p Q \<Longrightarrow> (\<And>s. P' s \<Longrightarrow> P s) \<Longrightarrow> writes P' p Q"
  by (simp add: writes_def)

lemma writes_post: "writes P p Q \<Longrightarrow> (\<And>x s. Q x s \<Longrightarrow> Q' x s) \<Longrightarrow> writes P p Q'"
  unfolding writes_def by (auto elim!: wp_mono)

lemma reads_Ret: "(\<And>v. P v \<Longrightarrow> Q x v) \<Longrightarrow> reads P (Ret x) Q"
  by (simp add: reads_def)

lemma reads_step:
  assumes "\<And>s x s'. settled s \<Longrightarrow> P (fields s) \<Longrightarrow> f s = (x, s') \<Longrightarrow> settled s' \<and> fields s' = fields s \<and> Q x (fields s)"
  shows "reads P (step f) Q"
  unfolding reads_def wp_step
proof (intro allI impI)
  fix s s' x s''
  assume "P (fields s)" "relies hold.Read s s'" and f: "f s' = (x, s'')"
  then have "settled s'" "P (fields s')" by simp_all
  from assms [OF this f] show "grants hold.Read s' s'' \<and> hold.Read = hold.Read \<and> settled s'' \<and> Q x (fields s'')" by simp
qed

lemma reads_bind: "reads P p R \<Longrightarrow> (\<And>x. reads (R x) (g x) Q) \<Longrightarrow> reads P (bind p g) Q"
  unfolding reads_def wp_bind by (auto elim!: wp_mono)

lemma reads_pre: "reads P p Q \<Longrightarrow> (\<And>v. P' v \<Longrightarrow> P v) \<Longrightarrow> reads P' p Q"
  by (simp add: reads_def)

lemma unlocked_Ret: "Q x \<Longrightarrow> unlocked bad (Ret x) Q"
  by (simp add: unlocked_def)

lemma unlocked_step:
  assumes "\<And>s x s'. f s = (x, s') \<Longrightarrow> rest s s' \<and> Q x"
  shows "unlocked bad (step f) Q"
  using assms unfolding unlocked_def wp_step by simp

text \<open>After a bad result the lock may be held: what still runs must not need it.\<close>

lemma unlocked_bind_bad:
  assumes "unlocked bad p R" "\<And>x. R x \<Longrightarrow> \<not> bad x \<Longrightarrow> unlocked bad' (g x) Q"
    and "\<And>x h s. R x \<Longrightarrow> bad x \<Longrightarrow> wp (g x) (\<lambda>y h s. (h = Free \<or> bad' y) \<and> Q y) h s"
  shows "unlocked bad' (bind p g) Q"
  unfolding unlocked_def wp_bind
proof
  fix s
  from assms(1) have "wp p (\<lambda>x h s. (h = Free \<or> bad x) \<and> R x) Free s" by (simp add: unlocked_def)
  then show "wp p (\<lambda>x. wp (g x) (\<lambda>y h s. (h = Free \<or> bad' y) \<and> Q y)) Free s"
    by (rule wp_mono) (use assms(2,3) in \<open>auto simp: unlocked_def\<close>)
qed

lemma unlocked_bind: "unlocked no p R \<Longrightarrow> (\<And>x. R x \<Longrightarrow> unlocked bad (g x) Q) \<Longrightarrow> unlocked bad (bind p g) Q"
  by (rule unlocked_bind_bad [where bad = no and R = R]) auto

lemma unlocked_post:
  assumes "unlocked bad p Q" "\<And>x. Q x \<Longrightarrow> Q' x" "\<And>x. bad x \<Longrightarrow> bad' x"
  shows "unlocked bad' p Q'"
  using unlocked_bind_bad [OF assms(1), of bad' Ret Q'] assms(2,3) by (simp add: unlocked_Ret bind_Ret)

lemma wp_yields: "yields P p \<Longrightarrow> wp p Q h s \<Longrightarrow> wp p (\<lambda>x h s. Q x h s \<and> P x) h s"
proof (induction p arbitrary: h s)
  case (Act f k)
  have "yields P (k s')" for s' using Act.prems(1) unfolding yields_def by auto
  then show ?case using Act by simp
next
  case (Call a p)
  have "yields P p" using Call.prems(1) unfolding yields_def by auto
  then show ?case using Call by (simp del: insert_iff) blast
qed (auto simp: yields_def)

lemma writes_yields: "yields P p \<Longrightarrow> writes R p Q \<Longrightarrow> writes R p (\<lambda>x s. Q x s \<and> P x)"
  unfolding writes_def
proof (intro allI impI)
  fix s
  assume p: "yields P p" and "\<forall>s. R s \<longrightarrow> wp p (\<lambda>x h s. h = hold.Write \<and> Q x s) hold.Write s" "R s"
  then have "wp p (\<lambda>x h s. h = hold.Write \<and> Q x s) hold.Write s" by blast
  from wp_yields [OF p this] show "wp p (\<lambda>x h s. h = hold.Write \<and> Q x s \<and> P x) hold.Write s"
    by (rule wp_mono) simp
qed

lemma unlocked_call: "lock_after a Free = Some Free \<Longrightarrow> unlocked bad p Q \<Longrightarrow> unlocked bad (Call a p) Q"
  by (cases a) (auto simp: unlocked_def)

lemma reads_call: "lock_after a Read = Some Read \<Longrightarrow> reads P p Q \<Longrightarrow> reads P (Call a p) Q"
  by (cases a) (auto simp: reads_def)

lemma unlocked_reading:
  assumes "reads (\<lambda>_. True) p (\<lambda>x _. Q x)"
  shows "unlocked bad (reading p) Q"
proof -
  have "wp p (\<lambda>x. wp (Call RUnlock (Ret x)) (\<lambda>x h s. (h = Free \<or> bad x) \<and> Q x)) hold.Read s" if "settled s" for s
  proof -
    have "wp p (\<lambda>x h s. h = hold.Read \<and> settled s \<and> Q x) hold.Read s" using assms that by (simp add: reads_def)
    then show ?thesis by (rule wp_mono) simp
  qed
  then show ?thesis by (simp add: unlocked_def reading_def wp_bind)
qed

lemma unlocked_writing:
  assumes "writes settled p (\<lambda>x s. settled s \<and> Q x)"
  shows "unlocked bad (writing p) Q"
proof -
  have "wp p (\<lambda>x. wp (Call Unlock (Ret x)) (\<lambda>x h s. (h = Free \<or> bad x) \<and> Q x)) hold.Write s" if "settled s" for s
  proof -
    have "wp p (\<lambda>x h s. h = hold.Write \<and> settled s \<and> Q x) hold.Write s" using assms that by (simp add: writes_def)
    then show ?thesis by (rule wp_mono) (auto intro: rest_settled)
  qed
  then show ?thesis by (simp add: unlocked_def writing_def wp_bind)
qed

end

section \<open>What is settled\<close>

text \<open>\<open>b\<close>: also that the held TGT is in the cache, which a removal may break.\<close>

definition settled_state ::
  "'w krb5_lib \<Rightarrow> ('w \<Rightarrow> krb5_creds list) \<Rightarrow> ('w \<Rightarrow> krb5_principal option) \<Rightarrow> bool \<Rightarrow> client \<times> 'w \<Rightarrow> bool" where
  "settled_state L entries owner b s \<longleftrightarrow>
     cache_guarded entries owner (snd s) \<and> (b \<longrightarrow> tgt_in_cache L entries (fst s) (snd s))"

text \<open>A change that leaves alone what the lock protects; the pool of contexts is not.\<close>

definition left_alone ::
  "('w \<Rightarrow> krb5_creds list) \<Rightarrow> ('w \<Rightarrow> krb5_principal option) \<Rightarrow> client \<times> 'w \<Rightarrow> client \<times> 'w \<Rightarrow> bool" where
  "left_alone entries owner s s' \<longleftrightarrow>
     (\<exists>i. fst s' = (fst s)\<lparr>idle := i\<rparr>) \<and> entries (snd s') = entries (snd s) \<and> owner (snd s') = owner (snd s)"

definition client_fields :: "client \<times> 'w \<Rightarrow> client" where
  "client_fields s = (fst s)\<lparr>idle := 0\<rparr>"

locale settled_engine = reliable_ccache +
  fixes b :: bool

lemma left_alone_trans:
  assumes "left_alone entries owner s1 s2" "left_alone entries owner s2 s3"
  shows "left_alone entries owner s1 s3"
  using assms unfolding left_alone_def by (metis (no_types) client.update_convs(10) client.surjective)

lemma left_alone_settled:
  "left_alone entries owner s s' \<Longrightarrow> settled_state L entries owner b s \<Longrightarrow> settled_state L entries owner b s'"
  by (auto simp: left_alone_def settled_state_def cache_guarded_def tgt_in_cache_def split: option.splits)

sublocale settled_engine \<subseteq> critical_sections "settled_state L entries owner b"
  "\<lambda>s. cache_guarded entries owner (snd s)" "left_alone entries owner" client_fields
proof unfold_locales
  fix s s' :: "client \<times> 'a"
  have "fst s = (fst s)\<lparr>idle := idle (fst s)\<rparr>" by simp
  then show "left_alone entries owner s s" unfolding left_alone_def by metis
  assume r: "left_alone entries owner s s'"
  then show "client_fields s' = client_fields s" by (auto simp: left_alone_def client_fields_def)
  show "cache_guarded entries owner (snd s) \<Longrightarrow> cache_guarded entries owner (snd s')"
    using r by (simp add: left_alone_def cache_guarded_def)
  show "settled_state L entries owner b s \<Longrightarrow> settled_state L entries owner b s'"
    using r by (rule left_alone_settled)
  show "left_alone entries owner s' s'' \<Longrightarrow> left_alone entries owner s s''" for s''
    using r by (rule left_alone_trans)
qed (simp add: settled_state_def)

section \<open>Steps\<close>

context settled_engine
begin

abbreviation ok :: "client \<times> 'a \<Rightarrow> bool" where
  "ok \<equiv> settled_state L entries owner b"

lemma writes_lib:
  assumes "stable P" "\<And>c w x w'. P (c, w) \<Longrightarrow> f w = (x, w') \<Longrightarrow> (guarded w \<longrightarrow> guarded w') \<and> Q x (c, w')"
  shows "writes P (lib_step f) Q"
  unfolding lib_step_def by (rule writes_step [OF assms(1)]) (auto split: prod.splits dest: assms(2))

lemma writes_fields:
  assumes "stable P" "\<And>c w x c'. P (c, w) \<Longrightarrow> f c = (x, c') \<Longrightarrow> Q x (c', w)"
  shows "writes P (fields_step f) Q"
  unfolding fields_step_def by (rule writes_step [OF assms(1)]) (auto split: prod.splits dest: assms(2))

lemma writes_ask: "stable P \<Longrightarrow> (\<And>c w. P (c, w) \<Longrightarrow> Q (f w) (c, w)) \<Longrightarrow> writes P (ask f) Q"
  unfolding ask_def by (rule writes_step) auto

lemma writes_get: "stable P \<Longrightarrow> (\<And>c w. P (c, w) \<Longrightarrow> Q (f c) (c, w)) \<Longrightarrow> writes P (get f) Q"
  unfolding get_def by (rule writes_fields) auto

lemma writes_upd: "stable P \<Longrightarrow> (\<And>c w. P (c, w) \<Longrightarrow> Q () (f c, w)) \<Longrightarrow> writes P (upd f) Q"
  unfolding upd_def by (rule writes_fields) auto

lemma reads_lib:
  assumes "\<And>c w x w'. ok (c, w) \<Longrightarrow> P (c\<lparr>idle := 0\<rparr>) \<Longrightarrow> f w = (x, w') \<Longrightarrow> ok (c, w') \<and> Q x (c\<lparr>idle := 0\<rparr>)"
  shows "reads P (lib_step f) Q"
  unfolding lib_step_def by (rule reads_step) (auto split: prod.splits simp: client_fields_def dest: assms)

lemma reads_ask: "(\<And>c w. ok (c, w) \<Longrightarrow> P (c\<lparr>idle := 0\<rparr>) \<Longrightarrow> Q (f w) (c\<lparr>idle := 0\<rparr>)) \<Longrightarrow> reads P (ask f) Q"
  unfolding ask_def by (rule reads_step) (auto simp: client_fields_def)

lemma reads_get: "(\<And>c. P (c\<lparr>idle := 0\<rparr>) \<Longrightarrow> Q (f c) (c\<lparr>idle := 0\<rparr>)) \<Longrightarrow> reads P (get f) Q"
  unfolding get_def fields_step_def by (rule reads_step) (auto simp: client_fields_def)

lemma unlocked_lib:
  assumes "\<And>w x w'. f w = (x, w') \<Longrightarrow> entries w' = entries w \<and> owner w' = owner w \<and> Q x"
  shows "unlocked bad (lib_step f) Q"
  unfolding lib_step_def
proof (rule unlocked_step)
  fix s s' :: "client \<times> 'a" and x
  assume "(case s of (c, w) \<Rightarrow> case f w of (r, w) \<Rightarrow> (r, c, w)) = (x, s')"
  then show "left_alone entries owner s s' \<and> Q x"
    using assms rest_refl [of s] by (auto simp: left_alone_def split: prod.splits)
qed

lemma unlocked_ask: "(\<And>w. Q (f w)) \<Longrightarrow> unlocked bad (ask f) Q"
  unfolding ask_def by (rule unlocked_step) auto

lemma unlocked_fields:
  assumes "\<And>c. \<exists>i. snd (f c) = c\<lparr>idle := i\<rparr>" "\<And>c. Q (fst (f c))"
  shows "unlocked bad (fields_step f) Q"
  unfolding fields_step_def
proof (rule unlocked_step)
  fix s s' :: "client \<times> 'a" and x
  assume a: "(case s of (c, w) \<Rightarrow> case f c of (r, c) \<Rightarrow> (r, c, w)) = (x, s')"
  obtain c w where s: "s = (c, w)" by fastforce
  show "left_alone entries owner s s' \<and> Q x"
    using a s assms(1) [of c] assms(2) [of c] by (auto simp: left_alone_def split: prod.splits)
qed

end

end
