(* ===== verification/Interleaved.thy ===== *)
theory Interleaved
  imports Settled
begin

text \<open>
  Every program of \<open>Sections\<close> keeps the contract of \<open>Settled\<close>, and so does every interleaving of their steps.
\<close>

section \<open>Write sections\<close>

context settled_engine
begin

lemma stable_ok [simp]: "stable ok"
  using rest_settled by (auto simp: stable_def)

lemma ok_idle: "ok (c\<lparr>idle := i\<rparr>, w) = ok (c, w)"
  by (simp add: settled_state_def tgt_in_cache_def)

text \<open>A TGT that may be installed: it was captured from a local TGT.\<close>

definition adoptable :: "tgtInfo \<Rightarrow> bool" where
  "adoptable info \<longleftrightarrow> (b \<longrightarrow> (\<exists>cr. tgtInfoFrom L cr = Inr info \<and> local_tgt cr))"

text \<open>In the middle of a swap: the guarded copy of \<open>info\<close> is in the cache.\<close>

definition swapped :: "tgtInfo \<Rightarrow> client \<times> 'a \<Rightarrow> bool" where
  "swapped info s \<longleftrightarrow> guarded (snd s) \<and> (b \<longrightarrow> copy_in_cache L (entries (snd s)) info)"

lemma stable_guarded [simp]: "stable (\<lambda>s. guarded (snd s))"
  by (auto simp: stable_def left_alone_def cache_guarded_def)

lemma stable_swapped [simp]: "stable (swapped info)"
  by (auto simp: stable_def left_alone_def swapped_def cache_guarded_def)

lemma stable_ok_tgt [simp]: "stable (\<lambda>s. ok s \<and> tgt (fst s) = x)"
proof -
  have "tgt (fst s') = tgt (fst s)" if "left_alone entries owner s s'" for s s'
    using that by (auto simp: left_alone_def)
  then show ?thesis using rest_settled unfolding stable_def by metis
qed

lemma remove_old_TGT:
  assumes "ok (c, w)" "tgt c = Some (a, t)" "removeCredExact L (ti_wire t) w = (e, w')"
  shows "case e of None \<Rightarrow> guarded w' | Some err \<Rightarrow> ok (c, w')"
proof -
  have g: "guarded w'" using guarded_removeCredExact [OF _ assms(3)] assms(1) by (simp add: settled_state_def)
  have "e = None" if b: b
  proof -
    obtain old where "marshalCreds L old = Inr (ti_wire t)"
      using assms(1,2) b tgtInfoFrom_Inr(1) by (fastforce simp: settled_state_def tgt_in_cache_def copy_in_cache_def)
    then show ?thesis using removeCredExact_effect(1) assms(3) by blast
  qed
  with g show ?thesis by (auto simp: settled_state_def split: option.splits)
qed

lemma store_new_TGT:
  assumes "adoptable info" "unmarshalCreds L (ti_wire info) = Inr creds" "guarded w" "storeTGT L creds w = (e, w')"
  shows "guarded w'" "e = None \<and> swapped info (c, w')"
proof -
  show g: "guarded w'" using assms(3,4) by (rule guarded_storeTGT)
  obtain w2 where w2: "storeTGT L creds w = (None, w2)" "entries w2 = entries w @ [clear_renewable creds]"
    using storeTGT_ok by blast
  have "copy_in_cache L (entries w') info" if b: b
  proof -
    obtain cr where cr: "tgtInfoFrom L cr = Inr info" "local_tgt cr" using assms(1) b unfolding adoptable_def by blast
    obtain e' where "creds = cr\<lparr>cr_enctype := e'\<rparr>"
      using unmarshalCreds_marshalCreds [OF tgtInfoFrom_Inr(1) [OF cr(1)]] assms(2) by auto
    moreover have "clear_renewable (cr\<lparr>cr_enctype := e'\<rparr>) = (clear_renewable cr)\<lparr>cr_enctype := e'\<rparr>"
      by (simp add: clear_renewable_def)
    ultimately have "(clear_renewable cr)\<lparr>cr_enctype := e'\<rparr> \<in> set (entries w')" using w2 assms(4) by simp
    then show ?thesis using cr(1,2) unfolding copy_in_cache_def by blast
  qed
  then show "e = None \<and> swapped info (c, w')" using w2 assms(4) g by (simp add: swapped_def)
qed

lemma writes_install: "writes (swapped info) (bind (upd (install_tgt info)) (\<lambda>_. bind (upd resetRenewBackoff) (\<lambda>_. Ret x))) (\<lambda>_. ok)"
proof (rule writes_bind)
  show "writes (swapped info) (upd (install_tgt info)) (\<lambda>_. ok)"
    by (rule writes_upd) (auto simp: swapped_def settled_state_def tgt_in_cache_def)
  show "writes ok (bind (upd resetRenewBackoff) (\<lambda>_. Ret x)) (\<lambda>_. ok)"
    by (rule writes_bind [OF writes_upd [where Q = "\<lambda>_. ok"] writes_Ret])
      (auto simp: settled_state_def tgt_in_cache_def resetRenewBackoff_def)
qed

lemma writes_setTGT:
  assumes "adoptable info"
  shows "writes ok (setTGT_p L info) (\<lambda>_. ok)"
proof (cases "unmarshalCreds L (ti_wire info)")
  case (Inl err)
  then show ?thesis by (simp add: setTGT_p_def writes_Ret)
next
  case (Inr creds)
  let ?R = "\<lambda>e s. case e of None \<Rightarrow> guarded (snd s) | Some (err :: goerror) \<Rightarrow> ok s"
  have remove: "writes (\<lambda>s. ok s \<and> tgt (fst s) = old)
      (case old of None \<Rightarrow> Ret None | Some (_, t) \<Rightarrow> lib_step (removeCredExact L (ti_wire t))) ?R" for old
  proof (cases old)
    case (Some at)
    obtain a t where "at = (a, t)" by fastforce
    have "writes (\<lambda>s. ok s \<and> tgt (fst s) = Some (a, t)) (lib_step (removeCredExact L (ti_wire t))) ?R"
    proof (rule writes_lib)
      fix c w x w'
      assume "ok (c, w) \<and> tgt (fst (c, w)) = Some (a, t)" "removeCredExact L (ti_wire t) w = (x, w')"
      then show "(guarded w \<longrightarrow> guarded w') \<and> ?R x (c, w')"
        using remove_old_TGT [of c w a t x w'] guarded_removeCredExact [of w "ti_wire t" x w']
        by (simp split: option.splits)
    qed simp
    with Some \<open>at = (a, t)\<close> show ?thesis by simp
  qed (auto simp: settled_state_def intro!: writes_Ret)
  have store: "writes (\<lambda>s. guarded (snd s)) (lib_step (storeTGT L creds)) (\<lambda>e s. e = None \<and> swapped info s)"
    by (rule writes_lib) (auto dest: store_new_TGT [OF assms Inr])
  have swap: "writes (\<lambda>s. guarded (snd s)) (unless_fails (lib_step (storeTGT L creds))
      (bind (upd (install_tgt info)) (\<lambda>_. bind (upd resetRenewBackoff) (\<lambda>_. Ret None)))) (\<lambda>_. ok)"
    unfolding unless_fails_def
    by (rule writes_bind [OF store])
      (auto split: option.splits intro!: writes_pre [OF writes_install] writes_Ret)
  show ?thesis
    unfolding setTGT_p_def Inr sum.case
  proof (rule writes_bind [OF writes_get [where Q = "\<lambda>x s. ok s \<and> tgt (fst s) = x"]])
    show "writes (\<lambda>s. ok s \<and> tgt (fst s) = old)
        (bind (case old of None \<Rightarrow> Ret None | Some (_, t) \<Rightarrow> lib_step (removeCredExact L (ti_wire t))) (\<lambda>e. case e of
            Some err \<Rightarrow> Ret (Some (WrapError ''removing previous TGT: '' err))
          | None \<Rightarrow> unless_fails (lib_step (storeTGT L creds))
              (bind (upd (install_tgt info)) (\<lambda>_. bind (upd resetRenewBackoff) (\<lambda>_. Ret None))))) (\<lambda>_. ok)" for old
    proof (rule writes_bind [OF remove])
      show "writes (?R e) (case e of
            Some err \<Rightarrow> Ret (Some (WrapError ''removing previous TGT: '' err))
          | None \<Rightarrow> unless_fails (lib_step (storeTGT L creds))
              (bind (upd (install_tgt info)) (\<lambda>_. bind (upd resetRenewBackoff) (\<lambda>_. Ret None)))) (\<lambda>_. ok)" for e
        using swap by (cases e) (auto intro: writes_Ret)
    qed
  qed auto
qed

lemma writes_renew_failed: "writes ok (renew_failed_p now err) (\<lambda>_. ok)"
  unfolding renew_failed_p_def
  by (rule writes_bind [OF writes_upd [where Q = "\<lambda>_. ok"] writes_Ret])
    (auto simp: settled_state_def tgt_in_cache_def noteRenewFailure_def Let_def)

lemma writes_renew_finish:
  assumes "\<And>info. res = Inr info \<Longrightarrow> adoptable info"
  shows "writes ok (renew_finish_p L started now res) (\<lambda>_. ok)"
  unfolding renew_finish_p_def
proof (rule writes_bind [OF writes_upd [where Q = "\<lambda>_. ok"]])
  have cont: "writes ok (case res of Inl err \<Rightarrow> renew_failed_p now err | Inr info \<Rightarrow>
      bind (setTGT_p L info) (\<lambda>e. case e of Some err \<Rightarrow> renew_failed_p now err | None \<Rightarrow> Ret None)) (\<lambda>_. ok)"
  proof (cases res)
    case (Inr info)
    have "writes ok (case e of Some err \<Rightarrow> renew_failed_p now err | None \<Rightarrow> Ret None) (\<lambda>_. ok)" for e
      by (cases e) (auto intro: writes_Ret writes_renew_failed)
    then show ?thesis unfolding Inr sum.case by (rule writes_bind [OF writes_setTGT [OF assms [OF Inr]]])
  qed (simp add: writes_renew_failed)
  show "writes ok (bind (get (\<lambda>c. map_option fst (tgt c) = Some (fst started))) (\<lambda>same. if \<not> same then Ret None else
      (case res of Inl err \<Rightarrow> renew_failed_p now err | Inr info \<Rightarrow>
      bind (setTGT_p L info) (\<lambda>e. case e of Some err \<Rightarrow> renew_failed_p now err | None \<Rightarrow> Ret None)))) (\<lambda>_. ok)" for x :: unit
    by (rule writes_bind [OF writes_get [where Q = "\<lambda>_. ok"]]) (auto intro: writes_Ret cont)
qed (auto simp: settled_state_def tgt_in_cache_def)

text \<open>Reloading: the cache is empty and no TGT is held until the file's is in the cache.\<close>

definition loading :: "tgtInfo option \<Rightarrow> client \<times> 'a \<Rightarrow> bool" where
  "loading found s \<longleftrightarrow> guarded (snd s) \<and> tgt (fst s) = None \<and>
     (\<forall>t. found = Some t \<longrightarrow> copy_in_cache L (entries (snd s)) t)"

lemma stable_loading [simp]: "stable (loading found)"
  by (auto simp: stable_def left_alone_def loading_def cache_guarded_def)

lemma loading_ok: "loading found s \<Longrightarrow> ok s"
  by (simp add: loading_def settled_state_def tgt_in_cache_def)

lemma writes_load_creds:
  "writes (loading found) (load_creds_p L now creds code found) (\<lambda>r s. case r of Inl err \<Rightarrow> ok s | Inr found \<Rightarrow> loading found s)"
proof (induction creds arbitrary: found)
  case Nil
  then show ?case by (auto intro!: writes_Ret simp: loading_ok)
next
  case (Cons cred creds)
  have one: "writes (loading found) (lib_step (loadOne L now cred found))
      (\<lambda>r s. case r of Inl err \<Rightarrow> ok s | Inr found \<Rightarrow> loading found s)"
  proof (rule writes_lib)
    fix c w r w'
    assume l: "loading found (c, w)" "loadOne L now cred found w = (r, w')"
    have g: "guarded w'" using guarded_loadOne [OF _ l(2)] l(1) by (simp add: loading_def)
    show "(guarded w \<longrightarrow> guarded w') \<and> (case r of Inl err \<Rightarrow> ok (c, w') | Inr found \<Rightarrow> loading found (c, w'))"
    proof (cases r)
      case (Inr found')
      then show ?thesis using loadOne_copy [of now cred found w found' w'] l g by (simp add: loading_def)
    qed (use l(1) g in \<open>simp add: loading_def settled_state_def tgt_in_cache_def\<close>)
  qed simp
  show ?case
    unfolding load_creds_p.simps or_fail_def
    apply (rule writes_bind [OF one])
    subgoal for r by (cases r) (simp_all add: writes_Ret Cons.IH)
    done
qed

lemma writes_loadFrom:
  "writes (loading None) (loadFrom_p L src now) (\<lambda>r s. case r of Inl err \<Rightarrow> ok s | Inr found \<Rightarrow> loading found s)"
  unfolding loadFrom_p_def
proof (rule writes_bind [OF writes_ask [where Q = "\<lambda>_. loading None"]])
  fix r :: "i32 + krb5_creds list \<times> i32 \<times> i32"
  show "writes (loading None) (case r of Inl code \<Rightarrow> Ret (Inl (krbErr L code)) | Inr (creds, code, endcode) \<Rightarrow>
         or_fail (load_creds_p L now creds code None) (\<lambda>found.
           Ret (case newError L endcode of Some err \<Rightarrow> Inl err | None \<Rightarrow> Inr found)))
     (\<lambda>r s. case r of Inl err \<Rightarrow> ok s | Inr found \<Rightarrow> loading found s)"
  proof (cases r)
    case (Inr x)
    obtain creds code endcode where "x = (creds, code, endcode)" by (cases x)
    with Inr show ?thesis
      by (auto simp: or_fail_def loading_ok split: sum.splits option.splits
          intro!: writes_bind [OF writes_load_creds] writes_Ret)
  qed (auto intro!: writes_Ret simp: loading_ok)
qed auto

lemma ok_reset: "ok (resetRenewBackoff c, w) = ok (c, w)"
  by (simp add: settled_state_def tgt_in_cache_def resetRenewBackoff_def)

lemma writes_reset: "(\<And>s. P s \<Longrightarrow> ok s) \<Longrightarrow> stable P \<Longrightarrow> writes P (bind (upd resetRenewBackoff) (\<lambda>_. Ret x)) (\<lambda>_. ok)"
  by (rule writes_bind [OF writes_upd [where Q = "\<lambda>_. ok"] writes_Ret]) (auto simp: ok_reset)

lemma writes_initialize:
  "writes ok (lib_step (krb5_cc_initialize L workingCacheName (Some princ))) (\<lambda>code s. if code \<noteq> 0 then ok s else guarded (snd s))"
proof (rule writes_lib)
  fix c w code w'
  assume a: "ok (c, w)" "krb5_cc_initialize L workingCacheName (Some princ) w = (code, w')"
  have "guarded w'" using guarded_initialize [OF _ a(2)] a(1) by (simp add: settled_state_def)
  moreover have "ok (c, w')" if "code \<noteq> 0"
    using a initialize [OF a(2)] that calculation tgt_in_cache_entries [of L entries c w w'] by (simp add: settled_state_def)
  ultimately show "(guarded w \<longrightarrow> guarded w') \<and> (if code \<noteq> 0 then ok (c, w') else guarded (snd (c, w')))" by simp
qed simp

lemma writes_adopt_file: "writes ok (adopt_file_p L src princ now) (\<lambda>_. ok)"
proof -
  note start = writes_initialize
  have cleared: "writes (\<lambda>s. guarded (snd s)) (upd (\<lambda>c. c\<lparr>tgt := None\<rparr>)) (\<lambda>_. loading None)"
    by (rule writes_upd) (auto simp: loading_def)
  let ?finish = "\<lambda>r. case r of Inl err \<Rightarrow> Ret None
     | Inr None \<Rightarrow> bind (upd resetRenewBackoff) (\<lambda>_.
         Ret (Some (GoPanic ''invalid memory address or nil pointer dereference'')))
     | Inr (Some info) \<Rightarrow> bind (upd (install_tgt info)) (\<lambda>_. bind (upd resetRenewBackoff) (\<lambda>_. Ret None))"
  have load: "writes (loading None) (bind (loadFrom_p L src now) ?finish) (\<lambda>_. ok)"
  proof (rule writes_bind [OF writes_loadFrom])
    fix r :: "goerror + tgtInfo option"
    show "writes (\<lambda>s. case r of Inl err \<Rightarrow> ok s | Inr found \<Rightarrow> loading found s) (?finish r) (\<lambda>_. ok)"
    proof (cases r)
      case (Inr found)
      have "writes (loading (Some info)) (bind (upd (install_tgt info)) (\<lambda>_. bind (upd resetRenewBackoff) (\<lambda>_. Ret None))) (\<lambda>_. ok)" for info
        by (rule writes_pre [OF writes_install]) (auto simp: loading_def swapped_def)
      with Inr show ?thesis by (cases found) (auto intro: writes_reset loading_ok)
    qed (auto intro: writes_Ret)
  qed
  show ?thesis
    unfolding adopt_file_p_def
    apply (rule writes_bind [OF start])
    subgoal for code
      using writes_bind [OF cleared load] by (cases "code = 0") (simp_all add: writes_Ret)
    done
qed

lemma writes_loadNewerTGT: "writes ok (loadNewerTGT_p L now) (\<lambda>_. ok)"
proof -
  note adopt = writes_adopt_file
  have peek: "writes ok (consider_peek_p L src princ now peek) (\<lambda>_. ok)" for src princ peek
    unfolding consider_peek_p_def
    by (auto intro!: writes_Ret writes_bind [OF writes_get [where Q = "\<lambda>_. ok"]] adopt)
  have peeked: "writes ok (case r of Inl err \<Rightarrow> Ret None | Inr None \<Rightarrow> Ret None
      | Inr (Some peek) \<Rightarrow> consider_peek_p L src princ now peek) (\<lambda>_. ok)" for r src princ
    by (cases r) (auto intro!: writes_Ret peek split: option.splits)
  have source: "writes ok (case r of Inl code \<Rightarrow> Ret None | Inr princ \<Rightarrow> bind (ask (peekTGT L src)) (\<lambda>r. case r of
      Inl err \<Rightarrow> Ret None | Inr None \<Rightarrow> Ret None | Inr (Some peek) \<Rightarrow> consider_peek_p L src princ now peek)) (\<lambda>_. ok)"
    for r src
    by (cases r) (auto intro!: writes_Ret writes_bind [OF writes_ask [where Q = "\<lambda>_. ok"]] peeked)
  have read: "writes ok (read_source_p L src now) (\<lambda>_. ok)" for src
    unfolding read_source_p_def
    by (auto intro!: writes_Ret writes_bind [OF writes_ask [where Q = "\<lambda>_. ok"]] source)
  have check: "writes ok (step (\<lambda>(c, w). (owner_ok L c w, c, w))) (\<lambda>_. ok)"
    by (rule writes_step) auto
  have upd: "writes ok (upd (\<lambda>c. c\<lparr>lastFileCheck := now\<rparr>)) (\<lambda>_. ok)"
    by (rule writes_upd) (auto simp: settled_state_def tgt_in_cache_def)
  show ?thesis
    unfolding loadNewerTGT_p_def
    by (auto intro!: writes_Ret writes_bind [OF writes_get [where Q = "\<lambda>_. ok"]] writes_bind [OF upd] writes_bind [OF check] read)
qed

text \<open>A call that only adds entries, and one that may remove any.\<close>

lemma ok_grow:
  "ok (c, w) \<Longrightarrow> guarded w' \<Longrightarrow> set (entries w) \<subseteq> set (entries w') \<Longrightarrow> ok (c, w')"
  using tgt_in_cache_grow [of L entries c w w'] by (simp add: settled_state_def)

lemma writes_remove:
  assumes "\<not> b"
  shows "writes ok (lib_step (krb5_cc_remove_cred L workingCacheName 0 creds)) (\<lambda>_. ok)"
proof (rule writes_lib [OF stable_ok])
  fix c w code w'
  assume a: "ok (c, w)" "krb5_cc_remove_cred L workingCacheName 0 creds w = (code, w')"
  then have "guarded w'" using guarded_remove_cred [OF _ a(2)] by (simp add: settled_state_def)
  then show "(guarded w \<longrightarrow> guarded w') \<and> ok (c, w')" using assms unfolding settled_state_def by simp
qed

lemma writes_walk: "writes ok (walk_p L fn creds code s) (\<lambda>_. ok)"
proof (induction creds arbitrary: s)
  case (Cons cred creds)
  have "writes ok (case x of (stop, s) \<Rightarrow> if stop then Ret (None, s) else walk_p L fn creds code s) (\<lambda>_. ok)" for x
    by (cases x) (auto intro: writes_Ret Cons)
  with Cons show ?case
    by (auto intro!: writes_Ret writes_bind [OF writes_get [where Q = "\<lambda>_. ok"]] split: sum.splits)
qed (auto intro: writes_Ret)

lemma writes_forEachEntry: "writes ok (forEachEntry_p L fn s) (\<lambda>_. ok)"
proof -
  have fin: "writes ok (case x of (e, s) \<Rightarrow> case e of Some err \<Rightarrow> Ret (Some err, s) | None \<Rightarrow> Ret (newError L endcode, s)) (\<lambda>_. ok)"
    for x :: "goerror option \<times> 'b" and endcode
    by (cases x) (auto intro!: writes_Ret split: option.splits)
  have "writes ok (case r of Inl code \<Rightarrow> Ret (Some (krbErr L code), s) | Inr (creds, code, endcode) \<Rightarrow>
         bind (walk_p L fn creds code s) (\<lambda>(e, s). case e of
           Some err \<Rightarrow> Ret (Some err, s) | None \<Rightarrow> Ret (newError L endcode, s))) (\<lambda>_. ok)" for r
  proof (cases r)
    case (Inr x)
    obtain creds code endcode where "x = (creds, code, endcode)" by (cases x)
    with Inr writes_bind [OF writes_walk fin] show ?thesis by simp
  qed (simp add: writes_Ret)
  then show ?thesis
    unfolding forEachEntry_p_def by (intro writes_bind [OF writes_ask [where Q = "\<lambda>_. ok"]]) auto
qed

lemma writes_remove_by_uuid:
  assumes "\<not> b"
  shows "writes ok (remove_by_uuid_p L u) (\<lambda>_. ok)"
proof -
  have "writes ok (case unmarshalCreds L wire of Inl err \<Rightarrow> Ret (Inl err) | Inr creds \<Rightarrow>
      bind (lib_step (krb5_cc_remove_cred L workingCacheName 0 creds)) (\<lambda>code. Ret (code_result L True code))) (\<lambda>_. ok)" for wire
    by (cases "unmarshalCreds L wire") (auto intro!: writes_Ret writes_bind [OF writes_remove [OF assms]])
  then show ?thesis
    unfolding remove_by_uuid_p_def
    by (auto intro!: writes_bind [OF writes_forEachEntry] writes_Ret split: prod.splits option.splits)
qed

lemma writes_remove_matching:
  assumes "\<not> b"
  shows "writes ok (remove_matching_p L mc) (\<lambda>_. ok)"
  unfolding remove_matching_p_def or_fail_def
  by (auto intro!: writes_bind [OF writes_ask [where Q = "\<lambda>_. ok"]] writes_Ret writes_bind [OF writes_remove [OF assms]]
      split: sum.splits)

lemma writes_store_plain:
  assumes "stable P" "\<And>c w. P (c, w) \<Longrightarrow> ok (c, w) \<and> tgt_guarded (owner w) creds"
  shows "writes P (store_plain_p L creds) (\<lambda>_. ok)"
  unfolding store_plain_p_def
proof (rule writes_bind [OF writes_lib [where Q = "\<lambda>_. ok"] writes_Ret])
  fix c w code w'
  assume a: "P (c, w)" "krb5_cc_store_cred L workingCacheName creds w = (code, w')"
  have "guarded w'"
    using guarded_store_cred [OF _ a(2)] assms(2) [OF a(1)] by (simp add: settled_state_def)
  then show "(guarded w \<longrightarrow> guarded w') \<and> ok (c, w')"
    using ok_grow [of c w w'] assms(2) [OF a(1)] store_cred [OF a(2)] by (auto split: if_splits)
qed (use assms in auto)

lemma writes_adopt_stored:
  assumes "local_tgt creds"
  shows "writes ok (adopt_stored_p L creds) (\<lambda>_. ok)"
proof (cases "tgtInfoFrom L creds")
  case (Inr info)
  then have "adoptable info" using assms by (auto simp: adoptable_def)
  then show ?thesis
    unfolding adopt_stored_p_def Inr sum.case by (intro writes_bind [OF writes_setTGT writes_Ret])
qed (simp add: adopt_stored_p_def writes_Ret)

text \<open>A local TGT of another principal than the cache's is stored as it is: the owner cannot change before.\<close>

lemma writes_store_creds: "writes ok (store_creds_p L wire) (\<lambda>_. ok)"
proof (cases "unmarshalCreds L wire")
  case (Inr creds)
  show ?thesis
  proof (cases "local_tgt creds")
    case True
    let ?mine = "\<lambda>r s. ok s \<and> (\<forall>mine. r = Inr mine \<longrightarrow> map_option (readPrincipal \<circ> Some) (owner (snd s)) = Some mine)"
    have st: "stable (?mine r)" for r
    proof -
      have "owner (snd s') = owner (snd s)" if "left_alone entries owner s s'" for s s'
        using that by (simp add: left_alone_def)
      then show ?thesis using rest_settled unfolding stable_def by metis
    qed
    have read: "writes ok (ask (defaultPrincipal L)) ?mine"
      by (rule writes_ask) (auto simp: defaultPrincipal_def split: sum.splits dest: get_principal)
    have store: "writes (?mine (Inr mine)) (if UnparseName mine = UnparseName (readPrincipal (cr_client creds))
        then adopt_stored_p L creds else store_plain_p L creds) (\<lambda>_. ok)" for mine
    proof (cases "UnparseName mine = UnparseName (readPrincipal (cr_client creds))")
      case True
      with writes_adopt_stored [OF \<open>local_tgt creds\<close>] show ?thesis by (auto elim: writes_pre)
    next
      case False
      have "tgt_guarded (owner w) creds" if "?mine (Inr mine) (c, w)" for c w
        using that False same_principal_UnparseName [of "cr_client creds" "owner w"] by (auto simp: tgt_guarded_def)
      then show ?thesis using False writes_store_plain [OF st [of "Inr mine"]] by auto
    qed
    show ?thesis
      unfolding store_creds_p_def Inr sum.case or_fail_def
      using True
      apply simp
      apply (rule writes_bind [OF read])
      subgoal for r using store by (cases r) (auto intro!: writes_Ret)
      done
  qed (auto simp: store_creds_p_def Inr intro!: writes_store_plain)
qed (simp add: store_creds_p_def writes_Ret)

lemma writes_initialize_cache: "writes ok (initialize_cache_p L p) (\<lambda>_. ok)"
proof (cases "buildPrincipal L p")
  case (Inr princ)
  have start: "writes ok (lib_step (krb5_cc_initialize L workingCacheName (Some princ)))
      (\<lambda>code s. if code \<noteq> 0 then ok s else guarded (snd s))"
    by (rule writes_initialize)
  have clear: "writes (\<lambda>s. guarded (snd s)) (upd (\<lambda>c. c\<lparr>tgt := None\<rparr>)) (\<lambda>_. ok)"
    by (rule writes_upd) (auto simp: settled_state_def tgt_in_cache_def)
  show ?thesis
    unfolding initialize_cache_p_def Inr sum.case or_code_def
    apply (rule writes_bind [OF start])
    subgoal for code
      using writes_bind [OF clear writes_reset [OF _ stable_ok]] by (cases "code = 0") (simp_all add: writes_Ret)
    done
qed (simp add: initialize_cache_p_def writes_Ret)

end

end
