(* ===== verification/Observed.thy ===== *)
theory Observed
  imports Interleaved
begin

text \<open>
  The read sections and the parts that run without the lock, whole operations, and what any interleaving of them
  observes.
\<close>

section \<open>Read sections\<close>

lemma stale_idle [simp]: "stale L (c\<lparr>idle := i\<rparr>) now cred = stale L c now cred"
  by (simp add: stale_def)

context settled_engine
begin

text \<open>Evicting what \<^verbatim>\<open>sweep\<close> found stale keeps the TGT, whichever other evictions and stores come in between.\<close>

definition stale_wire :: "gotime \<Rightarrow> client \<Rightarrow> byte list \<Rightarrow> bool" where
  "stale_wire now c wire \<longleftrightarrow> (\<exists>m. marshalCreds L m = Inr wire \<and> stale L c now m)"

lemma evict_keeps_ok:
  assumes "ok (c, w)" "stale_wire now c wire" "removeCredExact L wire w = (e, w')"
  shows "ok (c, w')"
proof -
  obtain m where m: "marshalCreds L m = Inr wire" "stale L c now m" using assms(2) by (auto simp: stale_wire_def)
  have "copy_in_cache L (entries w') t" if copy: "copy_in_cache L (entries w) t" for t
  proof -
    obtain cr e' where cr: "tgtInfoFrom L cr = Inr t" "local_tgt cr" "(clear_renewable cr)\<lparr>cr_enctype := e'\<rparr> \<in> set (entries w)"
      using copy by (auto simp: copy_in_cache_def)
    have "\<not> local_tgt m" using m(2) by (simp add: stale_def local_tgt_def Let_def)
    then have "\<not> exact_match L m ((clear_renewable cr)\<lparr>cr_enctype := e'\<rparr>)"
      using cred_matches_local_tgt cr(2) by fastforce
    with removeCredExact_keeps [OF assms(3) m(1) _ cr(3)] cr(1,2) show ?thesis unfolding copy_in_cache_def by blast
  qed
  then show ?thesis
    using assms(1) guarded_removeCredExact [OF _ assms(3)]
    by (auto simp: settled_state_def tgt_in_cache_def split: option.splits)
qed

lemma reads_stale_wires:
  "reads R (stale_wires_p L now creds) (\<lambda>wires c. R c \<and> (\<forall>wire \<in> set wires. stale_wire now c wire))"
proof (induction creds arbitrary: R)
  case (Cons cred creds)
  let ?Q = "\<lambda>wires c. \<forall>wire \<in> set wires. stale_wire now c wire"
  have "reads (\<lambda>c. (R c \<and> evict = stale L c now cred) \<and> ?Q wires c)
      (Ret (if evict then (case marshalCreds L cred of Inl err \<Rightarrow> wires | Inr wire \<Rightarrow> wire # wires) else wires))
      (\<lambda>wires c. R c \<and> ?Q wires c)" for evict wires
    by (rule reads_Ret) (auto simp: stale_wire_def split: sum.splits)
  from reads_bind [OF Cons this] show ?case
    unfolding stale_wires_p.simps
    by (intro reads_bind [OF reads_get [where Q = "\<lambda>x c. R c \<and> x = stale L c now cred"]]) simp_all
qed (simp add: reads_Ret)

lemma reads_evict:
  "reads (\<lambda>c. \<forall>wire \<in> set wires. stale_wire now c wire) (evict_p L wires) (\<lambda>_ _. True)"
proof (induction wires)
  case (Cons wire wires)
  have "reads (\<lambda>c. \<forall>wire \<in> set (wire # wires). stale_wire now c wire) (lib_step (removeCredExact L wire))
      (\<lambda>_ c. \<forall>wire \<in> set wires. stale_wire now c wire)"
  proof (rule reads_lib)
    fix c w e w'
    assume a: "ok (c, w)" "\<forall>wire \<in> set (wire # wires). stale_wire now (c\<lparr>idle := 0\<rparr>) wire" "removeCredExact L wire w = (e, w')"
    then have "stale_wire now c wire" by (simp add: stale_wire_def)
    with a evict_keeps_ok show "ok (c, w') \<and> (\<forall>wire \<in> set wires. stale_wire now (c\<lparr>idle := 0\<rparr>) wire)" by auto
  qed
  from reads_bind [OF this Cons] show ?case by simp
qed (simp add: reads_Ret)

lemma unlocked_sweep: "unlocked bad (sweep_p L now) (\<lambda>_. True)"
  unfolding sweep_p_def
proof (rule unlocked_reading, rule reads_bind [OF reads_ask [where Q = "\<lambda>_ _. True"]])
  fix r :: "i32 + krb5_creds list \<times> i32 \<times> i32"
  show "reads (\<lambda>_. True) (case r of Inl code \<Rightarrow> Ret () | Inr (creds, _, _) \<Rightarrow> bind (stale_wires_p L now creds) (evict_p L))
      (\<lambda>_ _. True)"
  proof (cases r)
    case (Inr x)
    obtain creds code endcode where "x = (creds, code, endcode)" by (cases x)
    moreover have "reads (\<lambda>_. True) (bind (stale_wires_p L now creds) (evict_p L)) (\<lambda>_ _. True)"
      by (rule reads_bind [OF reads_stale_wires]) (rule reads_pre [OF reads_evict], simp)
    ultimately show ?thesis using Inr by simp
  qed (simp add: reads_Ret)
qed simp

lemma reads_walk: "reads (\<lambda>_. True) (walk_p L fn creds code s) (\<lambda>_ _. True)"
proof (induction creds arbitrary: s)
  case (Cons cred creds)
  have "reads (\<lambda>_. True) (case x of (stop, s) \<Rightarrow> if stop then Ret (None, s) else walk_p L fn creds code s) (\<lambda>_ _. True)" for x
    by (cases x) (auto intro: reads_Ret Cons)
  with Cons show ?case
    by (auto intro!: reads_Ret reads_bind [OF reads_get [where Q = "\<lambda>_ _. True"]] split: sum.splits)
qed (auto intro: reads_Ret)

lemma reads_forEachEntry: "reads (\<lambda>_. True) (forEachEntry_p L fn s) (\<lambda>_ _. True)"
  unfolding forEachEntry_p_def
proof (rule reads_bind [OF reads_ask [where Q = "\<lambda>_ _. True"]])
  fix r :: "i32 + krb5_creds list \<times> i32 \<times> i32"
  have fin: "reads (\<lambda>_. True) (case x of (e, s) \<Rightarrow> case e of Some err \<Rightarrow> Ret (Some err, s) | None \<Rightarrow> Ret (newError L endcode, s)) (\<lambda>_ _. True)"
    for x :: "goerror option \<times> 'b" and endcode
    by (cases x) (auto intro!: reads_Ret split: option.splits)
  show "reads (\<lambda>_. True) (case r of Inl code \<Rightarrow> Ret (Some (krbErr L code), s) | Inr (creds, code, endcode) \<Rightarrow>
         bind (walk_p L fn creds code s) (\<lambda>(e, s). case e of
           Some err \<Rightarrow> Ret (Some err, s) | None \<Rightarrow> Ret (newError L endcode, s))) (\<lambda>_ _. True)"
  proof (cases r)
    case (Inr x)
    obtain creds code endcode where "x = (creds, code, endcode)" by (cases x)
    with Inr reads_bind [OF reads_walk fin] show ?thesis by simp
  qed (simp add: reads_Ret)
qed simp

lemma reads_getCredentials: "reads (\<lambda>_. True) (getCredentials_p L mc) (\<lambda>_ _. True)"
proof -
  have get: "reads (\<lambda>_. True) (lib_step (krb5_get_credentials L 0 workingCacheName inCreds)) (\<lambda>_ _. True)" for inCreds
  proof (rule reads_lib)
    fix c w r w'
    assume a: "ok (c, w)" "krb5_get_credentials L 0 workingCacheName inCreds w = (r, w')"
    have "guarded w'" using guarded_get_credentials [OF _ a(2)] a(1) by (simp add: settled_state_def)
    then show "ok (c, w') \<and> True" using ok_grow [OF a(1)] get_credentials [OF a(2)] by auto
  qed
  have "reads (\<lambda>_. True) (case r of Inl err \<Rightarrow> Ret (Inl err) | Inr inCreds \<Rightarrow>
      if krb5_is_config_principal L (cr_server inCreds)
      then Ret (Inl (KrbError CCNotFound ''Matching credential not found''))
      else bind (lib_step (krb5_get_credentials L 0 workingCacheName inCreds)) (\<lambda>r. case r of
         Inl code \<Rightarrow> Ret (Inl (krbErr L code)) | Inr outCreds \<Rightarrow> Ret (marshalCreds L outCreds))) (\<lambda>_ _. True)" for r
    by (cases r) (auto intro!: reads_Ret reads_bind [OF get] split: sum.splits)
  then show ?thesis
    unfolding getCredentials_p_def or_fail_def by (intro reads_bind [OF reads_ask [where Q = "\<lambda>_ _. True"]]) simp
qed

lemma reads_retrieve: "reads (\<lambda>_. True) (retrieve_p L now mc joined) (\<lambda>_ _. True)"
proof -
  have "reads (\<lambda>_. True) (case joined of Some r \<Rightarrow> Ret r | None \<Rightarrow> getCredentials_p L mc) (\<lambda>_ _. True)"
    by (cases joined) (auto intro: reads_Ret reads_getCredentials)
  then have "reads (\<lambda>_. True) (case e of Some err \<Rightarrow> Ret (Inl err) | None \<Rightarrow>
      Call (Do (matchKey mc)) (case joined of Some r \<Rightarrow> Ret r | None \<Rightarrow> getCredentials_p L mc)) (\<lambda>_ _. True)" for e
    by (cases e) (auto intro: reads_Ret reads_call)
  then show ?thesis
    unfolding retrieve_p_def by (intro reads_bind [OF reads_get [where Q = "\<lambda>_ _. True"]]) simp
qed

section \<open>Without the lock\<close>

lemma unlocked_asks: "unlocked bad (ask f) (\<lambda>_. True)"
  by (rule unlocked_ask) simp

lemma unlocked_newKctx: "unlocked bad (newKctx_p L) (\<lambda>_. True)"
  unfolding newKctx_p_def by (auto intro!: unlocked_bind [OF unlocked_asks] unlocked_Ret)

lemma unlocked_acquire: "unlocked bad (acquire_p L) (\<lambda>_. True)"
proof -
  have take: "unlocked no (fields_step take_idle) (\<lambda>_. True)"
  proof (rule unlocked_fields)
    show "\<exists>i. snd (take_idle c) = c\<lparr>idle := i\<rparr>" for c
      by (cases "0 < idle c") (auto simp: take_idle_def intro: exI [of _ "idle c"])
  qed simp
  have "unlocked bad (case e of Some err \<Rightarrow> Call Unslot (Ret (Some err)) | None \<Rightarrow> Ret None) (\<lambda>_. True)" for e :: "goerror option"
    by (cases e) (auto intro: unlocked_call unlocked_Ret)
  then have "unlocked bad (if got then Ret None else bind (newKctx_p L) (\<lambda>e. case e of
      Some err \<Rightarrow> Call Unslot (Ret (Some err)) | None \<Rightarrow> Ret None)) (\<lambda>_. True)" for got
    by (auto intro!: unlocked_Ret unlocked_bind [OF unlocked_newKctx])
  then show ?thesis
    unfolding acquire_p_def by (intro unlocked_call unlocked_bind [OF take]) simp_all
qed

text \<open>A context may be given back whatever is held, as the deferred call does after a panic.\<close>

lemma wp_release:
  assumes "\<And>s. Q () h s"
  shows "wp release_p Q h s"
proof -
  have "left_alone entries owner s' (release (fst s'), snd s')" for s' by (auto simp: left_alone_def release_def)
  then have "grants h s' (release (fst s'), snd s')" for s' by (rule rest_grants)
  moreover have "lock_after Unslot h = Some h" by simp
  ultimately show ?thesis
    using assms unfolding release_p_def wp_bind upd_def fields_step_def wp_step by (auto simp: split_beta)
qed

lemma unlocked_release: "unlocked bad release_p (\<lambda>_. True)"
  unfolding unlocked_def by (auto intro: wp_release)

section \<open>Renewal\<close>

lemma unlocked_renew_scratch: "unlocked bad (renew_scratch_p L creds) (\<lambda>r. \<forall>info. r = Inr info \<longrightarrow> adoptable info)"
proof -
  let ?Q = "\<lambda>r :: goerror + tgtInfo. \<forall>info. r = Inr info \<longrightarrow> adoptable info"
  have init: "unlocked no (lib_step (krb5_cc_initialize L renewCacheName p)) (\<lambda>_. True)" for p
    by (rule unlocked_lib) (use scratch_initialize in auto)
  have store: "unlocked no (lib_step (krb5_cc_store_cred L renewCacheName cr)) (\<lambda>_. True)" for cr
    by (rule unlocked_lib) (use scratch_store in auto)
  have renew: "unlocked no (lib_step (krb5_get_renewed_creds L p renewCacheName)) (\<lambda>r. \<forall>cr. r = Inr cr \<longrightarrow> local_tgt cr)" for p
    by (rule unlocked_lib) (use scratch_renew renewed_local in auto)
  have "unlocked bad (case r of Inl code \<Rightarrow> Ret (Inl (krbErr L code)) | Inr renewed \<Rightarrow> Ret (tgtInfoFrom L renewed)) ?Q"
    if "\<forall>cr. r = Inr cr \<longrightarrow> local_tgt cr" for r
    using that by (cases r) (auto intro!: unlocked_Ret simp: adoptable_def)
  then show ?thesis
    unfolding renew_scratch_p_def or_code_def
    by (auto intro!: unlocked_bind [OF init] unlocked_bind [OF store] unlocked_bind [OF renew] unlocked_Ret)
qed

lemma unlocked_renewExchange: "unlocked bad (renewExchange_p L wire) (\<lambda>r. \<forall>info. r = Inr info \<longrightarrow> adoptable info)"
proof (cases "unmarshalCreds L wire")
  case (Inr creds)
  have destroy: "unlocked no (lib_step (\<lambda>w. ((), krb5_cc_destroy L renewCacheName w))) (\<lambda>_. True)"
    by (rule unlocked_lib) (use scratch_destroy in auto)
  show ?thesis
    unfolding renewExchange_p_def Inr sum.case or_code_def
    by (auto intro!: unlocked_bind [OF unlocked_asks] unlocked_bind [OF unlocked_renew_scratch] unlocked_bind [OF destroy]
        unlocked_Ret)
qed (simp add: renewExchange_p_def unlocked_Ret)

lemma unlocked_renewTGT: "unlocked bad (renewTGT_p L now) (\<lambda>_. True)"
proof -
  have start: "unlocked no (writing (fields_step renew_start)) (\<lambda>_. True)"
  proof (rule unlocked_writing, rule writes_fields)
    fix c w r c'
    assume "ok (c, w)" "renew_start c = (r, c')"
    then show "ok (c', w) \<and> True"
      by (auto simp: renew_start_def settled_state_def tgt_in_cache_def split: if_splits option.splits)
  qed simp
  have finish: "unlocked bad (writing (renew_finish_p L started now res)) (\<lambda>_. True)"
    if "\<forall>info. res = Inr info \<longrightarrow> adoptable info" for started res
    using that by (auto intro!: unlocked_writing writes_post [OF writes_renew_finish])
  have "unlocked bad (case r of Inl err \<Rightarrow> Ret (Some err) | Inr started \<Rightarrow>
      bind (renewExchange_p L (ti_wire (snd started))) (\<lambda>res. writing (renew_finish_p L started now res))) (\<lambda>_. True)" for r
    by (cases r) (auto intro!: unlocked_Ret unlocked_bind [OF unlocked_renewExchange] finish)
  then show ?thesis unfolding renewTGT_p_def by (intro unlocked_bind [OF start]) simp
qed

lemma unlocked_read_fields: "unlocked bad (reading (get f)) (\<lambda>_. True)"
  by (rule unlocked_reading, rule reads_get) simp

lemma unlocked_renew_logged: "unlocked bad (renew_logged_p L now) (\<lambda>_. True)"
  unfolding renew_logged_p_def
  by (rule unlocked_bind [OF unlocked_renewTGT]) (auto intro: unlocked_Ret unlocked_read_fields split: option.splits)

section \<open>Maintenance\<close>

text \<open>A panic while the file is reloaded is the one way to end with the lock held.\<close>

abbreviation panics :: "goerror + 'x \<Rightarrow> bool" where
  "panics r \<equiv> \<exists>e. r = Inl e \<and> is_panic e"

abbreviation panicked :: "goerror option \<Rightarrow> bool" where
  "panicked r \<equiv> \<exists>e. r = Some e \<and> is_panic e"

lemma unlocked_reload: "unlocked panics (reload_p L now) (\<lambda>r. \<forall>e. r = Inl e \<longrightarrow> is_panic e)"
proof -
  let ?Q = "\<lambda>p s. ok s \<and> (\<forall>e. p = Some e \<longrightarrow> is_panic e)"
  have load: "writes ok (if needed then loadNewerTGT_p L now else Ret None) ?Q" for needed
    using writes_yields [OF yields_panic writes_loadNewerTGT] by (auto intro: writes_Ret)
  let ?R = "\<lambda>(r :: goerror + bool) h s. (h = Free \<or> panics r) \<and> (\<forall>e. r = Inl e \<longrightarrow> is_panic e)"
  let ?go = "\<lambda>p. case p of Some panic \<Rightarrow> Ret (Inl panic)
        | None \<Rightarrow> bind (get (\<lambda>c. renewWanted c now)) (\<lambda>renew. Call Unlock (Ret (Inr renew)))"
  have go: "wp (?go p) ?R hold.Write s" if "?Q p s" for p s
  proof (cases p)
    case None
    have "ok s" using that by simp
    then have "ok s'" if "left_alone entries owner s s'" for s' using rest_settled that by blast
    then have "wp (get (\<lambda>c. renewWanted c now)) (\<lambda>renew h s. h = hold.Write \<and> ok s) hold.Write s"
      unfolding get_def fields_step_def wp_step by (auto simp: split_beta)
    then show ?thesis
      unfolding None option.case wp_bind by (rule wp_mono) (auto intro: rest_settled)
  qed (use that in auto)
  have body: "wp (bind (get (\<lambda>c. tgtNeedsAttention c now)) (\<lambda>needed.
        bind (if needed then loadNewerTGT_p L now else Ret None) ?go)) ?R hold.Write s" if "ok s" for s
  proof -
    let ?body = "bind (get (\<lambda>c. tgtNeedsAttention c now)) (\<lambda>needed. if needed then loadNewerTGT_p L now else Ret None)"
    have "writes ok ?body ?Q" by (rule writes_bind [OF writes_get [where Q = "\<lambda>_. ok"] load]) auto
    then have "wp ?body (\<lambda>p h s. h = hold.Write \<and> ?Q p s) hold.Write s" using that unfolding writes_def by blast
    then have "wp ?body (\<lambda>p. wp (?go p) ?R) hold.Write s" by (rule wp_mono) (use go in auto)
    then have "wp (bind ?body ?go) ?R hold.Write s" by (simp only: wp_bind [of ?body ?go])
    then show ?thesis by (simp only: bind_assoc)
  qed
  then show ?thesis by (simp add: unlocked_def reload_p_def)
qed

lemma unlocked_maintain: "unlocked panicked (maintain_p L now) (\<lambda>r. \<forall>e. r = Some e \<longrightarrow> is_panic e)"
proof -
  let ?go = "\<lambda>r. case r of Inl panic \<Rightarrow> Ret (Some panic) | Inr renew \<Rightarrow>
      bind (if renew then renew_logged_p L now else Ret ()) (\<lambda>_. bind (sweep_p L now) (\<lambda>_. Ret None))"
  have renew: "unlocked no (if renew then renew_logged_p L now else Ret ()) (\<lambda>_. True)" for renew
    by (auto intro: unlocked_renew_logged unlocked_Ret)
  have go: "unlocked panicked (?go r) (\<lambda>r. \<forall>e. r = Some e \<longrightarrow> is_panic e)" if "\<forall>e. r = Inl e \<longrightarrow> is_panic e" for r
  proof (cases r)
    case (Inr renew)
    have "unlocked panicked (bind (sweep_p L now) (\<lambda>_. Ret None)) (\<lambda>r. \<forall>e. r = Some e \<longrightarrow> is_panic e)"
      by (rule unlocked_bind [OF unlocked_sweep]) (simp add: unlocked_Ret)
    then show ?thesis unfolding Inr sum.case by (intro unlocked_bind [OF renew])
  qed (use that in \<open>simp add: unlocked_Ret\<close>)
  have reload: "unlocked panics (if reload then reload_p L now else Ret (Inr renew)) (\<lambda>r. \<forall>e. r = Inl e \<longrightarrow> is_panic e)"
    for reload renew
    by (auto intro: unlocked_reload unlocked_Ret)
  have "unlocked panicked (bind (if reload then reload_p L now else Ret (Inr renew)) ?go) (\<lambda>r. \<forall>e. r = Some e \<longrightarrow> is_panic e)"
    for reload renew
    by (rule unlocked_bind_bad [OF reload go]) auto
  then show ?thesis
    unfolding maintain_p_def by (intro unlocked_bind [OF unlocked_read_fields]) (auto split: prod.splits)
qed

section \<open>Operations\<close>

lemma unlocked_maintained:
  assumes "unlocked panics p (\<lambda>_. True)"
  shows "unlocked panics (maintained_p L now p) (\<lambda>_. True)"
  unfolding maintained_p_def
proof (rule unlocked_bind_bad [OF unlocked_maintain])
  show "unlocked panics (case e of Some panic \<Rightarrow> Ret (Inl panic) | None \<Rightarrow> p) (\<lambda>_. True)" if "\<not> panicked e" "\<forall>x. e = Some x \<longrightarrow> is_panic x" for e
    using that assms by (cases e) (auto intro: unlocked_Ret)
qed auto

lemma unlocked_with_context:
  assumes "unlocked panics p (\<lambda>_. True)"
  shows "unlocked panics (with_context_p L p) (\<lambda>_. True)"
proof -
  have "unlocked panics (bind p (\<lambda>r. bind release_p (\<lambda>_. Ret r))) (\<lambda>_. True)"
  proof (rule unlocked_bind_bad [OF assms])
    show "unlocked panics (bind release_p (\<lambda>_. Ret r)) (\<lambda>_. True)" for r
      by (auto intro!: unlocked_bind [OF unlocked_release] unlocked_Ret)
    show "wp (bind release_p (\<lambda>_. Ret r)) (\<lambda>y h s. (h = Free \<or> panics y) \<and> True) h s" if "panics r" for r h s
      using that unfolding wp_bind by (auto intro!: wp_release)
  qed
  then have "unlocked panics (case e of Some err \<Rightarrow> Ret (Inl err) | None \<Rightarrow> bind p (\<lambda>r. bind release_p (\<lambda>_. Ret r))) (\<lambda>_. True)" for e
    by (cases e) (auto intro: unlocked_Ret)
  then show ?thesis unfolding with_context_p_def by (intro unlocked_bind [OF unlocked_acquire])
qed

lemma unlocked_round: "unlocked panics (run_round_p L now) (\<lambda>_. True)"
proof -
  have rel: "unlocked panicked (bind release_p (\<lambda>_. Ret None)) (\<lambda>r. \<forall>e. r = Some e \<longrightarrow> is_panic e)"
    by (auto intro!: unlocked_bind [OF unlocked_release] unlocked_Ret)
  have "unlocked panicked (case e of Some err \<Rightarrow> Ret (Some err) | None \<Rightarrow> bind release_p (\<lambda>_. Ret None))
      (\<lambda>r. \<forall>e. r = Some e \<longrightarrow> is_panic e)" if "\<not> panicked e" "\<forall>x. e = Some x \<longrightarrow> is_panic x" for e
    using that rel by (cases e) auto
  then have m: "unlocked panicked (unless_fails (maintain_p L now) (bind release_p (\<lambda>_. Ret None))) (\<lambda>r. \<forall>e. r = Some e \<longrightarrow> is_panic e)"
    unfolding unless_fails_def by (rule unlocked_bind_bad [OF unlocked_maintain]) auto
  have "unlocked panicked (case e of Some err \<Rightarrow> Ret None | None \<Rightarrow> unless_fails (maintain_p L now) (bind release_p (\<lambda>_. Ret None)))
      (\<lambda>r. \<forall>e. r = Some e \<longrightarrow> is_panic e)" for e :: "goerror option"
    using m by (cases e) (auto intro: unlocked_Ret)
  then have first: "unlocked panicked (bind (acquire_p L) (\<lambda>e. case e of Some err \<Rightarrow> Ret None | None \<Rightarrow>
      unless_fails (maintain_p L now) (bind release_p (\<lambda>_. Ret None)))) (\<lambda>r. \<forall>e. r = Some e \<longrightarrow> is_panic e)"
    by (intro unlocked_bind [OF unlocked_acquire])
  show ?thesis
    unfolding run_round_p_def
  proof (rule unlocked_bind_bad [OF first])
    show "unlocked panics (case e of Some panic \<Rightarrow> Ret (Inl panic) | None \<Rightarrow> reading (get (\<lambda>c. Inr (nextWake c now)))) (\<lambda>_. True)"
      if "\<not> panicked e" "\<forall>x. e = Some x \<longrightarrow> is_panic x" for e
      using that by (cases e) (auto intro: unlocked_Ret unlocked_read_fields)
  qed auto
qed

lemma unlocked_as_goroutine:
  assumes "unlocked panics p (\<lambda>_. True)"
  shows "unlocked (\<lambda>x. x) (as_goroutine p) (\<lambda>_. True)"
  unfolding as_goroutine_def by (rule unlocked_bind_bad [OF assms]) (auto intro: unlocked_Ret split: sum.splits)

lemma unlocked_no_result: "unlocked no p (\<lambda>_. True) \<Longrightarrow> unlocked (\<lambda>x. x) (bind p (\<lambda>_. Ret False)) (\<lambda>_. True)"
  by (rule unlocked_bind [where R = "\<lambda>_. True"]) (simp_all add: unlocked_Ret)

lemmas unlocked_sections = unlocked_as_goroutine unlocked_with_context unlocked_maintained

lemma unlocked_write_section: "writes ok p (\<lambda>_. ok) \<Longrightarrow> unlocked bad (writing p) (\<lambda>_. True)"
  by (rule unlocked_writing) (auto elim: writes_post)

lemma unlocked_read_section: "reads (\<lambda>_. True) p (\<lambda>_ _. True) \<Longrightarrow> unlocked bad (reading p) (\<lambda>_. True)"
  by (rule unlocked_reading)

lemma unlocked_ErrorMessage: "unlocked no (ErrorMessage_p L code) (\<lambda>_. True)"
proof -
  have "unlocked no (case e of Some err \<Rightarrow> Ret s | None \<Rightarrow> bind release_p (\<lambda>_. Ret t)) (\<lambda>_. True)"
    for e :: "goerror option" and s t :: string
    by (cases e) (auto intro!: unlocked_Ret unlocked_bind [OF unlocked_release])
  then show ?thesis
    unfolding ErrorMessage_p_def by (auto intro!: unlocked_Ret unlocked_bind [OF unlocked_acquire])
qed

end

text \<open>The requests that may remove the held TGT from the cache.\<close>

fun removes :: "op_request \<Rightarrow> bool" where
  "removes (Remove_entry _) = True"
| "removes (Remove_matches _) = True"
| "removes _ = False"

context settled_engine
begin

lemma reads_listing: "reads (\<lambda>_. True) (bind (forEachEntry_p L fn s) (\<lambda>r. Ret (walked r))) (\<lambda>_ _. True)"
  by (rule reads_bind [OF reads_forEachEntry]) (simp add: reads_Ret)

lemma op_prog_unlocked:
  assumes "b \<longrightarrow> \<not> removes req"
  shows "unlocked (\<lambda>x. x) (op_prog L req) (\<lambda>_. True)"
proof (cases req)
  case Get_principal
  have "reads (\<lambda>_. True) (ask (defaultPrincipal L)) (\<lambda>_ _. True)" by (rule reads_ask) simp
  then show ?thesis
    by (simp add: Get_principal DefaultPrincipal_p_def unlocked_as_goroutine unlocked_with_context unlocked_read_section)
next
  case (Remove_entry u)
  then have "\<not> b" using assms by simp
  then show ?thesis
    unfolding Remove_entry op_prog.simps RemoveByUUID_p_def
    by (intro unlocked_sections unlocked_write_section writes_remove_by_uuid)
next
  case (Remove_matches mc)
  then have "\<not> b" using assms by simp
  then show ?thesis
    unfolding Remove_matches op_prog.simps RemoveMatching_p_def
    by (intro unlocked_sections unlocked_write_section writes_remove_matching)
next
  case (Fetch now mc joined)
  then show ?thesis
    by (auto simp: Retrieve_p_def intro!: unlocked_as_goroutine unlocked_Ret unlocked_with_context unlocked_maintained
        unlocked_read_section reads_retrieve)
next
  case Held_TGT
  then show ?thesis by (simp add: TGT_p_def unlocked_no_result unlocked_read_fields)
qed (auto simp: ListEntries_p_def EntryByUUID_p_def Store_p_def Initialize_p_def SummarizeCredential_p_def
    intro!: unlocked_sections unlocked_read_section unlocked_write_section reads_listing writes_store_creds
      writes_initialize_cache unlocked_no_result unlocked_ErrorMessage unlocked_Ret unlocked_round)

end

text \<open>Every operation of the engine keeps the contract.\<close>

sublocale settled_engine \<subseteq> engine: concurrent_sections "settled_state L entries owner b"
  "\<lambda>s. cache_guarded entries owner (snd s)" "left_alone entries owner" client_fields "left_alone entries owner"
  "\<lambda>p. \<exists>req. p = op_prog L req \<and> (b \<longrightarrow> \<not> removes req)"
proof unfold_locales
  fix p :: "(client \<times> 'a, bool) prog" and s
  assume "\<exists>req. p = op_prog L req \<and> (b \<longrightarrow> \<not> removes req)"
  then have "unlocked (\<lambda>x. x) p (\<lambda>_. True)" using op_prog_unlocked by blast
  then have "\<forall>s. wp p (\<lambda>panicked h _. (h = Free \<or> panicked) \<and> True) Free s" unfolding unlocked_def .
  then show "wp p (\<lambda>panicked h _. h = Free \<or> panicked) Free s" unfolding simp_thms by blast
qed

section \<open>What is observed\<close>

text \<open>The engine with any number of goroutines, each running requests one after the other, while the KDC, the files and
  everything else that is not the working cache may change at any moment.\<close>

definition engine_step ::
  "'w krb5_lib \<Rightarrow> ('w \<Rightarrow> krb5_creds list) \<Rightarrow> ('w \<Rightarrow> krb5_principal option) \<Rightarrow> (op_request \<Rightarrow> bool) \<Rightarrow>
     (client \<times> 'w) conf \<Rightarrow> (client \<times> 'w) conf \<Rightarrow> bool" where
  "engine_step L entries owner allowed =
     conf_step (left_alone entries owner) (\<lambda>p. \<exists>req. p = op_prog L req \<and> allowed req)"

context reliable_ccache
begin

lemma settled_engines: "settled_engine L entries owner"
  by unfold_locales

lemma Open_settled:
  assumes "Open L path opts now w0 = (Inr c, w)"
  shows "settled_state L entries owner b (c, w)"
proof -
  have "held c w"
    using assms
    by (auto simp: Open_def Let_def new_client_def tgt_in_cache_def split: op_splits dest: loadFrom_copy)
  then show ?thesis using guarded_Open [OF assms] by (simp add: settled_state_def)
qed

end

context settled_engine
begin

lemma engine_observes:
  assumes "Open L path opts now w0 = (Inr c, w)"
    "(engine_step L entries owner (\<lambda>req. b \<longrightarrow> \<not> removes req))\<^sup>*\<^sup>* (new_conf (c, w) n) C"
  shows "guarded (snd (cf_data C))" "writer_alone (cf_holds C)"
    "hold.Write \<notin> set (cf_holds C) \<Longrightarrow> ok (cf_data C)"
    "engine_step L entries owner (\<lambda>req. b \<longrightarrow> \<not> removes req) C C' \<Longrightarrow> hold.Read \<in> set (cf_holds C) \<Longrightarrow>
       client_fields (cf_data C') = client_fields (cf_data C)"
proof -
  have inv: "engine.conf_inv C"
    by (rule engine.conf_reachable [OF Open_settled [OF assms(1)] assms(2) [unfolded engine_step_def]])
  then show "guarded (snd (cf_data C))" "writer_alone (cf_holds C)"
    "hold.Write \<notin> set (cf_holds C) \<Longrightarrow> ok (cf_data C)"
    by (simp_all add: engine.conf_inv_def)
  show "engine_step L entries owner (\<lambda>req. b \<longrightarrow> \<not> removes req) C C' \<Longrightarrow> hold.Read \<in> set (cf_holds C) \<Longrightarrow>
       client_fields (cf_data C') = client_fields (cf_data C)"
    unfolding engine_step_def by (rule engine.conf_step_fields [OF inv])
qed

end


text \<open>C11: no service ticket is ever requested renewable, whatever the interleaving of the calls. For a library with reliable
  MEMORY caches, when any requests and background rounds run concurrently as above, then at every
  moment, also in the middle of a swap of the TGT or of a reload, every local TGT of the cache's own principal in
  the working cache has \<^verbatim>\<open>TKT_FLG_RENEWABLE\<close> cleared.\<close>

theorem interleaved_TGT_not_renewable:
  assumes "reliable_ccache L entries owner" "Open L path opts now w0 = (Inr c, w)"
    "(engine_step L entries owner (\<lambda>_. True))\<^sup>*\<^sup>* (new_conf (c, w) n) C" "e \<in> set (entries (snd (cf_data C)))"
    "local_tgt e" "same_principal (cr_client e) (owner (snd (cf_data C)))"
  shows "cr_ticket_flags e AND tktFlgRenewable = 0"
  using settled_engine.engine_observes(1) [OF reliable_ccache.settled_engines [OF assms(1)] assms(2), of False, simplified, OF assms(3)]
    assms(4-6)
  by (auto simp: cache_guarded_def tgt_guarded_def)

end
