(* ===== verification/Observed_Examples.thy ===== *)
theory Observed_Examples
  imports Observed Daemon_Examples
begin

text \<open>
  Interleavings on the reference library: an INITIALIZE stopped in the middle, where the invariant does not hold and the
  write lock is held, and after its end.
\<close>

interpretation ref_settled: settled_engine ref_lib ref_entries ref_owner b for b
  by unfold_locales

definition ex_bob_name :: principal where
  "ex_bob_name = \<lparr>Type = 1, Realm = ''R'', Components = [''bob'']\<rparr>"

definition ex_reset :: "client \<Rightarrow> ref_world \<Rightarrow> (client \<times> ref_world) conf" where
  "ex_reset c w = put_gor 0 Free (op_prog ref_lib (op_request.Reset ex_bob_name)) (new_conf (c, w) 2)"

lemma ex_reset_started:
  "engine_step ref_lib ref_entries ref_owner (\<lambda>req. \<not> removes req) (new_conf (c, w) 2) (ex_reset c w)"
  unfolding engine_step_def ex_reset_def
  by (rule conf_step.start) (auto simp: new_conf_def numeral_2_eq_2 intro: exI [of _ "op_request.Reset ex_bob_name"])

text \<open>The steps of an INITIALIZE: slot, context, lock, initialise, two fields, unlock, context, slot.\<close>

lemmas ex_steps = go_def ex_reset_def new_conf_def numeral_2_eq_2 as_goroutine_def Initialize_p_def with_context_p_def
  acquire_p_def writing_def initialize_cache_p_def or_code_def release_p_def lib_step_def upd_def fields_step_def step_def
  take_idle_def ex_bob ex_bob_name_def

lemma ex_reset_middle:
  assumes "0 < idle c"
  shows "\<exists>C. follow [0, 0, 0, 0] (ex_reset c w) = Some C \<and> cf_holds C = [hold.Write, Free] \<and>
    ref_entries (snd (cf_data C)) = [] \<and> tgt (fst (cf_data C)) = tgt c"
  using assms by (simp add: ex_steps ref_initialize_def ref_entries_def ref_cache_def ref_set_def)

lemma ex_reset_end:
  assumes "0 < idle c"
  shows "\<exists>C. follow [0, 0, 0, 0, 0, 0, 0, 0, 0] (ex_reset c w) = Some C \<and> cf_holds C = [Free, Free] \<and>
    tgt (fst (cf_data C)) = None"
  using assms by (simp add: ex_steps ref_initialize_def resetRenewBackoff_def release_def)

text \<open>The write lock is held in the middle of the INITIALIZE, and the held TGT is gone from the cache: what readers rely on
  holds because they are kept out, not because it never breaks.\<close>

lemma ex_middle_unsettled:
  assumes "ref_entries w' = []" "tgt c' = Some x"
  shows "\<not> tgt_in_cache ref_lib ref_entries c' w'"
  using assms by (cases x) (simp add: tgt_in_cache_def copy_in_cache_def)

lemma ex_reset_runs:
  obtains c w C C' where
    "Open ref_lib ''/tmp/cc'' ex_options (GoTime 0) (ex_world [] [ex_tgt 50000]) = (Inr c, w)"
    "(engine_step ref_lib ref_entries ref_owner (\<lambda>req. \<not> removes req))\<^sup>*\<^sup>* (new_conf (c, w) 2) C"
    "(engine_step ref_lib ref_entries ref_owner (\<lambda>req. \<not> removes req))\<^sup>*\<^sup>* C C'"
    "cf_holds C = [hold.Write, Free]" "ref_entries (snd (cf_data C)) = []" "tgt (fst (cf_data C)) = Some (0, ex_info 50000)"
    "cf_holds C' = [Free, Free]" "tgt (fst (cf_data C')) = None"
proof -
  obtain c w where o: "Open ref_lib ''/tmp/cc'' ex_options (GoTime 0) (ex_world [] [ex_tgt 50000]) = (Inr c, w)"
    "tgt c = Some (0, ex_info 50000)"
    using ex_open by blast
  have idle: "0 < idle c" using Open_idle [OF o(1)] by simp
  obtain C where C: "follow [0, 0, 0, 0] (ex_reset c w) = Some C" "cf_holds C = [hold.Write, Free]"
    "ref_entries (snd (cf_data C)) = []" "tgt (fst (cf_data C)) = tgt c"
    using ex_reset_middle [OF idle, of w] by (elim exE conjE)
  obtain C' where C': "follow [0, 0, 0, 0, 0, 0, 0, 0, 0] (ex_reset c w) = Some C'" "cf_holds C' = [Free, Free]"
    "tgt (fst (cf_data C')) = None"
    using ex_reset_end [OF idle, of w] by (elim exE conjE)
  have rest: "follow [0, 0, 0, 0, 0] C = Some C'"
    using C(1) C'(1) follow_append [of "[0, 0, 0, 0]" "[0, 0, 0, 0, 0]" "ex_reset c w"] by (simp del: follow.simps)
  let ?go = "engine_step ref_lib ref_entries ref_owner (\<lambda>req. \<not> removes req)"
  have "?go\<^sup>*\<^sup>* (ex_reset c w) C" using follow_steps [OF C(1)] unfolding engine_step_def .
  with ex_reset_started have "?go\<^sup>*\<^sup>* (new_conf (c, w) 2) C" by (rule converse_rtranclp_into_rtranclp)
  moreover have "?go\<^sup>*\<^sup>* C C'" using follow_steps [OF rest] unfolding engine_step_def .
  ultimately show thesis by (rule that [OF o(1) _ _ C(2,3) _ C'(2,3)]) (use C(4) o(2) in simp)
qed


text \<open>A goroutine that has just entered the write section, with the TGT of the file in the cache: the flag it came with is
  cleared.\<close>

lemma ex_reset_entered:
  assumes "0 < idle c"
  shows "\<exists>C. follow [0, 0, 0] (ex_reset c w) = Some C \<and> cf_holds C = [hold.Write, Free] \<and> snd (cf_data C) = w"
  using assms by (simp add: ex_steps)

theorem interleaved_TGT_not_renewable_witness:
  "\<exists>C :: (client \<times> ref_world) conf. cf_holds C = [hold.Write, Free] \<and>
     (\<exists>e \<in> set (ref_entries (snd (cf_data C))). local_tgt e \<and> cr_ticket_flags e AND tktFlgRenewable = 0)"
proof -
  obtain c w where o: "Open ref_lib ''/tmp/cc'' ex_options (GoTime 0) (ex_world [] [ex_tgt 50000]) = (Inr c, w)"
    "ref_entries w = [clear_renewable (ex_tgt 50000)]" "ref_owner w = Some ex_alice"
    using ex_open by blast
  have idle: "0 < idle c" using Open_idle [OF o(1)] by simp
  obtain C where C: "follow [0, 0, 0] (ex_reset c w) = Some C" "cf_holds C = [hold.Write, Free]" "snd (cf_data C) = w"
    using ex_reset_entered [OF idle, of w] by (elim exE conjE)
  let ?go = "engine_step ref_lib ref_entries ref_owner (\<lambda>_. True)"
  have "?go (new_conf (c, w) 2) (ex_reset c w)"
    unfolding engine_step_def ex_reset_def
    by (rule conf_step.start) (auto simp: new_conf_def numeral_2_eq_2 intro: exI [of _ "op_request.Reset ex_bob_name"])
  moreover have "?go\<^sup>*\<^sup>* (ex_reset c w) C" using follow_steps [OF C(1)] unfolding engine_step_def .
  ultimately have r: "?go\<^sup>*\<^sup>* (new_conf (c, w) 2) C" by (rule converse_rtranclp_into_rtranclp)
  have "cr_ticket_flags (clear_renewable (ex_tgt 50000)) AND tktFlgRenewable = 0"
    by (rule interleaved_TGT_not_renewable [OF ref.reliable_ccache_axioms o(1) r])
      (use o(2,3) C(3) in \<open>simp_all add: ex_tgt_def ex_cred_def\<close>, use ex_local(1) in \<open>simp add: ex_tgt_def ex_cred_def\<close>)
  then show ?thesis using o(2) C(2,3) by (intro exI [of _ C]) simp
qed

end
